(* ===== verification/Prelude.thy ===== *)
theory Prelude
  imports Main "HOL-Library.Word" "HOL-Library.AList" "HOL-Library.Monad_Syntax"
begin

text \<open>
  Shared vocabulary of the development: the parts of the Go language and of its standard
  library that the modelled sources use, and the generic lemmas the component theories
  rest on.

  \<^item> Machine integers are words; \<open>byte\<close>, \<open>u16\<close>, \<open>u32\<close>, \<open>u64\<close> name the widths.
  \<^item> A Go function that may panic returns an \<open>option\<close>, where \<open>None\<close> is the panic; slices
    and indices are checked (\<open>idx\<close>, \<open>slice\<close>, \<open>copy_at\<close>, \<open>set_at\<close>). A function that returns an error
    returns a sum, where \<open>Inl\<close> is the error. A function that may do both returns a sum
    inside an \<open>option\<close>.
  \<^item> A Go map is an association list with distinct keys (\<open>gmap\<close>); where the code iterates
    over a map, the iteration order is an argument of the model, since Go leaves it open.
  \<^item> \<open>net/netip\<close> addresses and prefixes are modelled with the comparison, unmapping and
    containment the code uses. IPv6 zones are not modelled: no modelled operation creates one.
  \<^item> \<open>reach\<close> and the locale \<open>invariant_system\<close> give reachable states of a step relation and
    the invariant rule that the stateful components share.
\<close>

unbundle bit_operations_syntax

type_synonym byte = "8 word"
type_synonym u16 = "16 word"
type_synonym u32 = "32 word"
type_synonym u64 = "64 word"
type_synonym bytes = "byte list"

named_theorems slice_simps \<open>evaluation of checked slice operations\<close>
named_theorems gmap_simps \<open>laws of the association-list maps\<close>

section \<open>Slices\<close>

definition idx :: "'a list \<Rightarrow> nat \<Rightarrow> 'a option" where
  "idx xs i = (if i < length xs then Some (xs ! i) else None)"

definition slice :: "'a list \<Rightarrow> nat \<Rightarrow> nat \<Rightarrow> 'a list option" where
  "slice xs a b = (if a \<le> b \<and> b \<le> length xs then Some (take (b - a) (drop a xs)) else None)"

definition slice_from :: "'a list \<Rightarrow> nat \<Rightarrow> 'a list option" where
  "slice_from xs a = slice xs a (length xs)"

definition copy_at :: "nat \<Rightarrow> 'a list \<Rightarrow> 'a list \<Rightarrow> 'a list option" where
  "copy_at off src dst =
     (if off \<le> length dst
      then Some (take off dst @ take (length dst - off) src @ drop (off + length src) dst)
      else None)"

definition set_at :: "nat \<Rightarrow> 'a \<Rightarrow> 'a list \<Rightarrow> 'a list option" where
  "set_at i x xs = (if i < length xs then Some (xs[i := x]) else None)"

lemma idx_Some [slice_simps]: "i < length xs \<Longrightarrow> idx xs i = Some (xs ! i)"
  by (simp add: idx_def)

lemma slice_Some [slice_simps]:
  "a \<le> b \<Longrightarrow> b \<le> length xs \<Longrightarrow> slice xs a b = Some (take (b - a) (drop a xs))"
  by (simp add: slice_def)

lemma slice_from_Some [slice_simps]: "a \<le> length xs \<Longrightarrow> slice_from xs a = Some (drop a xs)"
  by (simp add: slice_from_def slice_def)

lemma copy_at_Some [slice_simps]:
  "off \<le> length dst \<Longrightarrow>
   copy_at off src dst = Some (take off dst @ take (length dst - off) src @ drop (off + length src) dst)"
  by (simp add: copy_at_def)

lemma set_at_Some [slice_simps]: "i < length xs \<Longrightarrow> set_at i x xs = Some (xs[i := x])"
  by (simp add: set_at_def)

lemma length_copy_at: "copy_at off src dst = Some r \<Longrightarrow> length r = length dst"
  by (auto simp: copy_at_def min_def split: if_splits)

lemma length_slice: "slice xs a b = Some r \<Longrightarrow> length r = b - a"
  by (auto simp: slice_def split: if_splits)

lemma case_sum_Inr_iff:
  "(case r of Inl e \<Rightarrow> Inl (g e) | Inr x \<Rightarrow> f x) = Inr y \<longleftrightarrow> (\<exists>x. r = Inr x \<and> f x = Inr y)"
  by (cases r) auto

lemma map_sum_Inr_iff: "map_sum f g x = Inr y \<longleftrightarrow> (\<exists>z. x = Inr z \<and> g z = y)"
  by (cases x) auto

section \<open>Big-endian integers\<close>

definition be16 :: "bytes \<Rightarrow> u16 option" where
  "be16 bs = do {
     b0 \<leftarrow> idx bs 0;
     b1 \<leftarrow> idx bs 1;
     Some (push_bit 8 (ucast b0) OR ucast b1)
   }"

definition put16 :: "u16 \<Rightarrow> bytes" where
  "put16 w = [ucast (drop_bit 8 w), ucast w]"

definition be_word :: "bytes \<Rightarrow> 'a::len word" where
  "be_word bs = foldl (\<lambda>acc b. push_bit 8 acc OR ucast b) 0 bs"

definition be_bytes :: "nat \<Rightarrow> 'a::len word \<Rightarrow> bytes" where
  "be_bytes n w = map (\<lambda>i. ucast (drop_bit (8 * (n - 1 - i)) w)) [0..<n]"

lemma be16_Some [slice_simps]:
  "2 \<le> length bs \<Longrightarrow> be16 bs = Some (push_bit 8 (ucast (bs ! 0)) OR ucast (bs ! 1))"
  by (cases bs) (auto simp: be16_def idx_def)

lemma be16_put16: "be16 (put16 w @ rest) = Some w"
proof -
  have "push_bit 8 (ucast (ucast (drop_bit 8 w) :: byte)) OR ucast (ucast w :: byte) = w"
    by (rule bit_word_eqI) (auto simp: bit_simps)
  then show ?thesis by (simp add: be16_def put16_def idx_def)
qed

text \<open>For evaluation, a word is assembled by arithmetic.\<close>

lemma push_or_add: "push_bit 8 (acc :: 'a::len word) OR ucast (b :: byte) = acc * 256 + ucast b"
proof -
  have "push_bit 8 acc AND ucast b = 0"
    by (rule bit_word_eqI) (auto simp: bit_simps dest: bit_imp_le_length)
  then have "push_bit 8 acc + ucast b = push_bit 8 acc OR ucast b"
    by (rule disjunctive_add_eq_or)
  moreover have "push_bit 8 acc = acc * 256" by (simp add: push_bit_eq_mult)
  ultimately show ?thesis by simp
qed

lemma be_word_step: "(word_of_int i :: 'a::len word) * 256 + ucast (b::byte) = word_of_int (i * 256 + uint b)"
  by simp

lemma be_word_code [code]: "(be_word bs :: 'a::len word) = word_of_int (foldl (\<lambda>a b. a * 256 + uint b) 0 bs)"
proof -
  have "foldl (\<lambda>acc b. acc * 256 + ucast b) (word_of_int i :: 'a word) bs
      = word_of_int (foldl (\<lambda>a b. a * 256 + uint b) i bs)" for i
  proof (induction bs arbitrary: i)
    case (Cons b bs)
    show ?case by (simp only: foldl_Cons be_word_step Cons.IH)
  qed simp
  from this [of 0] show ?thesis by (simp add: be_word_def push_or_add)
qed
lemma length_be_bytes [simp]: "length (be_bytes n w) = n"
  by (simp add: be_bytes_def)

section \<open>Maps\<close>

type_synonym ('k, 'v) gmap = "('k \<times> 'v) list"

abbreviation gget :: "('k, 'v) gmap \<Rightarrow> 'k \<Rightarrow> 'v option" where
  "gget m k \<equiv> map_of m k"

abbreviation gput :: "'k \<Rightarrow> 'v \<Rightarrow> ('k, 'v) gmap \<Rightarrow> ('k, 'v) gmap" where
  "gput k v m \<equiv> AList.update k v m"

abbreviation gdel :: "'k \<Rightarrow> ('k, 'v) gmap \<Rightarrow> ('k, 'v) gmap" where
  "gdel k m \<equiv> AList.delete k m"

abbreviation gkeys :: "('k, 'v) gmap \<Rightarrow> 'k list" where
  "gkeys m \<equiv> map fst m"

abbreviation gwf :: "('k, 'v) gmap \<Rightarrow> bool" where
  "gwf m \<equiv> distinct (gkeys m)"

lemma gget_gput [gmap_simps, simp]: "gget (gput k v m) k' = (if k' = k then Some v else gget m k')"
  by (simp add: update_conv')

lemma gget_gdel [gmap_simps, simp]: "gget (gdel k m) k' = (if k' = k then None else gget m k')"
  by (simp add: delete_conv')

lemma gwf_gput [gmap_simps, simp]: "gwf m \<Longrightarrow> gwf (gput k v m)"
  by (rule distinct_update)

lemma gwf_gdel [gmap_simps, simp]: "gwf m \<Longrightarrow> gwf (gdel k m)"
  by (rule distinct_delete)

lemma gget_None_iff: "gget m k = None \<longleftrightarrow> k \<notin> set (gkeys m)"
  by (induction m) auto

lemma gget_Some_key: "gget m k = Some v \<Longrightarrow> k \<in> set (gkeys m)"
  by (induction m) (auto split: if_splits)

lemma gdel_idem: "k \<notin> set (gkeys m) \<Longrightarrow> gdel k m = m"
  by (induction m) auto

lemma length_gput [gmap_simps]:
  "length (gput k v m) = (if gget m k = None then Suc (length m) else length m)"
  by (induction m) auto

lemma length_gdel_less:
  "gget m k \<noteq> None \<Longrightarrow> length (gdel k m) < length m"
proof (induction m)
  case Nil
  then show ?case by simp
next
  case (Cons p m)
  have "length (gdel k m) \<le> length m" by (rule length_delete_le)
  with Cons show ?case by (cases p) (auto split: if_splits)
qed

lemma length_gdel:
  "gwf m \<Longrightarrow> gget m k \<noteq> None \<Longrightarrow> Suc (length (gdel k m)) = length m"
proof (induction m)
  case Nil
  then show ?case by simp
next
  case (Cons p m)
  show ?case
  proof (cases "fst p = k")
    case True
    with Cons.prems have "k \<notin> set (gkeys m)" by auto
    with True show ?thesis by (cases p) (simp add: gdel_idem)
  next
    case False
    with Cons show ?thesis by (cases p) (auto split: if_splits)
  qed
qed

lemma gkeys_gput: "set (gkeys (gput k v m)) = insert k (set (gkeys m))"
  by (auto simp: update_keys)

lemma gkeys_gdel: "set (gkeys (gdel k m)) = set (gkeys m) - {k}"
  by (simp add: delete_keys)

lemma gmap_all_gput:
  "(\<forall>k' v'. gget m k' = Some v' \<longrightarrow> P k' v') \<Longrightarrow> P k v \<Longrightarrow>
   (\<forall>k' v'. gget (gput k v m) k' = Some v' \<longrightarrow> P k' v')"
  by auto

lemma gmap_all_gdel:
  "(\<forall>k' v'. gget m k' = Some v' \<longrightarrow> P k' v') \<Longrightarrow>
   (\<forall>k' v'. gget (gdel k m) k' = Some v' \<longrightarrow> P k' v')"
  by auto

lemma gmap_ball:
  "gwf m \<Longrightarrow> (\<forall>(k, v) \<in> set m. P k v) \<longleftrightarrow> (\<forall>k v. gget m k = Some v \<longrightarrow> P k v)"
  by auto

lemma gmap_ne_Nil: "m \<noteq> [] \<longleftrightarrow> (\<exists>k. gget m k \<noteq> None)"
  by (cases m) auto

lemma gmap_neE:
  assumes "m \<noteq> []"
  obtains k v where "gget m k = Some v"
proof -
  from assms obtain k v m' where "m = (k, v) # m'" by (cases m) auto
  then have "gget m k = Some v" by simp
  then show thesis by (rule that)
qed

lemma gdel_Nil: "gdel k m = [] \<Longrightarrow> k' \<noteq> k \<Longrightarrow> gget m k' = None"
  using gget_gdel [of k m k'] by simp

section \<open>Addresses\<close>

text \<open>
  \<open>netip.Addr\<close>: the zero value, an IPv4 address or an IPv6 address (an IPv4-mapped IPv6
  address is an IPv6 address until it is unmapped). \<open>addr_compare\<close> is \<open>Addr.Compare\<close>: first by
  bit length, then by value; it is the order of the type.
\<close>

datatype addr = NoAddr | Addr4 u32 | Addr6 "128 word"

fun bit_len :: "addr \<Rightarrow> nat" where
  "bit_len NoAddr = 0"
| "bit_len (Addr4 _) = 32"
| "bit_len (Addr6 _) = 128"

definition is_valid :: "addr \<Rightarrow> bool" where
  "is_valid a = (a \<noteq> NoAddr)"

fun is4 :: "addr \<Rightarrow> bool" where
  "is4 (Addr4 _) = True"
| "is4 _ = False"

fun is6 :: "addr \<Rightarrow> bool" where
  "is6 (Addr6 _) = True"
| "is6 _ = False"

fun unmap :: "addr \<Rightarrow> addr" where
  "unmap (Addr6 w) = (if drop_bit 32 w = 0xffff then Addr4 (ucast w) else Addr6 w)"
| "unmap a = a"

definition word_cmp :: "'a::len word \<Rightarrow> 'a word \<Rightarrow> int" where
  "word_cmp x y = (if x < y then - 1 else if y < x then 1 else 0)"

fun addr_compare :: "addr \<Rightarrow> addr \<Rightarrow> int" where
  "addr_compare (Addr4 x) (Addr4 y) = word_cmp x y"
| "addr_compare (Addr6 x) (Addr6 y) = word_cmp x y"
| "addr_compare a b = (if bit_len a < bit_len b then - 1 else if bit_len b < bit_len a then 1 else 0)"

fun as16 :: "addr \<Rightarrow> bytes" where
  "as16 NoAddr = replicate 16 0"
| "as16 (Addr4 w) = be_bytes 16 (push_bit 32 0xffff OR ucast w :: 128 word)"
| "as16 (Addr6 w) = be_bytes 16 w"

definition addr_from_slice :: "bytes \<Rightarrow> addr option" where
  "addr_from_slice bs =
     (if length bs = 4 then Some (Addr4 (be_word bs))
      else if length bs = 16 then Some (Addr6 (be_word bs))
      else None)"

text \<open>\<open>Addr.Next\<close>: the following address, or the zero value at the end of the address space.\<close>

fun addr_next :: "addr \<Rightarrow> addr" where
  "addr_next NoAddr = NoAddr"
| "addr_next (Addr4 w) = (if w + 1 = 0 then NoAddr else Addr4 (w + 1))"
| "addr_next (Addr6 w) = (if w + 1 = 0 then NoAddr else Addr6 (w + 1))"

instantiation addr :: linorder
begin

definition less_eq_addr :: "addr \<Rightarrow> addr \<Rightarrow> bool" where
  "less_eq_addr a b = (addr_compare a b \<le> 0)"

definition less_addr :: "addr \<Rightarrow> addr \<Rightarrow> bool" where
  "less_addr a b = (addr_compare a b < 0)"

instance
proof
  fix a b c :: addr
  show "(a < b) = (a \<le> b \<and> \<not> b \<le> a)"
    by (cases a; cases b) (auto simp: less_eq_addr_def less_addr_def word_cmp_def)
  show "a \<le> a"
    by (cases a) (auto simp: less_eq_addr_def word_cmp_def)
  show "a \<le> b \<Longrightarrow> b \<le> c \<Longrightarrow> a \<le> c"
    by (cases a; cases b; cases c)
      (auto simp: less_eq_addr_def word_cmp_def split: if_splits)
  show "a \<le> b \<Longrightarrow> b \<le> a \<Longrightarrow> a = b"
    by (cases a; cases b) (auto simp: less_eq_addr_def word_cmp_def split: if_splits)
  show "a \<le> b \<or> b \<le> a"
    by (cases a; cases b) (auto simp: less_eq_addr_def word_cmp_def)
qed

end

lemma addr_compare_pos: "0 < addr_compare a b \<longleftrightarrow> b < a"
  by (cases a; cases b) (auto simp: less_addr_def word_cmp_def)

lemma addr_compare_zero: "addr_compare a b = 0 \<longleftrightarrow> a = b"
  by (cases a; cases b) (auto simp: word_cmp_def)

lemma unmap_unmap [simp]: "unmap (unmap a) = unmap a"
  by (cases a) auto

lemma length_as16 [simp]: "length (as16 a) = 16"
  by (cases a) auto

lemma addr_from_slice_Some:
  "length bs = 4 \<or> length bs = 16 \<Longrightarrow> \<exists>a. addr_from_slice bs = Some a"
  by (auto simp: addr_from_slice_def)

text \<open>\<open>netip.Prefix\<close>: an address and a bit count, negative for the invalid prefix.\<close>

record prefix =
  pfx_addr :: addr
  pfx_bits :: int

definition prefix_valid :: "prefix \<Rightarrow> bool" where
  "prefix_valid p = (0 \<le> pfx_bits p)"

fun same_high_bits :: "nat \<Rightarrow> addr \<Rightarrow> addr \<Rightarrow> bool" where
  "same_high_bits n (Addr4 x) (Addr4 y) = (drop_bit (32 - n) (x XOR y) = 0)"
| "same_high_bits n (Addr6 x) (Addr6 y) = (drop_bit (128 - n) (x XOR y) = 0)"
| "same_high_bits n _ _ = False"

definition prefix_contains :: "prefix \<Rightarrow> addr \<Rightarrow> bool" where
  "prefix_contains p a = (prefix_valid p \<and> same_high_bits (nat (pfx_bits p)) (pfx_addr p) a)"

lemma prefix_contains_family:
  "prefix_contains p a \<Longrightarrow> bit_len (pfx_addr p) = bit_len a"
  by (cases "pfx_addr p"; cases a) (auto simp: prefix_contains_def)

section \<open>Reachable states\<close>

inductive reach :: "('s \<Rightarrow> bool) \<Rightarrow> ('s \<Rightarrow> 's \<Rightarrow> bool) \<Rightarrow> 's \<Rightarrow> bool"
  for start :: "'s \<Rightarrow> bool" and step :: "'s \<Rightarrow> 's \<Rightarrow> bool" where
  reach_start: "start s \<Longrightarrow> reach start step s"
| reach_step: "reach start step s \<Longrightarrow> step s t \<Longrightarrow> reach start step t"

locale invariant_system =
  fixes start :: "'s \<Rightarrow> bool" and step :: "'s \<Rightarrow> 's \<Rightarrow> bool" and inv :: "'s \<Rightarrow> bool"
  assumes inv_start: "start s \<Longrightarrow> inv s"
    and inv_step: "inv s \<Longrightarrow> step s t \<Longrightarrow> inv t"
begin

lemma reach_inv: "reach start step s \<Longrightarrow> inv s"
  by (induction rule: reach.induct) (auto intro: inv_start inv_step)

lemma steps_inv: "step\<^sup>*\<^sup>* s t \<Longrightarrow> inv s \<Longrightarrow> inv t"
  by (induction rule: rtranclp_induct) (auto intro: inv_step)

lemma reach_steps: "reach start step s \<Longrightarrow> step\<^sup>*\<^sup>* s t \<Longrightarrow> reach start step t"
  by (rotate_tac 1) (induction rule: rtranclp_induct, auto intro: reach_step)

end

end
