(* ===== verification/GoStrings.thy ===== *)
theory GoStrings
  imports Prelude
begin

text \<open>
  The operations of Go's packages \<open>strings\<close>, \<open>strconv\<close>, \<open>net\<close>, \<open>net/netip\<close> and \<open>net/url\<close> that the
  textual components use, on strings as lists of bytes (\<open>char\<close>).

  \<^item> \<open>ToLower\<close>, \<open>ToUpper\<close>, \<open>EqualFold\<close>, \<open>TrimSpace\<close> act on the ASCII letters and white space and leave
    every other byte alone: inputs are ASCII, as host names, numbers and protocol keywords are.
  \<^item> \<open>SplitHostPort\<close> and \<open>ParseAddr\<close> return the value or an error; \<open>url_Parse\<close> is \<open>url.Parse\<close>, \<open>None\<close>
    being a parse error; \<open>url_String\<close>, \<open>Hostname\<close> and \<open>Port\<close> are the methods of the result.
\<close>

section \<open>Characters\<close>

abbreviation code_of :: "char \<Rightarrow> int" where "code_of c \<equiv> of_char c"

definition is_digit :: "char \<Rightarrow> bool" where
  "is_digit c = (48 \<le> code_of c \<and> code_of c \<le> 57)"

definition is_upper :: "char \<Rightarrow> bool" where
  "is_upper c = (65 \<le> code_of c \<and> code_of c \<le> 90)"

definition is_lower :: "char \<Rightarrow> bool" where
  "is_lower c = (97 \<le> code_of c \<and> code_of c \<le> 122)"

definition is_space :: "char \<Rightarrow> bool" where
  "is_space c = (code_of c = 32 \<or> 9 \<le> code_of c \<and> code_of c \<le> 13)"

definition is_hex :: "char \<Rightarrow> bool" where
  "is_hex c = (is_digit c \<or> 97 \<le> code_of c \<and> code_of c \<le> 102 \<or> 65 \<le> code_of c \<and> code_of c \<le> 70)"

definition hex_val :: "char \<Rightarrow> int" where
  "hex_val c = (if is_digit c then code_of c - 48 else if is_lower c then code_of c - 87 else code_of c - 55)"

definition lower_char :: "char \<Rightarrow> char" where
  "lower_char c = (if is_upper c then char_of (code_of c + 32) else c)"

definition upper_char :: "char \<Rightarrow> char" where
  "upper_char c = (if is_lower c then char_of (code_of c - 32) else c)"

lemma lower_char_idem [simp]: "lower_char (lower_char c) = lower_char c"
  by (auto simp: lower_char_def is_upper_def of_char_of)

lemma is_space_lower_char [simp]: "is_space (lower_char c) = is_space c"
  by (auto simp: lower_char_def is_space_def is_upper_def of_char_of)

section \<open>Package strings\<close>

definition ToLower :: "string \<Rightarrow> string" where "ToLower s = map lower_char s"
definition ToUpper :: "string \<Rightarrow> string" where "ToUpper s = map upper_char s"

definition EqualFold :: "string \<Rightarrow> string \<Rightarrow> bool" where
  "EqualFold s t = (ToLower s = ToLower t)"

definition trim_by :: "(char \<Rightarrow> bool) \<Rightarrow> string \<Rightarrow> string" where
  "trim_by p s = rev (dropWhile p (rev (dropWhile p s)))"

definition TrimSpace :: "string \<Rightarrow> string" where "TrimSpace = trim_by is_space"

definition Trim :: "string \<Rightarrow> string \<Rightarrow> string" where "Trim s cutset = trim_by (\<lambda>c. c \<in> set cutset) s"

definition HasPrefix :: "string \<Rightarrow> string \<Rightarrow> bool" where
  "HasPrefix s t = (take (length t) s = t)"

definition HasSuffix :: "string \<Rightarrow> string \<Rightarrow> bool" where
  "HasSuffix s t = (length t \<le> length s \<and> drop (length s - length t) s = t)"

definition TrimSuffix :: "string \<Rightarrow> string \<Rightarrow> string" where
  "TrimSuffix s t = (if HasSuffix s t then take (length s - length t) s else s)"

definition TrimPrefix :: "string \<Rightarrow> string \<Rightarrow> string" where
  "TrimPrefix s t = (if HasPrefix s t then drop (length t) s else s)"

text \<open>\<open>Index\<close> of a byte and \<open>LastIndex\<close>, as positions; \<open>Cut\<close> at the first occurrence of a byte.\<close>

fun index_of :: "char \<Rightarrow> string \<Rightarrow> nat option" where
  "index_of c [] = None"
| "index_of c (x # xs) = (if x = c then Some 0 else map_option Suc (index_of c xs))"

definition last_index_of :: "char \<Rightarrow> string \<Rightarrow> nat option" where
  "last_index_of c s = map_option (\<lambda>i. length s - 1 - i) (index_of c (rev s))"

definition Cut :: "char \<Rightarrow> string \<Rightarrow> string \<times> string \<times> bool" where
  "Cut c s = (case index_of c s of None \<Rightarrow> (s, [], False) | Some i \<Rightarrow> (take i s, drop (Suc i) s, True))"

fun Split :: "char \<Rightarrow> string \<Rightarrow> string list" where
  "Split c [] = [[]]"
| "Split c (x # xs) =
     (if x = c then [] # Split c xs
      else (case Split c xs of [] \<Rightarrow> [[x]] | y # ys \<Rightarrow> (x # y) # ys))"

fun Join :: "string \<Rightarrow> string list \<Rightarrow> string" where
  "Join sep [] = []"
| "Join sep [x] = x"
| "Join sep (x # y # ys) = x @ sep @ Join sep (y # ys)"

lemma HasSuffix_iff: "HasSuffix s t \<longleftrightarrow> (\<exists>p. s = p @ t)"
  unfolding HasSuffix_def by (metis append_take_drop_id append_eq_conv_conj diff_add_inverse2 le_add2 length_append)

lemma HasPrefix_iff: "HasPrefix s t \<longleftrightarrow> (\<exists>p. s = t @ p)"
  unfolding HasPrefix_def by (metis append_take_drop_id append_eq_conv_conj)

lemma trim_by_ends:
  "trim_by p s = [] \<or> \<not> p (hd (trim_by p s)) \<and> \<not> p (last (trim_by p s))"
proof (cases "trim_by p s = []")
  case False
  let ?d = "dropWhile p s"
  have ne: "dropWhile p (rev ?d) \<noteq> []" using False by (simp add: trim_by_def)
  have "last (trim_by p s) = hd (dropWhile p (rev ?d))" by (simp add: trim_by_def last_rev)
  moreover have "\<not> p (hd (dropWhile p (rev ?d)))" using ne by (rule hd_dropWhile)
  moreover have "hd (trim_by p s) = hd ?d"
  proof -
    obtain pre where "rev ?d = pre @ dropWhile p (rev ?d)" by (metis takeWhile_dropWhile_id)
    then have "?d = trim_by p s @ rev pre" unfolding trim_by_def by (metis rev_append rev_rev_ident)
    then show ?thesis using False by (metis hd_append2)
  qed
  moreover have "?d \<noteq> []" using ne by (metis dropWhile.simps(1) rev.simps(1))
  ultimately show ?thesis using hd_dropWhile [of p s] by metis
qed simp

lemma trim_by_id: "s = [] \<or> \<not> p (hd s) \<and> \<not> p (last s) \<Longrightarrow> trim_by p s = s"
proof -
  assume h: "s = [] \<or> \<not> p (hd s) \<and> \<not> p (last s)"
  then have "dropWhile p s = s" by (cases s) auto
  moreover have "dropWhile p (rev s) = rev s" using h by (cases s rule: rev_cases) auto
  ultimately show "trim_by p s = s" by (simp add: trim_by_def)
qed

lemma trim_by_idem [simp]: "trim_by p (trim_by p s) = trim_by p s"
  using trim_by_ends by (rule trim_by_id)

lemma TrimSpace_idem [simp]: "TrimSpace (TrimSpace s) = TrimSpace s"
  by (simp add: TrimSpace_def)

lemma ToLower_idem [simp]: "ToLower (ToLower s) = ToLower s"
  by (simp add: ToLower_def)

lemma dropWhile_space_lower: "dropWhile is_space (map lower_char s) = map lower_char (dropWhile is_space s)"
  by (simp add: dropWhile_map comp_def)

lemma TrimSpace_ToLower: "TrimSpace (ToLower s) = ToLower (TrimSpace s)"
  by (simp add: TrimSpace_def ToLower_def trim_by_def dropWhile_space_lower rev_map)

lemma TrimSpace_Nil [simp]: "TrimSpace [] = []" by (simp add: TrimSpace_def trim_by_def)
lemma ToLower_Nil [simp]: "ToLower [] = []" by (simp add: ToLower_def)
lemma ToLower_eq_Nil [simp]: "ToLower s = [] \<longleftrightarrow> s = []" by (simp add: ToLower_def)

lemma index_of_None: "index_of c s = None \<longleftrightarrow> c \<notin> set s"
  by (induction s) auto

lemma index_of_Some: "index_of c s = Some i \<Longrightarrow> i < length s \<and> s ! i = c \<and> c \<notin> set (take i s)"
proof (induction s arbitrary: i)
  case (Cons x xs)
  then show ?case by (cases i) (auto split: if_splits)
qed simp

lemma last_index_of_None: "last_index_of c s = None \<longleftrightarrow> c \<notin> set s"
  by (simp add: last_index_of_def index_of_None)

section \<open>Package strconv\<close>

fun FormatUint :: "int \<Rightarrow> string" where
  "FormatUint n =
     (if n < 10 then [char_of (48 + n)] else FormatUint (n div 10) @ [char_of (48 + n mod 10)])"

declare FormatUint.simps [simp del]

definition digits_value :: "int \<Rightarrow> string \<Rightarrow> int" where
  "digits_value acc s = foldl (\<lambda>a c. a * 10 + (code_of c - 48)) acc s"

text \<open>\<open>ParseUint(s, 10, bits)\<close> and whether \<open>Atoi\<close> (64-bit) succeeds.\<close>

definition ParseUint :: "nat \<Rightarrow> string \<Rightarrow> int option" where
  "ParseUint bits s =
     (if s \<noteq> [] \<and> list_all is_digit s \<and> digits_value 0 s < 2 ^ bits then Some (digits_value 0 s) else None)"

definition Atoi_ok :: "string \<Rightarrow> bool" where
  "Atoi_ok s =
     (let neg = (s \<noteq> [] \<and> hd s = CHR ''-'');
          t = (if s \<noteq> [] \<and> (hd s = CHR ''+'' \<or> hd s = CHR ''-'') then tl s else s)
      in t \<noteq> [] \<and> list_all is_digit t \<and> (if neg then digits_value 0 t \<le> 2 ^ 63 else digits_value 0 t < 2 ^ 63))"

lemma code_of_digit [simp]: "0 \<le> d \<Longrightarrow> d < 10 \<Longrightarrow> code_of (char_of (48 + d)) = 48 + d"
  by (simp add: of_char_of)

lemma is_digit_char_of [simp]: "0 \<le> d \<Longrightarrow> d < 10 \<Longrightarrow> is_digit (char_of (48 + d :: int))"
  by (simp add: is_digit_def)

lemma is_digit_FormatUint: "0 \<le> n \<Longrightarrow> list_all is_digit (FormatUint n)"
proof (induction n rule: FormatUint.induct)
  case (1 n)
  then show ?case by (subst FormatUint.simps) simp
qed

lemma FormatUint_ne: "FormatUint n \<noteq> []"
  by (subst FormatUint.simps) simp

lemma digits_value_FormatUint: "0 \<le> n \<Longrightarrow> digits_value 0 (FormatUint n) = n"
proof (induction n rule: FormatUint.induct)
  case (1 n)
  show ?case
  proof (cases "n < 10")
    case True
    then show ?thesis using 1(2) by (subst FormatUint.simps) (simp add: digits_value_def)
  next
    case False
    then show ?thesis using 1 by (subst FormatUint.simps) (simp add: digits_value_def)
  qed
qed

lemma ParseUint_FormatUint: "0 \<le> n \<Longrightarrow> ParseUint bits (FormatUint n) = (if n < 2 ^ bits then Some n else None)"
  by (simp add: ParseUint_def FormatUint_ne is_digit_FormatUint digits_value_FormatUint)

section \<open>Package net: host and port\<close>

datatype addr_err = MissingPort | TooManyColons | MissingBracket | UnexpectedOpen | UnexpectedClose

definition SplitHostPort :: "string \<Rightarrow> addr_err + string \<times> string" where
  "SplitHostPort hostport =
     (case last_index_of CHR '':'' hostport of
        None \<Rightarrow> Inl MissingPort
      | Some i \<Rightarrow>
          (let finish = (\<lambda>host j k.
                 if CHR ''['' \<in> set (drop j hostport) then Inl UnexpectedOpen
                 else if CHR '']'' \<in> set (drop k hostport) then Inl UnexpectedClose
                 else Inr (host, drop (Suc i) hostport))
           in if hd hostport = CHR ''[''
              then (case index_of CHR '']'' hostport of
                      None \<Rightarrow> Inl MissingBracket
                    | Some e \<Rightarrow>
                        if e + 1 = length hostport then Inl MissingPort
                        else if e + 1 = i then finish (take (e - 1) (drop 1 hostport)) 1 (e + 1)
                        else if hostport ! (e + 1) = CHR '':'' then Inl TooManyColons
                        else Inl MissingPort)
              else if CHR '':'' \<in> set (take i hostport) then Inl TooManyColons
              else finish (take i hostport) 0 0))"

definition JoinHostPort :: "string \<Rightarrow> string \<Rightarrow> string" where
  "JoinHostPort host port =
     (if CHR '':'' \<in> set host then ''['' @ host @ '']:'' @ port else host @ '':'' @ port)"

lemma last_index_of_snoc: "c \<notin> set t \<Longrightarrow> last_index_of c (s @ c # t) = Some (length s)"
proof -
  assume "c \<notin> set t"
  then have "index_of c (rev t @ c # rev s) = Some (length t)"
  proof -
    assume a: "c \<notin> set t"
    have "c \<notin> set u \<Longrightarrow> index_of c (u @ c # v) = Some (length u)" for u v by (induction u) auto
    from this [of "rev t" "rev s"] a show ?thesis by simp
  qed
  then show ?thesis by (simp add: last_index_of_def)
qed

text \<open>Splitting inverts joining for every host and port free of the bytes that delimit them.\<close>

lemma SplitHostPort_JoinHostPort:
  assumes "CHR ''['' \<notin> set host" "CHR '']'' \<notin> set host"
    and "CHR '':'' \<notin> set port" "CHR ''['' \<notin> set port" "CHR '']'' \<notin> set port"
  shows "SplitHostPort (JoinHostPort host port) = Inr (host, port)"
proof (cases "CHR '':'' \<in> set host")
  case True
  have "last_index_of CHR '':'' ((''['' @ host @ '']'') @ CHR '':'' # port) = Some (length host + 2)"
    using last_index_of_snoc [OF assms(3), of "''['' @ host @ '']''"] by simp
  moreover have "index_of CHR '']'' (host @ CHR '']'' # CHR '':'' # port) = Some (length host)"
    using assms(2) by (induction host) auto
  ultimately show ?thesis using True assms by (simp add: JoinHostPort_def SplitHostPort_def)
next
  case False
  have "last_index_of CHR '':'' (host @ CHR '':'' # port) = Some (length host)"
    using last_index_of_snoc [OF assms(3)] by simp
  moreover have "hd (host @ CHR '':'' # port) \<noteq> CHR ''[''" using assms(1) by (cases host) auto
  ultimately show ?thesis using False assms by (simp add: JoinHostPort_def SplitHostPort_def)
qed

section \<open>Package netip: textual addresses\<close>

definition dec_octet :: "string \<Rightarrow> byte option" where
  "dec_octet s =
     (if s \<noteq> [] \<and> list_all is_digit s \<and> (length s = 1 \<or> hd s \<noteq> CHR ''0'') \<and> digits_value 0 s \<le> 255
      then Some (of_int (digits_value 0 s)) else None)"

definition parse_v4_fields :: "string \<Rightarrow> bytes option" where
  "parse_v4_fields s =
     (case map dec_octet (Split CHR ''.'' s) of
        [Some a, Some b, Some c, Some d] \<Rightarrow> Some [a, b, c, d]
      | _ \<Rightarrow> None)"

definition hex_group :: "string \<Rightarrow> bytes" where
  "hex_group ds = (let v = foldl (\<lambda>a c. a * 16 + hex_val c) 0 ds in [of_int (v div 256), of_int (v mod 256)])"

definition v6_finish :: "string \<Rightarrow> nat option \<Rightarrow> bytes \<Rightarrow> bytes option" where
  "v6_finish s ellipsis ip =
     (if s \<noteq> [] then None
      else if length ip < 16
      then (case ellipsis of None \<Rightarrow> None
            | Some k \<Rightarrow> Some (take k ip @ replicate (16 - length ip) 0 @ drop k ip))
      else if ellipsis \<noteq> None then None else Some ip)"

text \<open>The loop over the colon-separated groups; the first argument counts the groups still allowed.\<close>

fun v6_groups :: "nat \<Rightarrow> string \<Rightarrow> nat option \<Rightarrow> bytes \<Rightarrow> bytes option" where
  "v6_groups 0 s ellipsis ip = v6_finish s ellipsis ip"
| "v6_groups (Suc n) s ellipsis ip =
     (let ds = takeWhile is_hex s; rest = drop (length ds) s; ip' = ip @ hex_group ds
      in if ds = [] \<or> 4 < length ds then None
         else if rest \<noteq> [] \<and> hd rest = CHR ''.''
         then (if ellipsis = None \<and> length ip \<noteq> 12 then None
               else if 16 < length ip + 4 then None
               else (case parse_v4_fields s of None \<Rightarrow> None | Some v4 \<Rightarrow> v6_finish [] ellipsis (ip @ v4)))
         else if rest = [] then v6_finish [] ellipsis ip'
         else if hd rest \<noteq> CHR '':'' \<or> tl rest = [] then None
         else if hd (tl rest) = CHR '':''
         then (if ellipsis \<noteq> None then None
               else if tl (tl rest) = [] then v6_finish [] (Some (length ip')) ip'
               else v6_groups n (tl (tl rest)) (Some (length ip')) ip')
         else v6_groups n (tl rest) ellipsis ip')"

definition parse_v6 :: "string \<Rightarrow> (addr \<times> string) option" where
  "parse_v6 text =
     (let (s, zone, hasZone) = Cut CHR ''%'' text
      in if hasZone \<and> zone = [] then None
         else if HasPrefix s ''::''
         then (if drop 2 s = [] then Some (Addr6 0, zone)
               else map_option (\<lambda>b. (Addr6 (be_word b), zone)) (v6_groups 8 (drop 2 s) (Some 0) []))
         else map_option (\<lambda>b. (Addr6 (be_word b), zone)) (v6_groups 8 s None []))"

text \<open>\<open>netip.ParseAddr\<close> decides by the first of the bytes \<open>.\<close>, \<open>:\<close> and \<open>%\<close>; the result carries the zone.\<close>

definition ParseAddr :: "string \<Rightarrow> (addr \<times> string) option" where
  "ParseAddr s =
     (case dropWhile (\<lambda>c. c \<noteq> CHR ''.'' \<and> c \<noteq> CHR '':'' \<and> c \<noteq> CHR ''%'') s of
        [] \<Rightarrow> None
      | c # _ \<Rightarrow>
          if c = CHR ''.'' then map_option (\<lambda>b. (Addr4 (be_word b), [])) (parse_v4_fields s)
          else if c = CHR '':'' then parse_v6 s
          else None)"

definition ParseIP :: "string \<Rightarrow> addr option" where
  "ParseIP s = (case ParseAddr s of None \<Rightarrow> None | Some (a, zone) \<Rightarrow> if zone = [] then Some a else None)"

text \<open>\<open>IP.IsLoopback\<close>: 127.0.0.0/8, also when mapped into IPv6, or \<open>::1\<close>.\<close>

definition IsLoopback :: "addr \<Rightarrow> bool" where
  "IsLoopback a = (case unmap a of NoAddr \<Rightarrow> False | Addr4 w \<Rightarrow> drop_bit 24 w = 127 | Addr6 w \<Rightarrow> w = 1)"

lemma parse_addr_examples:
  "ParseIP ''127.0.0.1'' = Some (Addr4 0x7F000001)" "ParseIP ''::1'' = Some (Addr6 1)"
  "ParseIP ''127.0.0.01'' = None" "ParseIP ''1.2.3'' = None" "ParseIP ''1::2::3'' = None"
  "ParseIP ''fe80::1%eth0'' = None" "ParseIP ''localhost'' = None"
  by code_simp+

section \<open>Package url: the host of a URL\<close>

definition is_letter :: "char \<Rightarrow> bool" where "is_letter c = (is_upper c \<or> is_lower c)"

definition is_alnum :: "char \<Rightarrow> bool" where "is_alnum c = (is_letter c \<or> is_digit c)"

definition has_ctl :: "string \<Rightarrow> bool" where
  "has_ctl s = list_ex (\<lambda>c. code_of c < 32 \<or> code_of c = 127) s"

text \<open>\<open>getScheme\<close>: \<open>None\<close> is the missing-scheme error, an empty scheme means there is none.\<close>

definition scheme_char :: "char \<Rightarrow> bool" where
  "scheme_char c = (is_alnum c \<or> c \<in> set ''+-.'')"

definition getScheme :: "string \<Rightarrow> (string \<times> string) option" where
  "getScheme s =
     (let sc = takeWhile scheme_char s; rest = drop (length sc) s
      in if sc \<noteq> [] \<and> \<not> is_letter (hd sc) then Some ([], s)
         else if rest \<noteq> [] \<and> hd rest = CHR '':'' then (if sc = [] then None else Some (sc, tl rest))
         else Some ([], s))"

definition validOptionalPort :: "string \<Rightarrow> bool" where
  "validOptionalPort port = (port = [] \<or> hd port = CHR '':'' \<and> list_all is_digit (tl port))"

definition validUserinfo :: "string \<Rightarrow> bool" where
  "validUserinfo s = list_all (\<lambda>c. is_alnum c \<or> c \<in> set ''-._:~!$&'()*+,;=%@'') s"

text \<open>Escapes: \<open>pct_ok\<close> is what the path, fragment and user modes of \<open>unescape\<close> reject; the two functions
  after it are its host and zone modes.\<close>

fun pct_ok :: "string \<Rightarrow> bool" where
  "pct_ok [] = True"
| "pct_ok (c # cs) =
     (if c = CHR ''%'' then 2 \<le> length cs \<and> is_hex (cs ! 0) \<and> is_hex (cs ! 1) \<and> pct_ok (drop 2 cs)
      else pct_ok cs)"

definition host_char :: "char \<Rightarrow> bool" where
  "host_char c = (128 \<le> code_of c \<or> is_alnum c \<or> c \<in> set ''!$&'()*+,;=:[]<>\"-_.~'')"

definition hex_byte :: "char \<Rightarrow> char \<Rightarrow> char" where
  "hex_byte a b = char_of (hex_val a * 16 + hex_val b)"

fun unescape_host :: "bool \<Rightarrow> string \<Rightarrow> string option" where
  "unescape_host zone [] = Some []"
| "unescape_host zone (c # cs) =
     (if c = CHR ''%''
      then (if length cs < 2 \<or> \<not> is_hex (cs ! 0) \<or> \<not> is_hex (cs ! 1) then None
            else let v = hex_byte (cs ! 0) (cs ! 1) in
              if \<not> zone \<and> hex_val (cs ! 0) < 8 \<and> take 2 cs \<noteq> ''25'' then None
              else if zone \<and> take 2 cs \<noteq> ''25'' \<and> v \<noteq> CHR '' '' \<and> \<not> (host_char v \<and> code_of v < 128) then None
              else map_option ((#) v) (unescape_host zone (drop 2 cs)))
      else if \<not> host_char c then None
      else map_option ((#) c) (unescape_host zone cs))"

fun find_sub :: "string \<Rightarrow> string \<Rightarrow> nat option" where
  "find_sub t [] = (if t = [] then Some 0 else None)"
| "find_sub t (c # cs) = (if HasPrefix (c # cs) t then Some 0 else map_option Suc (find_sub t cs))"

definition parse_host :: "string \<Rightarrow> string option" where
  "parse_host host =
     (case last_index_of CHR ''['' host of
        Some j \<Rightarrow>
          (case last_index_of CHR '']'' host of
             None \<Rightarrow> None
           | Some k \<Rightarrow>
               if \<not> validOptionalPort (drop (k + 1) host) then None
               else do {
                 colonPort \<leftarrow> unescape_host False (drop (k + 1) host);
                 let hostname = take (k - (j + 1)) (drop (j + 1) host);
                 name \<leftarrow> (case find_sub ''%25'' hostname of
                            None \<Rightarrow> unescape_host False hostname
                          | Some z \<Rightarrow> do {
                              a \<leftarrow> unescape_host False (take z hostname);
                              b \<leftarrow> unescape_host True (drop z hostname);
                              Some (a @ b) });
                 (ip, zone) \<leftarrow> ParseAddr name;
                 if is4 ip then None else Some (''['' @ name @ '']'' @ colonPort)
               })
      | None \<Rightarrow>
          (case last_index_of CHR '':'' host of
             None \<Rightarrow> unescape_host False host
           | Some i \<Rightarrow> if validOptionalPort (drop i host) then unescape_host False host else None))"

text \<open>Printing: \<open>shouldEscape\<close>, \<open>escape\<close> and \<open>validEncoded\<close> in the modes for paths, users, hosts and
  fragments.\<close>

datatype encoding = EncPath | EncUser | EncHost | EncFragment

definition shouldEscape :: "encoding \<Rightarrow> char \<Rightarrow> bool" where
  "shouldEscape mode c =
     (if is_alnum c then False
      else if mode = EncHost \<and> c \<in> set ''!$&'()*+,;=:[]<>\"'' then False
      else if c \<in> set ''-_.~'' then False
      else if c \<in> set ''$&+,/:;=?@'' \<and> mode = EncPath then c = CHR ''?''
      else if c \<in> set ''$&+,/:;=?@'' \<and> mode = EncUser then c \<in> set ''@/?:''
      else if c \<in> set ''$&+,/:;=?@'' \<and> mode = EncFragment then False
      else \<not> (mode = EncFragment \<and> c \<in> set ''!()*''))"

definition hex_digit :: "int \<Rightarrow> char" where
  "hex_digit n = (if n < 10 then char_of (48 + n) else char_of (55 + n))"

definition escape_char :: "encoding \<Rightarrow> char \<Rightarrow> string" where
  "escape_char mode c =
     (if shouldEscape mode c then [CHR ''%'', hex_digit (code_of c div 16), hex_digit (code_of c mod 16)] else [c])"

definition url_escape :: "encoding \<Rightarrow> string \<Rightarrow> string" where
  "url_escape mode s = concat (map (escape_char mode) s)"

fun unescape_plain :: "string \<Rightarrow> string" where
  "unescape_plain [] = []"
| "unescape_plain (c # cs) =
     (if c = CHR ''%'' then hex_byte (cs ! 0) (cs ! 1) # unescape_plain (drop 2 cs) else c # unescape_plain cs)"

definition validEncoded :: "encoding \<Rightarrow> string \<Rightarrow> bool" where
  "validEncoded mode s = list_all (\<lambda>c. c \<in> set ''!$&'()*+,;=:@[]%'' \<or> \<not> shouldEscape mode c) s"

text \<open>The text that \<open>EscapedPath\<close> and \<open>EscapedFragment\<close> return for a part read from a URL.\<close>

definition reprint :: "encoding \<Rightarrow> string \<Rightarrow> string" where
  "reprint mode s = (if validEncoded mode s then s else url_escape mode (unescape_plain s))"

definition reprint_user :: "string \<Rightarrow> string" where
  "reprint_user userinfo =
     (let (name, pw, hasPw) = Cut CHR '':'' userinfo; e = (\<lambda>s. url_escape EncUser (unescape_plain s))
      in if hasPw then e name @ '':'' @ e pw else e name)"

definition parse_authority :: "string \<Rightarrow> (string option \<times> string) option" where
  "parse_authority authority =
     (case last_index_of CHR ''@'' authority of
        None \<Rightarrow> map_option (Pair None) (parse_host authority)
      | Some i \<Rightarrow> do {
          host \<leftarrow> parse_host (drop (i + 1) authority);
          let userinfo = take i authority;
          if validUserinfo userinfo \<and> pct_ok userinfo then Some (Some (reprint_user userinfo), host) else None
        })"

definition strip_port :: "string \<Rightarrow> string" where
  "strip_port host =
     (let h = (case last_index_of CHR '':'' host of
                 None \<Rightarrow> host
               | Some i \<Rightarrow> if validOptionalPort (drop i host) then take i host else host)
      in if HasPrefix h ''['' \<and> HasSuffix h '']'' then butlast (tl h) else h)"

definition span_path :: "string \<Rightarrow> string \<times> string" where
  "span_path s = (takeWhile (\<lambda>c. c \<noteq> CHR ''/'') s, dropWhile (\<lambda>c. c \<noteq> CHR ''/'') s)"

text \<open>
  A parsed URL. User, path and fragment are kept in the form in which they are printed: \<open>User\<close> is the
  text of \<open>Userinfo.String\<close>, \<open>Path\<close> that of \<open>EscapedPath\<close>, \<open>Fragment\<close> that of \<open>EscapedFragment\<close>.
\<close>

record url =
  Scheme :: string
  Opaque :: string
  User :: "string option"
  Host :: string
  OmitHost :: bool
  Path :: string
  ForceQuery :: bool
  RawQuery :: string
  Fragment :: string

definition url0 :: url where
  "url0 = \<lparr> Scheme = [], Opaque = [], User = None, Host = [], OmitHost = False, Path = [],
     ForceQuery = False, RawQuery = [], Fragment = [] \<rparr>"

definition url_path :: "url \<Rightarrow> string \<Rightarrow> url option" where
  "url_path u p = (if pct_ok p then Some (u\<lparr> Path := reprint EncPath p \<rparr>) else None)"

definition url_parse :: "bool \<Rightarrow> string \<Rightarrow> url option" where
  "url_parse viaRequest raw =
     (if has_ctl raw then None
      else if raw = [] \<and> viaRequest then None
      else if raw = ''*'' then Some (url0\<lparr> Path := ''*'' \<rparr>)
      else do {
        (sch, rest) \<leftarrow> getScheme raw;
        let force = (HasSuffix rest ''?'' \<and> CHR ''?'' \<notin> set (butlast rest));
        let (rest, query, _) = Cut CHR ''?'' rest;
        let u = url0\<lparr> Scheme := ToLower sch, ForceQuery := force, RawQuery := query \<rparr>;
        if \<not> HasPrefix rest ''/'' \<and> sch \<noteq> [] then Some (u\<lparr> Opaque := rest \<rparr>)
        else if \<not> HasPrefix rest ''/'' \<and> viaRequest then None
        else if \<not> HasPrefix rest ''/'' \<and> CHR '':'' \<in> set (fst (Cut CHR ''/'' rest)) then None
        else if (sch \<noteq> [] \<or> \<not> viaRequest \<and> \<not> HasPrefix rest ''///'') \<and> HasPrefix rest ''//''
        then (let (authority, path) = span_path (drop 2 rest)
              in do { (user, host) \<leftarrow> parse_authority authority;
                      url_path (u\<lparr> User := user, Host := host \<rparr>) path })
        else url_path (u\<lparr> OmitHost := (sch \<noteq> [] \<and> HasPrefix rest ''/'') \<rparr>) rest
      })"

definition url_Parse :: "string \<Rightarrow> url option" where
  "url_Parse raw =
     (let (u, frag, _) = Cut CHR ''#'' raw
      in do {
        r \<leftarrow> url_parse False u;
        if pct_ok frag then Some (r\<lparr> Fragment := reprint EncFragment frag \<rparr>) else None
      })"

definition ParseRequestURI :: "string \<Rightarrow> url option" where
  "ParseRequestURI raw = url_parse True raw"

definition url_String :: "url \<Rightarrow> string" where
  "url_String u =
     (let sch = (if Scheme u \<noteq> [] then Scheme u @ '':'' else []);
          auth = (if Scheme u \<noteq> [] \<or> Host u \<noteq> [] \<or> User u \<noteq> None
                  then (if OmitHost u \<and> Host u = [] \<and> User u = None then []
                        else (if Host u \<noteq> [] \<or> Path u \<noteq> [] \<or> User u \<noteq> None then ''//'' else []) @
                             (case User u of None \<Rightarrow> [] | Some x \<Rightarrow> x @ ''@'') @ url_escape EncHost (Host u))
                  else []);
          slash = (if Path u \<noteq> [] \<and> hd (Path u) \<noteq> CHR ''/'' \<and> Host u \<noteq> [] then ''/'' else []);
          dot = (if sch @ auth @ slash = [] \<and> CHR '':'' \<in> set (fst (Cut CHR ''/'' (Path u))) then ''./'' else []);
          query = (if ForceQuery u \<or> RawQuery u \<noteq> [] then ''?'' @ RawQuery u else []);
          frag = (if Fragment u \<noteq> [] then ''#'' @ Fragment u else [])
      in sch @ (if Opaque u \<noteq> [] then Opaque u else auth @ slash @ dot @ Path u) @ query @ frag)"

definition Hostname :: "url \<Rightarrow> string" where
  "Hostname u = strip_port (Host u)"

definition Port :: "url \<Rightarrow> string" where
  "Port u =
     (case last_index_of CHR '':'' (Host u) of
        None \<Rightarrow> []
      | Some i \<Rightarrow> if validOptionalPort (drop i (Host u)) then drop (i + 1) (Host u) else [])"

definition url_hostname :: "string \<Rightarrow> string option" where
  "url_hostname raw = map_option Hostname (url_Parse raw)"

lemma url_hostname_examples:
  "url_hostname ''rel://abc.onion:443/x'' = Some ''abc.onion''"
  "url_hostname ''https://user:pw@Example.COM?q=1#f'' = Some ''Example.COM''"
  "url_hostname ''abc.onion'' = Some []" "url_hostname ''abc.onion:443'' = Some []"
  "url_hostname ''http://[::1]:80/'' = Some ''::1''" "url_hostname ''http://a b/'' = None"
  "url_hostname ''127.0.0.1:80'' = None" "url_hostname ''http://[1.2.3.4]/'' = None"
  by code_simp+

lemma url_String_examples:
  "map_option url_String (url_Parse ''HTTPS://u:p@h.onion:1/a%20b?q#f'') = Some ''https://u:p@h.onion:1/a%20b?q#f''"
  "map_option url_String (url_Parse ''http://h/a b'') = Some ''http://h/a%20b''"
  "map_option url_String (url_Parse ''mailto:x@y'') = Some ''mailto:x@y''"
  "ParseRequestURI ''h.onion/x'' = None"
  by code_simp+

section \<open>Splitting and joining\<close>

lemma Split_append: "c \<notin> set x \<Longrightarrow> Split c (x @ c # s) = x # Split c s"
  by (induction x) auto

lemma Split_none: "c \<notin> set x \<Longrightarrow> Split c x = [x]"
  by (induction x) auto

lemma Split_Join: "list_all (\<lambda>x. c \<notin> set x) xs \<Longrightarrow> xs \<noteq> [] \<Longrightarrow> Split c (Join [c] xs) = xs"
  by (induction "[c]" xs rule: Join.induct) (auto simp: Split_append Split_none)

end
