(* ===== verification/FirewallTypes.thy ===== *)
theory FirewallTypes
  imports GoStrings
begin

text \<open>
  The vocabulary of the firewall managers, \<open>client/firewall/manager\<close> and
  \<open>client/internal/acl/id\<close>: actions, protocols, ports, destination networks, the orders on prefixes
  and the key of a route rule. \<open>addr_String\<close> and \<open>prefix_String\<close> are the \<open>String\<close> methods of
  \<open>net/netip\<close>. The digest behind the rule keys (\<open>sha256\<close>, in hexadecimal) is a parameter.
\<close>

section \<open>Printing addresses\<close>

definition v4_String :: "u32 \<Rightarrow> string" where
  "v4_String w = Join ''.'' (map (\<lambda>b. FormatUint (uint b)) (be_bytes 4 w))"

fun FormatHex :: "int \<Rightarrow> string" where
  "FormatHex n =
     (let digit = (\<lambda>d. if d < 10 then char_of (48 + d) else char_of (87 + d))
      in if n < 16 then [digit n] else FormatHex (n div 16) @ [digit (n mod 16)])"

declare FormatHex.simps [simp del]

definition v6_groups_of :: "128 word \<Rightarrow> u16 list" where
  "v6_groups_of w = map (\<lambda>i. ucast (drop_bit (112 - 16 * i) w)) [0..<8]"

definition zero_run :: "u16 list \<Rightarrow> nat" where
  "zero_run gs = length (takeWhile (\<lambda>g. g = 0) gs)"

text \<open>The longest run of at least two zero groups, the first of the longest, as start and end.\<close>

definition run_step :: "u16 list \<Rightarrow> (nat \<times> nat) option \<Rightarrow> nat \<Rightarrow> (nat \<times> nat) option" where
  "run_step gs best i =
     (let l = zero_run (drop i gs)
      in if 2 \<le> l \<and> (case best of None \<Rightarrow> True | Some (s, e) \<Rightarrow> e - s < l) then Some (i, i + l) else best)"

definition longest_run :: "u16 list \<Rightarrow> (nat \<times> nat) option" where
  "longest_run gs = foldl (run_step gs) None [0..<8]"

definition v6_String :: "128 word \<Rightarrow> string" where
  "v6_String w =
     (let gs = v6_groups_of w; hex = map (\<lambda>g. FormatHex (uint g))
      in case longest_run gs of
           None \<Rightarrow> Join '':'' (hex gs)
         | Some (s, e) \<Rightarrow> Join '':'' (hex (take s gs)) @ ''::'' @ Join '':'' (hex (drop e gs)))"

fun addr_String :: "addr \<Rightarrow> string" where
  "addr_String NoAddr = ''invalid IP''"
| "addr_String (Addr4 w) = v4_String w"
| "addr_String (Addr6 w) =
     (if drop_bit 32 w = 0xffff then ''::ffff:'' @ v4_String (ucast w) else v6_String w)"

definition prefix_String :: "prefix \<Rightarrow> string" where
  "prefix_String p =
     (if \<not> prefix_valid p then ''invalid Prefix''
      else addr_String (pfx_addr p) @ ''/'' @ FormatUint (pfx_bits p))"

section \<open>Actions, protocols, ports\<close>

text \<open>An action is an integer in the code; \<open>OtherAction\<close> is every value without a name.\<close>

datatype Action = ActionAccept | ActionDrop | OtherAction int

fun action_int :: "Action \<Rightarrow> int" where
  "action_int ActionAccept = 0"
| "action_int ActionDrop = 1"
| "action_int (OtherAction n) = n"

type_synonym Protocol = string

definition ProtocolTCP :: Protocol where "ProtocolTCP = ''tcp''"
definition ProtocolUDP :: Protocol where "ProtocolUDP = ''udp''"
definition ProtocolICMP :: Protocol where "ProtocolICMP = ''icmp''"
definition ProtocolALL :: Protocol where "ProtocolALL = ''all''"

record FwPort =
  IsRange :: bool
  Values :: "u16 list"

datatype fw_err = NoPort | InvalidPort int | InvalidIP | RuleNotFound | NoRuleForSet | NotSupported | NativeErr string
  | UnsupportedProtocol string | InvalidOriginal | InvalidTranslated | MapToLocal addr | MappingNotFound addr
  | WrongFamily | BadHeaderLen | UnknownIPLayer | PacketTooShort | ForwarderErr string | WrongRuleType

definition NewPort :: "int list \<Rightarrow> fw_err + FwPort" where
  "NewPort ports =
     (if ports = [] then Inl NoPort
      else case find (\<lambda>p. p < 1 \<or> p > 65535) ports of
             Some p \<Rightarrow> Inl (InvalidPort p)
           | None \<Rightarrow> Inr \<lparr> IsRange = (length ports > 1), Values = map word_of_int ports \<rparr>)"

definition Port_String :: "FwPort \<Rightarrow> string" where
  "Port_String p =
     (let ports = Join '','' (map (\<lambda>v. FormatUint (uint v)) (Values p))
      in if IsRange p then ''range:'' @ ports else ports)"

section \<open>Destinations\<close>

record fwset =
  set_hash :: bytes
  set_comment :: string

definition zero_set :: fwset where "zero_set = \<lparr> set_hash = [0, 0, 0, 0], set_comment = [] \<rparr>"

definition hex_byte_String :: "byte \<Rightarrow> string" where
  "hex_byte_String b = FormatHex (uint b div 16) @ FormatHex (uint b mod 16)"

definition HashedName :: "fwset \<Rightarrow> string" where
  "HashedName h = ''nb-'' @ concat (map hex_byte_String (set_hash h))"

record Network =
  net_Set :: fwset
  net_Prefix :: prefix

definition IsSet :: "Network \<Rightarrow> bool" where "IsSet d = (net_Set d \<noteq> zero_set)"

definition IsPrefix :: "Network \<Rightarrow> bool" where "IsPrefix d = prefix_valid (net_Prefix d)"

definition Network_String :: "Network \<Rightarrow> string" where
  "Network_String d =
     (if prefix_valid (net_Prefix d) then prefix_String (net_Prefix d)
      else if IsSet d then HashedName (net_Set d)
      else ''<invalid network>'')"

section \<open>Orders on prefixes\<close>

definition prefix_less :: "prefix \<Rightarrow> prefix \<Rightarrow> bool" where
  "prefix_less p q =
     (let c = addr_compare (pfx_addr p) (pfx_addr q)
      in if c \<noteq> 0 then c < 0 else pfx_bits p > pfx_bits q)"

text \<open>Any correct comparison sort gives this list: prefixes that compare equal are equal.\<close>

fun insert_by :: "('a \<Rightarrow> 'a \<Rightarrow> bool) \<Rightarrow> 'a \<Rightarrow> 'a list \<Rightarrow> 'a list" where
  "insert_by lt x [] = [x]"
| "insert_by lt x (y # ys) = (if lt y x then y # insert_by lt x ys else x # y # ys)"

definition sort_by :: "('a \<Rightarrow> 'a \<Rightarrow> bool) \<Rightarrow> 'a list \<Rightarrow> 'a list" where
  "sort_by lt xs = foldr (insert_by lt) xs []"

definition SortPrefixes :: "prefix list \<Rightarrow> prefix list" where
  "SortPrefixes ps = sort_by prefix_less ps"

fun MergeIPRanges_loop :: "prefix list \<Rightarrow> prefix \<Rightarrow> prefix list \<Rightarrow> prefix list" where
  "MergeIPRanges_loop merged lst [] = merged @ [lst]"
| "MergeIPRanges_loop merged lst (p # ps) =
     (if prefix_contains lst (pfx_addr p) then MergeIPRanges_loop merged lst ps
      else if prefix_contains p (pfx_addr lst) then MergeIPRanges_loop merged p ps
      else MergeIPRanges_loop (merged @ [lst]) p ps)"

fun MergeIPRanges :: "prefix list \<Rightarrow> prefix list" where
  "MergeIPRanges [] = []"
| "MergeIPRanges (p # ps) = MergeIPRanges_loop [] p ps"

section \<open>Rule keys\<close>

definition port_text :: "FwPort option \<Rightarrow> string" where
  "port_text p = (case p of Some p \<Rightarrow> Port_String p | None \<Rightarrow> ''<nil>'')"

definition Itoa :: "int \<Rightarrow> string" where
  "Itoa n = (if n < 0 then ''-'' @ FormatUint (- n) else FormatUint n)"

text \<open>The key and, since the code sorts the caller's slice in place, the sorted sources.\<close>

definition GenerateRouteRuleKey ::
    "(string \<Rightarrow> string) \<Rightarrow> prefix list \<Rightarrow> Network \<Rightarrow> Protocol \<Rightarrow> FwPort option \<Rightarrow> FwPort option \<Rightarrow> Action \<Rightarrow>
     string \<times> prefix list" where
  "GenerateRouteRuleKey sha256hex sources destination proto sPort dPort action =
     (let sources = SortPrefixes sources;
          text = ''sources:'' @ concat (map (\<lambda>src. prefix_String src @ '','') sources) @
                 ''destination:'' @ Network_String destination @ ''proto:'' @ proto @
                 ''sPort:'' @ port_text sPort @ ''dPort:'' @ port_text dPort @
                 ''action:'' @ Itoa (action_int action)
      in (Network_String destination @ ''-'' @ take 16 (sha256hex text), sources))"


section \<open>Facts\<close>

lemma v6_String_examples:
  "addr_String (Addr6 0) = ''::''" "addr_String (Addr6 1) = ''::1''"
  "addr_String (Addr6 0x20010db8000000000000000000000001) = ''2001:db8::1''"
  "addr_String (Addr6 0x00010000000200000000000300000004) = ''1:0:2::3:0:4''"
  "addr_String (Addr4 0x0A000001) = ''10.0.0.1''"
  by code_simp+

lemma Split_ne [simp]: "Split c s \<noteq> []"
  by (induction s) (auto split: list.splits)

lemma FormatUint_dotless: "0 \<le> n \<Longrightarrow> CHR ''.'' \<notin> set (FormatUint n)"
  using is_digit_FormatUint [of n] by (auto simp: list_all_iff is_digit_def)

lemma FormatUint_zero: assumes "0 \<le> n" shows "FormatUint n = ''0'' \<longleftrightarrow> n = 0"
proof -
  have "FormatUint 0 = ''0''" by code_simp
  moreover have "digits_value 0 ''0'' = 0" by code_simp
  ultimately show ?thesis using digits_value_FormatUint [OF assms] by auto
qed

lemma be_bytes_4: "be_bytes 4 w = [ucast (drop_bit 24 w), ucast (drop_bit 16 w), ucast (drop_bit 8 w), ucast w]"
  by (simp add: be_bytes_def upt_conv_Cons)

lemma v4_String_zero: "v4_String w = ''0.0.0.0'' \<longleftrightarrow> w = 0"
proof
  assume "v4_String w = ''0.0.0.0''"
  then have "Split CHR ''.'' (v4_String w) = [''0'', ''0'', ''0'', ''0'']" by simp
  moreover have "Split CHR ''.'' (v4_String w) = map (\<lambda>b. FormatUint (uint b)) (be_bytes 4 w)"
    unfolding v4_String_def by (rule Split_Join) (auto simp: list_all_iff FormatUint_dotless be_bytes_def)
  ultimately have z: "ucast (drop_bit k w) = (0::byte)" if "k \<in> {0, 8, 16, 24}" for k
    using that by (auto simp: be_bytes_4 FormatUint_zero unsigned_eq_0_iff)
  show "w = 0"
  proof (rule bit_word_eqI)
    fix n assume "n < LENGTH(32)"
    moreover have "bit w n = bit (ucast (drop_bit (n - n mod 8) w) :: byte) (n mod 8)"
      by (simp add: bit_simps)
    moreover have "n - n mod 8 \<in> {0, 8, 16, 24}" using \<open>n < LENGTH(32)\<close> by (simp, presburger)
    ultimately show "bit w n = bit 0 n" using z by simp
  qed
next
  have "v4_String 0 = ''0.0.0.0''" by code_simp
  then show "w = 0 \<Longrightarrow> v4_String w = ''0.0.0.0''" by simp
qed


lemma FormatHex_head: "0 \<le> n \<Longrightarrow> FormatHex n \<noteq> [] \<and> hd (FormatHex n) \<noteq> CHR '':''"
proof (induction n rule: FormatHex.induct)
  case (1 n)
  have "char_of n \<noteq> CHR '':''" if "0 \<le> n" "n < 256" "n \<noteq> (58 :: int)" for n
    using that by (auto dest!: arg_cong [where f = "of_char :: char \<Rightarrow> int"] simp: of_char_of)
  then show ?case using 1 by (subst (1 2) FormatHex.simps) (auto simp: Let_def)
qed

lemma Join_head:
  "xs \<noteq> [] \<Longrightarrow> hd xs \<noteq> [] \<Longrightarrow> Join sep xs \<noteq> [] \<and> hd (Join sep xs) = hd (hd xs)"
  by (induction sep xs rule: Join.induct) auto

lemma Join_sep: "2 \<le> length xs \<Longrightarrow> set sep \<subseteq> set (Join sep xs)"
  by (induction sep xs rule: Join.induct) auto

lemma hex_Join:
  assumes "gs \<noteq> []"
  shows "Join '':'' (map (\<lambda>g. FormatHex (uint (g::u16))) gs) \<noteq> [] \<and>
    hd (Join '':'' (map (\<lambda>g. FormatHex (uint g)) gs)) \<noteq> CHR '':''"
proof -
  have "FormatHex (uint (hd gs)) \<noteq> [] \<and> hd (FormatHex (uint (hd gs))) \<noteq> CHR '':''" by (rule FormatHex_head) simp
  then show ?thesis
    using assms Join_head [of "map (\<lambda>g. FormatHex (uint g)) gs" "'':''"] by (simp add: hd_map)
qed

lemma longest_run_zero:
  assumes "longest_run gs = Some (s, e)"
  shows "s \<le> e \<and> e \<le> length gs \<and> (\<forall>i\<in>{s..<e}. gs ! i = 0)"
proof -
  let ?P = "\<lambda>(s, e). s \<le> e \<and> e \<le> length gs \<and> (\<forall>i\<in>{s..<e}. gs ! i = 0)"
  have z: "?P (i, i + zero_run (drop i gs))" if "0 < zero_run (drop i gs)" for i
  proof -
    let ?t = "takeWhile (\<lambda>g. g = 0) (drop i gs)"
    have len: "length ?t \<le> length gs - i" using length_takeWhile_le [of _ "drop i gs"] by simp
    have "gs ! j = 0" if "i \<le> j" "j < i + length ?t" for j
    proof -
      have "?t ! (j - i) = drop i gs ! (j - i)" using that by (intro takeWhile_nth) simp
      moreover have "?t ! (j - i) \<in> set ?t" using that by (intro nth_mem) simp
      ultimately show ?thesis using that len set_takeWhileD [of "?t ! (j - i)"] by auto
    qed
    moreover have "0 < length ?t" using that by (simp only: zero_run_def)
    then have "i + length ?t \<le> length gs" using len by linarith
    ultimately show ?thesis by (simp add: zero_run_def)
  qed
  have step: "pred_option ?P (run_step gs acc i)" if "pred_option ?P acc" for acc i
    using that z [of i] by (auto simp: run_step_def Let_def)
  have "pred_option ?P (foldl (run_step gs) acc is)" if "pred_option ?P acc" for acc "is"
    using that by (induction "is" arbitrary: acc) (simp_all add: step)
  then have "pred_option ?P (longest_run gs)" by (simp add: longest_run_def)
  then show ?thesis using assms by simp
qed

lemma v6_groups_zero: "v6_groups_of w = replicate 8 0 \<Longrightarrow> w = 0"
proof (rule bit_word_eqI)
  fix n assume z: "v6_groups_of w = replicate 8 0" and n: "n < LENGTH(128)"
  then have "n div 16 < 8" by (simp add: div_less_iff_less_mult)
  then have "v6_groups_of w ! (7 - n div 16) = 0" using z by simp
  moreover have "v6_groups_of w ! i = ucast (drop_bit (112 - 16 * i) w)" if "i < 8" for i
    using that by (simp add: v6_groups_of_def)
  moreover have "112 - 16 * (7 - n div 16) = 16 * (n div 16)" using \<open>n div 16 < 8\<close> by simp
  ultimately have "(ucast (drop_bit (16 * (n div 16)) w) :: u16) = 0" by simp
  moreover have "bit w n = bit (ucast (drop_bit (16 * (n div 16)) w) :: u16) (n mod 16)"
    by (simp add: bit_simps)
  ultimately show "bit w n = bit 0 n" by simp
qed

lemma v6_String_colon: "CHR '':'' \<in> set (v6_String w)"
proof (cases "longest_run (v6_groups_of w)")
  case None
  then show ?thesis using Join_sep [of "map (\<lambda>g. FormatHex (uint g)) (v6_groups_of w)" "'':''"]
    by (simp add: v6_String_def v6_groups_of_def)
qed (auto simp: v6_String_def Let_def)

lemma v6_String_zero: "v6_String w = ''::'' \<longleftrightarrow> w = 0"
proof
  let ?g = "v6_groups_of w"
  have len: "length ?g = 8" by (simp add: v6_groups_of_def)
  assume eq: "v6_String w = ''::''"
  show "w = 0"
  proof (cases "longest_run ?g")
    case None
    moreover have "?g \<noteq> []" using len by auto
    ultimately show ?thesis using eq hex_Join [of ?g] by (auto simp: v6_String_def)
  next
    case (Some r)
    obtain s e where r: "r = (s, e)" by (cases r)
    note run = longest_run_zero [OF Some [unfolded r]]
    have "take s ?g = []"
    proof (rule ccontr)
      assume "take s ?g \<noteq> []"
      then obtain c cs where "Join '':'' (map (\<lambda>g. FormatHex (uint g)) (take s ?g)) = c # cs" "c \<noteq> CHR '':''"
        using hex_Join [of "take s ?g"] by (metis list.exhaust_sel)
      then show False using eq Some r by (simp add: v6_String_def)
    qed
    moreover from this have "drop e ?g = []" using eq Some r hex_Join [of "drop e ?g"]
      by (cases "drop e ?g = []") (auto simp: v6_String_def)
    ultimately have "s = 0" "e = 8" using run len by auto
    with run len have "?g = replicate 8 0" by (auto intro!: nth_equalityI)
    then show ?thesis by (rule v6_groups_zero)
  qed
next
  have "v6_String 0 = ''::''" by code_simp
  then show "w = 0 \<Longrightarrow> v6_String w = ''::''" by simp
qed

lemma unspecified_String: "addr_String a = ''0.0.0.0'' \<or> addr_String a = ''::'' \<longleftrightarrow> a = Addr4 0 \<or> a = Addr6 0"
proof (cases a)
  case (Addr4 w)
  have "CHR ''.'' \<in> set (v4_String w)"
    using Join_sep [of "map (\<lambda>b. FormatUint (uint b)) (be_bytes 4 w)" "''.''"] by (simp add: v4_String_def)
  then show ?thesis using Addr4 by (auto simp: v4_String_zero)
next
  case (Addr6 w)
  have "v6_String w \<noteq> ''0.0.0.0''" using v6_String_colon [of w] by auto
  then show ?thesis using Addr6 by (auto simp: v6_String_zero)
qed simp

end
