(* ===== verification/Checksum.thy ===== *)
theory Checksum
  imports Prelude
begin

text \<open>
  The Internet checksums of \<open>client/firewall/uspfilter/nat.go\<close>: the IPv4 header checksum, the
  unrolled ICMP checksum and the incremental update of RFC 1624, all in the 32-bit accumulators the
  code uses. The reference is \<open>rfc1071\<close>: the complement of the one's complement sum of the 16-bit
  words, with carries folded until none is left. The lemmas show that the accumulators do not
  overflow for packets below 128 KiB and that the code's two folding steps are enough.
\<close>

section \<open>Reference\<close>

text \<open>The sum of the big-endian 16-bit words of a byte string, the last odd byte padded with zero.\<close>

fun word_sum :: "bytes \<Rightarrow> nat" where
  "word_sum (a # b # bs) = unat a * 256 + unat b + word_sum bs"
| "word_sum [a] = unat a * 256"
| "word_sum [] = 0"

function carry_fold :: "nat \<Rightarrow> nat" where
  "carry_fold n = (if n \<le> 65535 then n else carry_fold (n mod 65536 + n div 65536))"
  by auto

termination carry_fold
proof (relation "measure id", simp)
  fix n :: nat
  assume "\<not> n \<le> 65535"
  then have "1 \<le> n div 65536" by (simp add: div_greater_zero_iff Suc_le_eq)
  moreover have "n = 65536 * (n div 65536) + n mod 65536" by simp
  ultimately have "n mod 65536 + n div 65536 < n" by linarith
  then show "(n mod 65536 + n div 65536, n) \<in> measure id" by simp
qed

definition rfc1071 :: "bytes \<Rightarrow> u16" where
  "rfc1071 bs = NOT (of_nat (carry_fold (word_sum bs)))"

text \<open>A byte string that carries its checksum is valid when its folded sum is all ones.\<close>

definition checksum_ok :: "nat \<Rightarrow> bool" where
  "checksum_ok s = (carry_fold s = 65535)"

section \<open>The code\<close>

definition u16at :: "bytes \<Rightarrow> nat \<Rightarrow> u32" where
  "u16at bs i = push_bit 8 (ucast (bs ! i)) OR ucast (bs ! (i + 1))"

text \<open>The loop over the remaining pairs of bytes and the padding of an odd last byte.\<close>

fun add_words :: "u32 \<Rightarrow> bytes \<Rightarrow> u32" where
  "add_words s (a # b # bs) = add_words (s + (push_bit 8 (ucast a) OR ucast b)) bs"
| "add_words s [a] = s + push_bit 8 (ucast a)"
| "add_words s [] = s"

definition fold_carry :: "u32 \<Rightarrow> u16" where
  "fold_carry s =
     (let s = (s AND 0xFFFF) + drop_bit 16 s;
          s = (if s > 0xFFFF then s + 1 else s)
      in NOT (ucast s))"

definition ipv4Checksum :: "bytes \<Rightarrow> u16" where
  "ipv4Checksum header =
     (if length header < 20 then 0
      else let sum1 = 0 + u16at header 0 + u16at header 4 + u16at header 8 + u16at header 14 + u16at header 18;
               sum2 = 0 + u16at header 2 + u16at header 6 + u16at header 12 + u16at header 16
           in fold_carry (add_words (sum1 + sum2) (drop 20 header)))"

function icmp_sums :: "u32 \<Rightarrow> u32 \<Rightarrow> u32 \<Rightarrow> u32 \<Rightarrow> bytes \<Rightarrow> u32" where
  "icmp_sums sum1 sum2 sum3 sum4 data =
     (if 16 \<le> length data
      then icmp_sums (sum1 + u16at data 0 + u16at data 8) (sum2 + u16at data 2 + u16at data 10)
             (sum3 + u16at data 4 + u16at data 12) (sum4 + u16at data 6 + u16at data 14) (drop 16 data)
      else add_words (sum1 + sum2 + sum3 + sum4) data)"
  by auto

termination icmp_sums
  by (relation "measure (\<lambda>(_, _, _, _, data). length data)") auto

definition icmpChecksum :: "bytes \<Rightarrow> u16" where
  "icmpChecksum data = fold_carry (icmp_sums 0 0 0 0 data)"

text \<open>The complemented words of the replaced bytes; an odd last byte is complemented as a byte.\<close>

fun sub_words :: "u32 \<Rightarrow> bytes \<Rightarrow> u32" where
  "sub_words s (a # b # bs) = sub_words (s + ucast (NOT (push_bit 8 (ucast a) OR ucast b :: u16))) bs"
| "sub_words s [a] = s + push_bit 8 (ucast (NOT a))"
| "sub_words s [] = s"

definition incrementalUpdate :: "u16 \<Rightarrow> bytes \<Rightarrow> bytes \<Rightarrow> u16" where
  "incrementalUpdate oldChecksum oldBytes newBytes =
     (let sum = ucast (NOT oldChecksum)
      in fold_carry
           (if length oldBytes = 4 \<and> length newBytes = 4
            then sum + ucast (NOT (ucast (u16at oldBytes 0) :: u16)) + ucast (NOT (ucast (u16at oldBytes 2) :: u16))
                   + u16at newBytes 0 + u16at newBytes 2
            else add_words (sub_words sum oldBytes) newBytes))"

section \<open>One's complement arithmetic\<close>

declare carry_fold.simps [simp del] icmp_sums.simps [simp del]

lemma carry_fold_le: "carry_fold n \<le> 65535"
  by (induction n rule: carry_fold.induct) (subst carry_fold.simps, simp)

lemma carry_fold_mod: "carry_fold n mod 65535 = n mod 65535"
proof (induction n rule: carry_fold.induct)
  case (1 n)
  show ?case
  proof (cases "n \<le> 65535")
    case False
    have "n = (n mod 65536 + n div 65536) + 65535 * (n div 65536)"
      using mult_div_mod_eq [of 65536 n] by linarith
    then have "n mod 65535 = (n mod 65536 + n div 65536) mod 65535" by (metis mod_mult_self2)
    with 1 [OF False] False show ?thesis by (subst carry_fold.simps) simp
  qed (subst carry_fold.simps, simp)
qed

lemma carry_fold_zero: "carry_fold n = 0 \<longleftrightarrow> n = 0"
proof (induction n rule: carry_fold.induct)
  case (1 n)
  show ?case
  proof (cases "n \<le> 65535")
    case False
    then have "n div 65536 \<noteq> 0" by (simp add: div_eq_0_iff)
    with 1 [OF False] False show ?thesis by (subst carry_fold.simps) auto
  qed (subst carry_fold.simps, simp)
qed

lemma checksum_ok_iff: "checksum_ok s \<longleftrightarrow> s \<noteq> 0 \<and> s mod 65535 = 0"
proof -
  have "carry_fold s = 65535 \<longleftrightarrow> carry_fold s \<noteq> 0 \<and> carry_fold s mod 65535 = 0"
    using carry_fold_le [of s] by (cases "carry_fold s = 65535") auto
  then show ?thesis by (simp add: checksum_ok_def carry_fold_zero carry_fold_mod)
qed

lemma carry_fold_unique:
  assumes "m \<le> 65535" "m mod 65535 = n mod 65535" "m = 0 \<longleftrightarrow> n = 0"
  shows "carry_fold n = m"
proof (cases "n = 0")
  case False
  then have "carry_fold n \<noteq> 0" "m \<noteq> 0" using assms(3) by (simp_all add: carry_fold_zero)
  moreover have "carry_fold n mod 65535 = m mod 65535" using assms(2) by (simp add: carry_fold_mod)
  moreover note carry_fold_le [of n] assms(1)
  ultimately show ?thesis by (cases "m = 65535"; cases "carry_fold n = 65535") auto
qed (use assms in \<open>simp add: carry_fold.simps\<close>)


section \<open>Correctness of the accumulators\<close>

lemma pair_value: "(push_bit 8 (ucast (a::byte)) OR ucast (b::byte) :: 'a::len word) = of_nat (unat a * 256 + unat b)"
  by (simp add: push_or_add)

lemma pair_less: "unat (a::byte) * 256 + unat (b::byte) \<le> 65535"
proof -
  have "unat a < 256" "unat b < 256" using unsigned_less [of a] unsigned_less [of b] by simp_all
  then show ?thesis by simp
qed

lemma add_words_value: "add_words s bs = s + of_nat (word_sum bs)"
proof (induction s bs rule: add_words.induct)
  case (1 s a b bs)
  then show ?case by (simp add: push_or_add)
qed (simp_all add: push_bit_eq_mult)

lemma word_sum_append: "even (length xs) \<Longrightarrow> word_sum (xs @ ys) = word_sum xs + word_sum ys"
  by (induction xs rule: word_sum.induct) auto

lemma word_sum_le: "2 * word_sum bs \<le> 65535 * (length bs + 1)"
proof (induction bs rule: word_sum.induct)
  case (1 a b bs)
  then show ?case using pair_less [of a b] by simp
next
  case (2 a)
  show ?case using pair_less [of a 0] by simp
qed simp

lemma word_sum_even_le: "even (length bs) \<Longrightarrow> word_sum bs \<le> 65535 * (length bs div 2)"
proof (induction bs rule: word_sum.induct)
  case (1 a b bs)
  then show ?case using pair_less [of a b] by simp
qed auto

lemma word_sum_drop:
  assumes "i + 2 \<le> length bs"
  shows "(of_nat (word_sum (drop i bs)) :: u32) = u16at bs i + of_nat (word_sum (drop (i + 2) bs))"
proof -
  have "drop i bs = bs ! i # bs ! (i + 1) # drop (i + 2) bs"
    using assms by (simp add: Cons_nth_drop_Suc)
  then show ?thesis by (simp add: u16at_def pair_value)
qed

lemma unat_small: "n < 2 ^ 32 \<Longrightarrow> unat (of_nat n :: u32) = n"
  by (simp add: unat_of_nat)

lemma fold_step_unat: "unat ((s AND 0xFFFF) + drop_bit 16 (s :: u32)) = unat s mod 65536 + unat s div 65536"
proof -
  have "s AND 0xFFFF = take_bit 16 s" by (simp add: take_bit_eq_mask mask_eq_exp_minus_1)
  then have lo: "unat (s AND 0xFFFF) = unat s mod 65536"
    by (simp only: unsigned_take_bit_eq) (simp add: take_bit_eq_mod)
  have less: "unat s < 4294967296" using unsigned_less [of s] by simp
  then have hi: "unat (drop_bit 16 s) = unat s div 65536"
    by (simp only: unsigned_drop_bit_eq) (simp add: take_bit_eq_mod drop_bit_eq_div)
  from less have "unat s mod 65536 + unat s div 65536 < 2 ^ 32" by simp
  then show ?thesis using lo hi by (simp add: unat_word_ariths)
qed

lemma fold_step_less: "s > 0xFFFF \<Longrightarrow> unat ((s AND 0xFFFF) + drop_bit 16 (s :: u32)) < unat s"
proof -
  assume "s > 0xFFFF"
  then have "65535 < unat s" by (simp add: word_less_nat_alt)
  then have "1 \<le> unat s div 65536" by (simp add: div_greater_zero_iff Suc_le_eq)
  moreover have "unat s = 65536 * (unat s div 65536) + unat s mod 65536" by simp
  ultimately show ?thesis unfolding fold_step_unat by linarith
qed

lemma fold_carry_value:
  assumes "n < 2 ^ 32"
  shows "fold_carry (of_nat n) = NOT (of_nat (carry_fold n))"
proof -
  let ?t = "n mod 65536 + n div 65536"
  have n: "unat (of_nat n :: u32) = n" by (rule unat_small [OF assms])
  have "(of_nat n :: u32) AND 0xFFFF = take_bit 16 (of_nat n)" by (simp add: take_bit_eq_mask mask_eq_exp_minus_1)
  also have "\<dots> = of_nat (n mod 65536)"
    by (simp add: word_unat_eq_iff unsigned_take_bit_eq n) (simp add: unsigned_of_nat take_bit_eq_mod)
  finally have lo: "(of_nat n :: u32) AND 0xFFFF = of_nat (n mod 65536)" .
  have hi: "drop_bit 16 (of_nat n :: u32) = of_nat (n div 65536)" 

    using assms by (simp add: word_unat_eq_iff unsigned_drop_bit_eq n)
      (simp add: unsigned_of_nat take_bit_eq_mod drop_bit_eq_div)
  have bound: "n div 65536 \<le> 65535" "?t \<le> 131070" using assms by auto
  have t: "unat (of_nat ?t :: u32) = ?t" by (rule unat_small) (use bound in simp)
  have "n = ?t + 65535 * (n div 65536)" using mult_div_mod_eq [of 65536 n] by linarith
  then have mod: "n mod 65535 = ?t mod 65535" by (metis mod_mult_self2)
  have cf: "carry_fold n = (if 65535 < ?t then ?t - 65535 else ?t)"
  proof (rule carry_fold_unique)
    show "(if 65535 < ?t then ?t - 65535 else ?t) mod 65535 = n mod 65535"
      using mod le_mod_geq [of 65535 ?t] by auto
    show "((if 65535 < ?t then ?t - 65535 else ?t) = 0) = (n = 0)" by (auto simp: div_eq_0_iff)
  qed (use bound in auto)
  have "(0xFFFF < (of_nat ?t :: u32)) = (65535 < ?t)" by (simp only: word_less_nat_alt t) simp
  moreover have "(ucast (of_nat ?t + 1 :: u32) :: u16) = of_nat (?t - 65535)" if "65535 < ?t"
  proof -
    have "of_nat ?t + 1 = (of_nat (?t + 1) :: u32)" by simp
    then have "(ucast (of_nat ?t + 1 :: u32) :: u16) = of_nat (unat (of_nat (?t + 1) :: u32))" by (simp only: of_nat_unat)
    also have "unat (of_nat (?t + 1) :: u32) = ?t + 1" by (rule unat_small) (use bound in simp)
    also have "(of_nat (?t + 1) :: u16) = of_nat ((?t - 65535) + 65536)" using that by simp
    also have "\<dots> = of_nat (?t - 65535)" by (simp only: of_nat_add) simp
    finally show ?thesis .
  qed
  moreover have "(ucast (of_nat ?t :: u32) :: u16) = of_nat (unat (of_nat ?t :: u32))" by (simp only: of_nat_unat)
  ultimately show ?thesis by (simp add: fold_carry_def Let_def lo hi cf t flip: of_nat_add)
qed


lemma icmp_sums_value:
  "icmp_sums sum1 sum2 sum3 sum4 data = sum1 + sum2 + sum3 + sum4 + of_nat (word_sum data)"
proof (induction sum1 sum2 sum3 sum4 data rule: icmp_sums.induct)
  case (1 sum1 sum2 sum3 sum4 data)
  show ?case
  proof (cases "16 \<le> length data")
    case True
    have "(of_nat (word_sum data) :: u32) = u16at data 0 + u16at data 2 + u16at data 4 + u16at data 6
        + u16at data 8 + u16at data 10 + u16at data 12 + u16at data 14 + of_nat (word_sum (drop 16 data))"
      using True word_sum_drop [of 0 data] word_sum_drop [of 2 data] word_sum_drop [of 4 data]
        word_sum_drop [of 6 data] word_sum_drop [of 8 data] word_sum_drop [of 10 data]
        word_sum_drop [of 12 data] word_sum_drop [of 14 data]
      by (simp add: add_ac flip: numeral_2_eq_2)
    with 1 [OF True] True show ?thesis by (subst icmp_sums.simps) (simp add: add_ac)
  qed (subst icmp_sums.simps, simp add: add_words_value)
qed

lemma word_sum_u32: "length bs < 131072 \<Longrightarrow> word_sum bs < 2 ^ 32"
  using word_sum_le [of bs] by simp

lemma icmpChecksum_rfc: "length data < 131072 \<Longrightarrow> icmpChecksum data = rfc1071 data"
  using fold_carry_value [OF word_sum_u32, of data]
  by (simp add: icmpChecksum_def icmp_sums_value rfc1071_def)

text \<open>The header checksum skips its own field: it is the checksum of the header with the field zero.\<close>

definition zero_checksum :: "bytes \<Rightarrow> bytes" where
  "zero_checksum header = header[10 := 0, 11 := 0]"

lemma ipv4Checksum_rfc:
  assumes "20 \<le> length header" "length header < 131072"
  shows "ipv4Checksum header = rfc1071 (zero_checksum header)"
proof -
  let ?h = "zero_checksum header"
  have at: "u16at ?h i = u16at header i" if "i + 1 < 10 \<or> 11 < i" for i
    using that by (auto simp: u16at_def zero_checksum_def)
  have z: "u16at ?h 10 = 0" using assms by (simp add: u16at_def zero_checksum_def)
  have len: "length ?h = length header" by (simp add: zero_checksum_def)
  have d: "drop 20 ?h = drop 20 header" by (simp add: zero_checksum_def)
  have "(of_nat (word_sum ?h) :: u32) = u16at header 0 + u16at header 2 + u16at header 4 + u16at header 6
      + u16at header 8 + u16at header 12 + u16at header 14 + u16at header 16 + u16at header 18
      + of_nat (word_sum (drop 20 header))"
    using assms word_sum_drop [of 0 ?h] word_sum_drop [of 2 ?h] word_sum_drop [of 4 ?h]
      word_sum_drop [of 6 ?h] word_sum_drop [of 8 ?h] word_sum_drop [of 10 ?h]
      word_sum_drop [of 12 ?h] word_sum_drop [of 14 ?h] word_sum_drop [of 16 ?h] word_sum_drop [of 18 ?h]
    by (simp add: at z len d add_ac flip: numeral_2_eq_2)
  then have "ipv4Checksum header = fold_carry (of_nat (word_sum ?h))"
    using assms by (simp add: ipv4Checksum_def add_words_value add_ac)
  also have "\<dots> = rfc1071 ?h"
    using fold_carry_value [OF word_sum_u32, of ?h] assms by (simp add: rfc1071_def len)
  finally show ?thesis .
qed

section \<open>Incremental update\<close>

lemma NOT_u16: "unat (NOT (x :: u16)) = 65535 - unat x"
proof -
  have "NOT x = - 1 - x" by (simp add: not_eq_complement)
  moreover have "unat (- 1 - x) = unat (- 1 :: u16) - unat x" by (rule unat_sub) simp
  moreover have "unat (- 1 :: u16) = 65535" by (simp add: unsigned_minus_1_eq_mask mask_eq_exp_minus_1)
  ultimately show ?thesis by simp
qed

lemma unat_small16: "n \<le> 65535 \<Longrightarrow> unat (of_nat n :: u16) = n"
  by (simp add: unat_of_nat)

lemma ucast_u32: "(ucast (x :: u16) :: u32) = of_nat (unat x)"
  by simp

lemma NOT_pair: "(ucast (NOT (push_bit 8 (ucast (a::byte)) OR ucast (b::byte) :: u16)) :: u32)
    = of_nat (65535 - (unat a * 256 + unat b))"
proof -
  have "unat (of_nat (unat a * 256 + unat b) :: u16) = unat a * 256 + unat b"
    by (rule unat_small16) (rule pair_less)
  then show ?thesis by (simp only: ucast_u32 NOT_u16 pair_value)
qed

lemma sub_words_value:
  "even (length bs) \<Longrightarrow> sub_words s bs = s + of_nat (65535 * (length bs div 2) - word_sum bs)"
proof (induction s bs rule: sub_words.induct)
  case (1 s a b bs)
  then have "even (length bs)" by simp
  then have le: "word_sum bs \<le> 65535 * (length bs div 2)" by (rule word_sum_even_le)
  have "65535 * (length (a # b # bs) div 2) - word_sum (a # b # bs)
      = (65535 - (unat a * 256 + unat b)) + (65535 * (length bs div 2) - word_sum bs)"
    using le pair_less [of a b] by simp
  with 1 show ?case by (simp only: sub_words.simps NOT_pair of_nat_add add.assoc \<open>even (length bs)\<close>)
qed auto


lemma ucast_pair: "(ucast (push_bit 8 (ucast (a::byte)) OR ucast (b::byte) :: u32) :: u16)
    = push_bit 8 (ucast a) OR ucast b"
  by (rule bit_word_eqI) (auto simp: bit_simps)

text \<open>
  RFC 1624: the updated checksum and the new bytes have the same one's complement sum as the old
  checksum and the old bytes, so a string that was valid stays valid.
\<close>

lemma incrementalUpdate_sum:
  assumes "even (length old)" "even (length new)" "length old \<le> 65536" "length new \<le> 65536"
  shows "(unat (incrementalUpdate c old new) + word_sum new) mod 65535 = (unat c + word_sum old) mod 65535"
proof -
  let ?K = "65535 * (length old div 2)"
  let ?n = "(65535 - unat c) + (?K - word_sum old) + word_sum new"
  have four: "(of_nat (word_sum bs) :: u32) = u16at bs 0 + u16at bs 2" if "length bs = 4" for bs
    using word_sum_drop [of 0 bs] word_sum_drop [of 2 bs] that by (simp flip: numeral_2_eq_2)
  have four_sub: "ucast (NOT c) + ucast (NOT (ucast (u16at old 0) :: u16)) + ucast (NOT (ucast (u16at old 2) :: u16))
      = sub_words (ucast (NOT c)) old" if "length old = 4"
  proof -
    from that obtain x y z w where "old = [x, y, z, w]" by (auto simp: numeral_eq_Suc length_Suc_conv)
    then show ?thesis by (simp add: u16at_def ucast_pair)
  qed
  then have "incrementalUpdate c old new = fold_carry (add_words (sub_words (ucast (NOT c)) old) new)"
    by (simp add: incrementalUpdate_def Let_def add_words_value four add.assoc [of "sub_words (ucast (NOT c)) old"])
  also have "\<dots> = fold_carry (of_nat ?n)"
    by (simp only: add_words_value sub_words_value [OF assms(1)] ucast_u32 NOT_u16 of_nat_add)
  also have "\<dots> = NOT (of_nat (carry_fold ?n))"
    using word_sum_even_le [OF assms(2)] assms by (intro fold_carry_value) simp
  finally have r: "unat (incrementalUpdate c old new) = 65535 - carry_fold ?n"
    using carry_fold_le [of ?n] by (simp add: NOT_u16 unat_small16)
  have "unat c < 65536" using unsigned_less [of c] by simp
  then have Y: "int (unat c + word_sum old) = int (65535 + ?K + word_sum new) - int ?n"
    using word_sum_even_le [OF assms(1)] by simp
  have X: "int (unat (incrementalUpdate c old new) + word_sum new)
      = int (65535 + word_sum new) - int (carry_fold ?n)"
    using r carry_fold_le [of ?n] by simp
  have cf: "int (carry_fold ?n) mod 65535 = int ?n mod 65535"
    using arg_cong [OF carry_fold_mod [of ?n], of int] by (simp only: zmod_int of_nat_numeral)
  have K: "int (65535 + word_sum new) mod 65535 = int (65535 + ?K + word_sum new) mod 65535"
  proof -
    have "int (65535 + ?K + word_sum new) = int (65535 + word_sum new) + 65535 * int (length old div 2)" by simp
    then show ?thesis by (simp only: mod_mult_self2)
  qed
  have "int (unat (incrementalUpdate c old new) + word_sum new) mod 65535
      = int (unat c + word_sum old) mod 65535"
    unfolding X Y by (rule mod_diff_cong [OF K cf])
  then have "int ((unat (incrementalUpdate c old new) + word_sum new) mod 65535)
      = int ((unat c + word_sum old) mod 65535)"
    by (simp only: zmod_int of_nat_numeral)
  then show ?thesis by (simp only: of_nat_eq_iff)
qed

text \<open>A string followed by its own checksum is valid.\<close>

lemma own_checksum_ok: "checksum_ok (w + unat (NOT (of_nat (carry_fold w)) :: u16))"
proof -
  have "unat (NOT (of_nat (carry_fold w)) :: u16) = 65535 - carry_fold w"
    by (simp add: NOT_u16 unat_small16 carry_fold_le)
  moreover have "(w + (65535 - carry_fold w)) mod 65535 = 0"
  proof -
    have "(w + (65535 - carry_fold w)) mod 65535 = (carry_fold w + (65535 - carry_fold w)) mod 65535"
      by (rule mod_add_cong) (simp_all add: carry_fold_mod)
    then show ?thesis using carry_fold_le [of w] by simp
  qed
  moreover have "w + (65535 - carry_fold w) \<noteq> 0" using carry_fold_zero [of w] by auto
  ultimately show ?thesis by (simp add: checksum_ok_iff)
qed

end
