(* ===== verification/Conntrack.thy ===== *)
theory Conntrack
  imports Prelude
begin

text \<open>
  What the three connection trackers of the userspace firewall share
  (\<open>client/firewall/uspfilter/conntrack/common.go\<close>, \<open>client/internal/netflow/types/types.go\<close>): the
  common part of a tracked connection, the flow events, the table with its entry cap, and the
  sampling eviction. A tracker's table is a Go map, \<open>None\<close> when it is nil (after \<open>Close\<close>); the flow
  logger is the list of the events stored so far. Time is in nanoseconds; \<open>uuid.New\<close> is an argument.

  A packet is processed against the table as one step: the concurrency inside a tracker (a lookup
  and a later atomic update of the entry) is not modelled.

  \<open>acc_inv\<close> is the accounting of flows: every flow has at most one start and one end event, and has
  ended exactly when its entry is finished or has left the table. The locale \<open>evicting_table\<close> is the
  contract of an eviction policy; the lemmas about inserting under the cap are proved from it once
  and used by every tracker.
\<close>

section \<open>Connections and events\<close>

type_synonym uuid = "128 word"

datatype Direction = DirectionUnknown | Ingress | Egress

datatype event_type = TypeUnknown | TypeStart | TypeEnd | TypeDrop

record base_conn =
  FlowId :: uuid
  conn_dir :: Direction
  SourceIP :: addr
  DestIP :: addr
  lastSeen :: int
  PacketsTx :: u64
  PacketsRx :: u64
  BytesTx :: u64
  BytesRx :: u64
  DNATOrigPort :: u32

record EventFields =
  FlowID :: uuid
  EventType :: event_type
  RuleID :: bytes
  ev_dir :: Direction
  Protocol :: byte
  ev_src :: addr
  ev_dst :: addr
  ev_sport :: u16
  ev_dport :: u16
  ev_icmp_type :: byte
  ev_icmp_code :: byte
  RxPackets :: u64
  TxPackets :: u64
  RxBytes :: u64
  TxBytes :: u64

definition proto_ICMP :: byte where "proto_ICMP = 1"
definition proto_TCP :: byte where "proto_TCP = 6"
definition proto_UDP :: byte where "proto_UDP = 17"
definition proto_ICMPv6 :: byte where "proto_ICMPv6 = 58"

definition UpdateLastSeen :: "int \<Rightarrow> 'a base_conn_scheme \<Rightarrow> 'a base_conn_scheme" where
  "UpdateLastSeen now b = b\<lparr> lastSeen := now \<rparr>"

definition UpdateCounters :: "Direction \<Rightarrow> int \<Rightarrow> 'a base_conn_scheme \<Rightarrow> 'a base_conn_scheme" where
  "UpdateCounters direction sz b =
     (if direction = Egress
      then b\<lparr> PacketsTx := PacketsTx b + 1, BytesTx := BytesTx b + word_of_int sz \<rparr>
      else b\<lparr> PacketsRx := PacketsRx b + 1, BytesRx := BytesRx b + word_of_int sz \<rparr>)"

definition timeoutExceeded :: "int \<Rightarrow> int \<Rightarrow> 'a base_conn_scheme \<Rightarrow> bool" where
  "timeoutExceeded now timeout b = (now - lastSeen b > timeout)"

record ConnKey =
  SrcIP :: addr
  DstIP :: addr
  SrcPort :: u16
  DstPort :: u16

lemma UpdateCounters_base [simp]:
  "FlowId (UpdateCounters d n b) = FlowId b" "conn_dir (UpdateCounters d n b) = conn_dir b"
  "lastSeen (UpdateCounters d n b) = lastSeen b" "DNATOrigPort (UpdateCounters d n b) = DNATOrigPort b"
  "base_conn.more (UpdateCounters d n b) = base_conn.more b"
  by (simp_all add: UpdateCounters_def)

lemma UpdateLastSeen_base [simp]:
  "FlowId (UpdateLastSeen now b) = FlowId b" "conn_dir (UpdateLastSeen now b) = conn_dir b"
  "lastSeen (UpdateLastSeen now b) = now" "DNATOrigPort (UpdateLastSeen now b) = DNATOrigPort b"
  "base_conn.more (UpdateLastSeen now b) = base_conn.more b"
  by (simp_all add: UpdateLastSeen_def)

section \<open>Tables\<close>

record ('k, 'c) tracker =
  connections :: "('k, 'c) gmap option"
  maxEntries :: int
  flowLogger :: "EventFields list"

definition conns :: "('k, 'c, 'x) tracker_scheme \<Rightarrow> ('k, 'c) gmap" where
  "conns t = (case connections t of None \<Rightarrow> [] | Some m \<Rightarrow> m)"

definition set_conns :: "('k, 'c) gmap \<Rightarrow> ('k, 'c, 'x) tracker_scheme \<Rightarrow> ('k, 'c, 'x) tracker_scheme" where
  "set_conns m t = t\<lparr> connections := map_option (\<lambda>_. m) (connections t) \<rparr>"

definition StoreEvents :: "EventFields list \<Rightarrow> ('k, 'c, 'x) tracker_scheme \<Rightarrow> ('k, 'c, 'x) tracker_scheme" where
  "StoreEvents es t = t\<lparr> flowLogger := flowLogger t @ es \<rparr>"

text \<open>
  The insertion of a new connection: make room at the cap, then assign; assigning to a nil map
  panics. \<open>order\<close> is the iteration order of the eviction's loop.
\<close>

definition insert_conn ::
    "('k list \<Rightarrow> ('k, 'c, 'x) tracker_scheme \<Rightarrow> ('k, 'c, 'x) tracker_scheme) \<Rightarrow> 'k list \<Rightarrow> 'k \<Rightarrow> 'c \<Rightarrow>
     ('k, 'c, 'x) tracker_scheme \<Rightarrow> ('k, 'c, 'x) tracker_scheme option" where
  "insert_conn evict order key conn t =
     (let t = (if 0 < maxEntries t \<and> maxEntries t \<le> int (length (conns t)) then evict order t else t)
      in case connections t of
           None \<Rightarrow> None
         | Some m \<Rightarrow> Some (t\<lparr> connections := Some (gput key conn m) \<rparr>))"

definition evictSampleSize :: nat where "evictSampleSize = 8"

text \<open>
  The scan of the UDP and ICMP eviction: the key with the smallest \<open>lastSeen\<close> among the first
  \<open>evictSampleSize\<close> entries; \<open>n\<close> is the number of entries still to sample.
\<close>

fun sample_oldest ::
    "('k \<Rightarrow> int option) \<Rightarrow> nat \<Rightarrow> 'k list \<Rightarrow> ('k \<times> int) option \<Rightarrow> ('k \<times> int) option" where
  "sample_oldest seen 0 ks cand = cand"
| "sample_oldest seen n [] cand = cand"
| "sample_oldest seen (Suc n) (k # ks) cand =
     (case seen k of
        None \<Rightarrow> sample_oldest seen (Suc n) ks cand
      | Some s \<Rightarrow>
          sample_oldest seen n ks
            (case cand of None \<Rightarrow> Some (k, s) | Some (_, s0) \<Rightarrow> if s < s0 then Some (k, s) else cand))"

lemma conns_simps [simp]:
  "connections t = Some m \<Longrightarrow> conns t = m"
  "connections t = None \<Longrightarrow> conns t = []"
  "conns (StoreEvents es t) = conns t"
  "connections (StoreEvents es t) = connections t"
  "maxEntries (StoreEvents es t) = maxEntries t"
  "flowLogger (StoreEvents es t) = flowLogger t @ es"
  "maxEntries (set_conns m t) = maxEntries t"
  "flowLogger (set_conns m t) = flowLogger t"
  by (simp_all add: conns_def StoreEvents_def set_conns_def)

lemma StoreEvents_Nil [simp]: "StoreEvents [] t = t"
  by (simp add: StoreEvents_def)

lemma conns_set_conns:
  "conns (set_conns m t) = (if connections t = None then [] else m)"
  by (auto simp: conns_def set_conns_def)

definition tracked :: "('k, 'c, 'x) tracker_scheme \<Rightarrow> 'k \<Rightarrow> bool" where
  "tracked t k \<longleftrightarrow> gget (conns t) k \<noteq> None"

lemma tracked_simps:
  "tracked (StoreEvents es t) k = tracked t k"
  "tracked (set_conns (gdel k' (conns t)) t) k \<longleftrightarrow> k \<noteq> k' \<and> tracked t k"
  "tracked (set_conns (gput k' c (conns t)) t) k \<longleftrightarrow> connections t \<noteq> None \<and> (k = k' \<or> tracked t k)"
  by (auto simp: tracked_def conns_set_conns)

lemma tracked_insert_conn:
  assumes "insert_conn evict order key c t = Some t'" and "tracked t' k"
    and "\<And>k. tracked (evict order t) k \<Longrightarrow> tracked t k"
  shows "k = key \<or> tracked t k"
proof -
  from assms(1) obtain t1 m where "t1 = t \<or> t1 = evict order t" "connections t1 = Some m"
    "t' = t1\<lparr> connections := Some (gput key c m) \<rparr>"
    by (auto simp: insert_conn_def Let_def split: option.splits if_splits)
  moreover from this have "k = key \<or> tracked t1 k" using assms(2) by (auto simp: tracked_def conns_def split: if_splits)
  ultimately show ?thesis using assms(3) by blast
qed

lemma sample_oldest_key:
  assumes "sample_oldest seen n ks cand = Some (k, s)"
  shows "cand = Some (k, s) \<or> k \<in> set ks \<and> seen k = Some s"
  using assms
proof (induction seen n ks cand rule: sample_oldest.induct)
  case (3 seen n k' ks cand)
  then show ?case by (auto split: option.splits if_splits)
qed auto

lemma sample_oldest_Some:
  assumes "cand \<noteq> None \<or> (\<exists>k\<in>set ks. seen k \<noteq> None) \<and> 0 < n"
  shows "sample_oldest seen n ks cand \<noteq> None"
  using assms
proof (induction seen n ks cand rule: sample_oldest.induct)
  case (3 seen n k ks cand)
  then show ?case by (auto split: option.splits if_splits)
qed auto

section \<open>Accounting\<close>

definition starts :: "EventFields list \<Rightarrow> uuid \<Rightarrow> nat" where
  "starts E f = length (filter (\<lambda>e. FlowID e = f \<and> EventType e = TypeStart) E)"

definition ends :: "EventFields list \<Rightarrow> uuid \<Rightarrow> nat" where
  "ends E f = length (filter (\<lambda>e. FlowID e = f \<and> EventType e = TypeEnd) E)"

lemma starts_ends_append [simp]:
  "starts (E @ E') f = starts E f + starts E' f" "ends (E @ E') f = ends E f + ends E' f"
  "starts [] f = 0" "ends [] f = 0"
  by (simp_all add: starts_def ends_def)

lemma starts_ends_single:
  "starts [e] f = (if FlowID e = f \<and> EventType e = TypeStart then 1 else 0)"
  "ends [e] f = (if FlowID e = f \<and> EventType e = TypeEnd then 1 else 0)"
  by (simp_all add: starts_def ends_def)

text \<open>The events of one change of an entry: an end event exactly when the entry becomes finished.\<close>

definition end_events :: "bool \<Rightarrow> uuid \<Rightarrow> EventFields list \<Rightarrow> bool" where
  "end_events b f es \<longleftrightarrow> (if b then \<exists>e. es = [e] \<and> FlowID e = f \<and> EventType e = TypeEnd else es = [])"

definition acc_inv :: "('c \<Rightarrow> uuid) \<Rightarrow> ('c \<Rightarrow> bool) \<Rightarrow> ('k, 'c) gmap \<Rightarrow> EventFields list \<Rightarrow> bool" where
  "acc_inv fid fin m E \<longleftrightarrow>
     (\<forall>k c. gget m k = Some c \<longrightarrow> starts E (fid c) = 1 \<and> ends E (fid c) = (if fin c then 1 else 0)) \<and>
     (\<forall>k c k' c'. gget m k = Some c \<longrightarrow> gget m k' = Some c' \<longrightarrow> fid c = fid c' \<longrightarrow> k = k') \<and>
     (\<forall>f. (\<forall>k c. gget m k = Some c \<longrightarrow> fid c \<noteq> f) \<longrightarrow> ends E f = starts E f \<and> starts E f \<le> 1)"

definition fresh_flow :: "('c \<Rightarrow> uuid) \<Rightarrow> ('k, 'c) gmap \<Rightarrow> EventFields list \<Rightarrow> uuid \<Rightarrow> bool" where
  "fresh_flow fid m E f \<longleftrightarrow> starts E f = 0 \<and> ends E f = 0 \<and> (\<forall>k c. gget m k = Some c \<longrightarrow> fid c \<noteq> f)"

lemma acc_empty: "acc_inv fid fin [] []"
  by (simp add: acc_inv_def)

lemma acc_update:
  assumes "acc_inv fid fin m E" and "gget m k = Some c" and "fid c' = fid c"
    and "fin c \<longrightarrow> fin c'" and "end_events (fin c' \<and> \<not> fin c) (fid c) es"
  shows "acc_inv fid fin (gput k c' m) (E @ es)"
proof -
  have own: "starts es f = 0" "ends es f = (if f = fid c \<and> fin c' \<and> \<not> fin c then 1 else 0)" for f
    using assms(5) by (auto simp: end_events_def starts_ends_single split: if_splits)
  have other: "fid d \<noteq> fid c" if "gget m k' = Some d" "k' \<noteq> k" for k' d
    using assms(1,2) that unfolding acc_inv_def by metis
  show ?thesis unfolding acc_inv_def
  proof (intro conjI allI impI)
    fix k' d assume d: "gget (gput k c' m) k' = Some d"
    show "starts (E @ es) (fid d) = 1" and "ends (E @ es) (fid d) = (if fin d then 1 else 0)"
      using d assms(1-4) own other by (auto simp: acc_inv_def split: if_splits)
  next
    fix k1 d1 k2 d2
    assume "gget (gput k c' m) k1 = Some d1" "gget (gput k c' m) k2 = Some d2" "fid d1 = fid d2"
    then show "k1 = k2" using assms(1,3) other by (auto simp: acc_inv_def split: if_splits)
  next
    fix f assume f: "\<forall>k' d. gget (gput k c' m) k' = Some d \<longrightarrow> fid d \<noteq> f"
    have "fid c \<noteq> f" using f [rule_format, of k c'] assms(3) by simp
    moreover from this have "\<forall>k' d. gget m k' = Some d \<longrightarrow> fid d \<noteq> f"
      using f assms(2) by (metis gget_gput option.inject)
    ultimately show "ends (E @ es) f = starts (E @ es) f" and "starts (E @ es) f \<le> 1"
      using assms(1) own by (auto simp: acc_inv_def)
  qed
qed

lemma acc_remove:
  assumes "acc_inv fid fin m E" and "gget m k = Some c" and "end_events (\<not> fin c) (fid c) es"
  shows "acc_inv fid fin (gdel k m) (E @ es)"
proof -
  have own: "starts es f = 0" "ends es f = (if f = fid c \<and> \<not> fin c then 1 else 0)" for f
    using assms(3) by (auto simp: end_events_def starts_ends_single split: if_splits)
  have other: "fid d \<noteq> fid c" if "gget m k' = Some d" "k' \<noteq> k" for k' d
    using assms(1,2) that unfolding acc_inv_def by metis
  show ?thesis unfolding acc_inv_def
  proof (intro conjI allI impI)
    fix k' d assume "gget (gdel k m) k' = Some d"
    then have "gget m k' = Some d" "k' \<noteq> k" by (auto split: if_splits)
    then show "starts (E @ es) (fid d) = 1" and "ends (E @ es) (fid d) = (if fin d then 1 else 0)"
      using assms(1) own other by (auto simp: acc_inv_def)
  next
    fix k1 d1 k2 d2
    assume "gget (gdel k m) k1 = Some d1" "gget (gdel k m) k2 = Some d2" "fid d1 = fid d2"
    then show "k1 = k2" using assms(1) by (auto simp: acc_inv_def split: if_splits)
  next
    fix f assume f: "\<forall>k' d. gget (gdel k m) k' = Some d \<longrightarrow> fid d \<noteq> f"
    have "ends (E @ es) f = starts (E @ es) f \<and> starts (E @ es) f \<le> 1"
    proof (cases "f = fid c")
      case True
      then show ?thesis using assms(1,2) own by (auto simp: acc_inv_def)
    next
      case False
      then have "\<forall>k' d. gget m k' = Some d \<longrightarrow> fid d \<noteq> f"
        using f assms(2) by (metis gget_gdel option.inject)
      then show ?thesis using assms(1) own False by (auto simp: acc_inv_def)
    qed
    then show "ends (E @ es) f = starts (E @ es) f" and "starts (E @ es) f \<le> 1" by auto
  qed
qed

lemma acc_insert:
  assumes "acc_inv fid fin m E" and "\<forall>c0. gget m k = Some c0 \<longrightarrow> fin c0"
    and "fresh_flow fid m E (fid c)" and "\<not> fin c" and "FlowID e = fid c" "EventType e = TypeStart"
  shows "acc_inv fid fin (gput k c m) (E @ [e])"
proof -
  have own: "starts [e] f = (if f = fid c then 1 else 0)" "ends [e] f = 0" for f
    using assms(5,6) by (auto simp: starts_ends_single)
  have other: "fid d \<noteq> fid c" if "gget m k' = Some d" for k' d
    using assms(3) that by (auto simp: fresh_flow_def)
  show ?thesis unfolding acc_inv_def
  proof (intro conjI allI impI)
    fix k' d assume "gget (gput k c m) k' = Some d"
    then consider "d = c" | "gget m k' = Some d" by (metis gget_gput option.inject)
    then have "starts (E @ [e]) (fid d) = 1 \<and> ends (E @ [e]) (fid d) = (if fin d then 1 else 0)"
    proof cases
      case 1
      then show ?thesis using assms(3,4) own by (simp add: fresh_flow_def)
    next
      case 2
      then have "starts E (fid d) = 1 \<and> ends E (fid d) = (if fin d then 1 else 0)"
        using assms(1) unfolding acc_inv_def by blast
      then show ?thesis using own other [OF 2] by simp
    qed
    then show "starts (E @ [e]) (fid d) = 1" "ends (E @ [e]) (fid d) = (if fin d then 1 else 0)" by auto
  next
    fix k1 d1 k2 d2
    assume "gget (gput k c m) k1 = Some d1" "gget (gput k c m) k2 = Some d2" "fid d1 = fid d2"
    then show "k1 = k2" using assms(1) other unfolding acc_inv_def by (metis gget_gput option.inject)
  next
    fix f assume f: "\<forall>k' d. gget (gput k c m) k' = Some d \<longrightarrow> fid d \<noteq> f"
    have ne: "f \<noteq> fid c" using f [rule_format, of k c] by simp
    have "ends E f = starts E f \<and> starts E f \<le> 1"
    proof (cases "\<exists>k' d. gget m k' = Some d \<and> fid d = f")
      case True
      then obtain k' d where d: "gget m k' = Some d" "fid d = f" by blast
      then have "k' = k" using f [rule_format, of k' d] by (cases "k' = k") simp_all
      then have "fin d" using d assms(2) by simp
      then show ?thesis using d assms(1) unfolding acc_inv_def by fastforce
    next
      case False
      then show ?thesis using assms(1) unfolding acc_inv_def by blast
    qed
    then show "ends (E @ [e]) f = starts (E @ [e]) f" and "starts (E @ [e]) f \<le> 1" using own ne by auto
  qed
qed

text \<open>What the accounting says of each flow.\<close>

lemma acc_balance:
  assumes "acc_inv fid fin m E"
  shows "starts E f \<le> 1" and "ends E f \<le> starts E f"
    and "ends E f < starts E f \<longleftrightarrow> (\<exists>k c. gget m k = Some c \<and> fid c = f \<and> \<not> fin c)"
proof -
  have "starts E f \<le> 1 \<and> ends E f \<le> starts E f \<and>
    (ends E f < starts E f \<longleftrightarrow> (\<exists>k c. gget m k = Some c \<and> fid c = f \<and> \<not> fin c))"
  proof (cases "\<exists>k c. gget m k = Some c \<and> fid c = f")
    case True
    then obtain k c where c: "gget m k = Some c" "fid c = f" by blast
    have "c' = c" if "gget m k' = Some c'" "fid c' = f" for k' c'
      using assms c that unfolding acc_inv_def by (metis option.inject)
    then have "(\<exists>k d. gget m k = Some d \<and> fid d = f \<and> \<not> fin d) \<longleftrightarrow> \<not> fin c" using c by blast
    moreover have "starts E f = 1 \<and> ends E f = (if fin c then 1 else 0)"
      using assms c unfolding acc_inv_def by blast
    ultimately show ?thesis by simp
  next
    case False
    then have "ends E f = starts E f \<and> starts E f \<le> 1" using assms unfolding acc_inv_def by blast
    then show ?thesis using False by auto
  qed
  then show "starts E f \<le> 1" "ends E f \<le> starts E f"
    "ends E f < starts E f \<longleftrightarrow> (\<exists>k c. gget m k = Some c \<and> fid c = f \<and> \<not> fin c)" by auto
qed

section \<open>Eviction policies\<close>

definition iterates :: "'k list \<Rightarrow> ('k, 'c) gmap \<Rightarrow> bool" where
  "iterates order m \<longleftrightarrow> distinct order \<and> set order = set (gkeys m)"

definition within_cap :: "('k, 'c, 'x) tracker_scheme \<Rightarrow> bool" where
  "within_cap t \<longleftrightarrow> gwf (conns t) \<and> (0 < maxEntries t \<longrightarrow> int (length (conns t)) \<le> maxEntries t)"

locale evicting_table =
  fixes evict :: "'k list \<Rightarrow> ('k, 'c, 'x) tracker_scheme \<Rightarrow> ('k, 'c, 'x) tracker_scheme"
    and fid :: "'c \<Rightarrow> uuid" and fin :: "'c \<Rightarrow> bool"
  assumes evict_one: "iterates order (conns t) \<Longrightarrow> conns t \<noteq> [] \<Longrightarrow>
    \<exists>k c es. gget (conns t) k = Some c \<and> evict order t = StoreEvents es (set_conns (gdel k (conns t)) t) \<and>
      end_events (\<not> fin c) (fid c) es"
begin

lemma insert_conn_ok:
  assumes "iterates order (conns t)" and "connections t = Some m" and "within_cap t"
  shows "\<exists>t' m' es. insert_conn evict order k c t = Some t' \<and> connections t' = Some (gput k c m') \<and>
    (m' = m \<and> es = [] \<or> (\<exists>k0 c0. gget m k0 = Some c0 \<and> m' = gdel k0 m \<and> end_events (\<not> fin c0) (fid c0) es)) \<and>
    t' = StoreEvents es (set_conns (gput k c m') t) \<and> within_cap t'"
proof (cases "0 < maxEntries t \<and> maxEntries t \<le> int (length m)")
  case False
  then show ?thesis using assms
    by (intro exI [of _ "t\<lparr> connections := Some (gput k c m) \<rparr>"] exI [of _ m] exI [of _ "[]"])
      (auto simp: insert_conn_def within_cap_def StoreEvents_def set_conns_def conns_def length_gput)
next
  case True
  then have "m \<noteq> []" by auto
  then obtain k0 c0 es where ev: "gget m k0 = Some c0" "evict order t = StoreEvents es (set_conns (gdel k0 m) t)"
    "end_events (\<not> fin c0) (fid c0) es" using evict_one [OF assms(1)] assms(2) by auto
  have "Suc (length (gdel k0 m)) = length m"
    using assms(2,3) ev(1) by (intro length_gdel) (auto simp: within_cap_def)
  then show ?thesis using True assms ev
    by (intro exI [of _ "StoreEvents es (set_conns (gput k c (gdel k0 m)) t)"] exI [of _ "gdel k0 m"] exI [of _ es])
      (auto simp: insert_conn_def within_cap_def StoreEvents_def set_conns_def conns_def length_gput)
qed

lemma insert_conn_acc:
  assumes "iterates order (conns t)" and "connections t = Some m" and "within_cap t"
    and "acc_inv fid fin m (flowLogger t)" and "fresh_flow fid m (flowLogger t) (fid c)" and "\<not> fin c"
    and "\<forall>c0. gget m k = Some c0 \<longrightarrow> fin c0"
    and "FlowID e = fid c" "EventType e = TypeStart"
  shows "\<exists>t'. insert_conn evict order k c t = Some t' \<and> within_cap t' \<and>
    acc_inv fid fin (conns (StoreEvents [e] t')) (flowLogger (StoreEvents [e] t'))"
proof -
  from insert_conn_ok [OF assms(1-3), of k c] obtain t' m' es where
    t': "insert_conn evict order k c t = Some t'" "connections t' = Some (gput k c m')" "within_cap t'"
      "t' = StoreEvents es (set_conns (gput k c m') t)"
    and m': "m' = m \<and> es = [] \<or> (\<exists>k0 c0. gget m k0 = Some c0 \<and> m' = gdel k0 m \<and> end_events (\<not> fin c0) (fid c0) es)"
    by blast
  have log: "flowLogger t' = flowLogger t @ es" unfolding t'(4) by simp
  have sub: "gget m k' = Some d" if "gget m' k' = Some d" for k' d
    using m' that by (auto split: if_splits)
  have "acc_inv fid fin m' (flowLogger t @ es)" using m' assms(4) acc_remove by fastforce
  moreover have "fresh_flow fid m' (flowLogger t @ es) (fid c)"
    using m' assms(5) sub unfolding fresh_flow_def
    by (auto simp: end_events_def starts_ends_single split: if_splits)
  ultimately have "acc_inv fid fin (gput k c m') ((flowLogger t @ es) @ [e])"
    using assms(6-9) sub by (intro acc_insert) auto
  then show ?thesis using t'(1-3) log by simp
qed

end

section \<open>Eviction of the oldest sampled entry\<close>

text \<open>
  The eviction of the UDP and of the ICMP tracker, which differ only in the event they store:
  \<open>end_event\<close> is that event.
\<close>

definition evict_sampled ::
    "('b base_conn_scheme \<Rightarrow> EventFields) \<Rightarrow> 'k list \<Rightarrow> ('k, 'b base_conn_scheme, 'x) tracker_scheme \<Rightarrow>
     ('k, 'b base_conn_scheme, 'x) tracker_scheme" where
  "evict_sampled end_event order t =
     (case sample_oldest (\<lambda>k. map_option lastSeen (gget (conns t) k)) evictSampleSize order None of
        None \<Rightarrow> t
      | Some (candKey, _) \<Rightarrow>
          let es = (case gget (conns t) candKey of None \<Rightarrow> [] | Some evicted \<Rightarrow> [end_event evicted])
          in StoreEvents es (set_conns (gdel candKey (conns t)) t))"

lemma evict_sampled_one:
  assumes "\<And>c. FlowID (end_event c) = FlowId c" and "\<And>c. EventType (end_event c) = TypeEnd"
    and "iterates order (conns t)" and "conns t \<noteq> []"
  shows "\<exists>k c es. gget (conns t) k = Some c \<and>
    evict_sampled end_event order t = StoreEvents es (set_conns (gdel k (conns t)) t) \<and>
    end_events True (FlowId c) es"
proof -
  let ?seen = "\<lambda>k. map_option lastSeen (gget (conns t) k)"
  from assms(4) obtain k0 c0 where k0: "gget (conns t) k0 = Some c0" by (rule gmap_neE)
  then have "k0 \<in> set order" using assms(3) by (auto simp: iterates_def dest: gget_Some_key)
  then have "sample_oldest ?seen evictSampleSize order None \<noteq> None"
    using k0 by (intro sample_oldest_Some) (auto simp: evictSampleSize_def)
  then obtain k s where ks: "sample_oldest ?seen evictSampleSize order None = Some (k, s)" by auto
  from sample_oldest_key [OF ks] obtain c where c: "gget (conns t) k = Some c" by auto
  then show ?thesis using ks assms(1,2)
    by (intro exI [of _ k] exI [of _ c] exI [of _ "[end_event c]"])
      (simp add: evict_sampled_def end_events_def)
qed

lemma tracked_evict_sampled: "tracked (evict_sampled end_event order t) k \<Longrightarrow> tracked t k"
  by (auto simp: evict_sampled_def Let_def tracked_simps split: option.splits)

text \<open>
  The clean-up loop of the UDP and of the ICMP tracker: entries idle for longer than \<open>tmo\<close> are
  deleted and reported.
\<close>

fun cleanup_idle ::
    "('b base_conn_scheme \<Rightarrow> EventFields) \<Rightarrow> int \<Rightarrow> int \<Rightarrow> 'k list \<Rightarrow>
     ('k, 'b base_conn_scheme, 'x) tracker_scheme \<Rightarrow> ('k, 'b base_conn_scheme, 'x) tracker_scheme" where
  "cleanup_idle end_event now tmo [] t = t"
| "cleanup_idle end_event now tmo (k # ks) t =
     (case gget (conns t) k of
        None \<Rightarrow> cleanup_idle end_event now tmo ks t
      | Some c \<Rightarrow>
          if timeoutExceeded now tmo c
          then cleanup_idle end_event now tmo ks (StoreEvents [end_event c] (set_conns (gdel k (conns t)) t))
          else cleanup_idle end_event now tmo ks t)"

lemma tracked_cleanup_idle: "tracked (cleanup_idle e now tmo ks t) k \<Longrightarrow> tracked t k"
  by (induction e now tmo ks t rule: cleanup_idle.induct)
    (auto simp: tracked_simps split: option.splits if_splits)

text \<open>Tables all of whose entries are open flows, as in the UDP tracker.\<close>

definition open_inv :: "('k, 'b base_conn_scheme, 'x) tracker_scheme \<Rightarrow> bool" where
  "open_inv t \<longleftrightarrow> connections t \<noteq> None \<and> within_cap t \<and>
     acc_inv FlowId (\<lambda>_. False) (conns t) (flowLogger t)"

lemma within_cap_put:
  assumes "within_cap t" and "gget (conns t) k \<noteq> None"
  shows "within_cap (StoreEvents es (set_conns (gput k c (conns t)) t))"
  using assms by (auto simp: within_cap_def conns_set_conns length_gput)

lemma within_cap_del:
  assumes "within_cap t" and "gget (conns t) k \<noteq> None"
  shows "within_cap (StoreEvents es (set_conns (gdel k (conns t)) t))"
  using assms length_gdel_less [OF assms(2)] by (auto simp: within_cap_def conns_set_conns)

lemma open_inv_put:
  assumes "open_inv t" and "gget (conns t) k = Some c" and "FlowId c' = FlowId c"
  shows "open_inv (set_conns (gput k c' (conns t)) t)"
  using assms within_cap_put [of t k "[]" c'] acc_update [of FlowId "\<lambda>_. False" "conns t" "flowLogger t" k c c' "[]"]
  by (auto simp: open_inv_def conns_set_conns set_conns_def end_events_def)

lemma open_inv_del:
  assumes "open_inv t" and "gget (conns t) k = Some c" and "FlowID e = FlowId c" "EventType e = TypeEnd"
  shows "open_inv (StoreEvents [e] (set_conns (gdel k (conns t)) t))"
  using assms within_cap_del [of t k "[e]"] acc_remove [of FlowId "\<lambda>_. False" "conns t" "flowLogger t" k c "[e]"]
  by (auto simp: open_inv_def conns_set_conns set_conns_def end_events_def StoreEvents_def conns_def
      split: option.splits)

lemma open_inv_cleanup:
  assumes "\<And>c. FlowID (e c) = FlowId c" and "\<And>c. EventType (e c) = TypeEnd"
  shows "open_inv t \<Longrightarrow> open_inv (cleanup_idle e now tmo ks t)"
  using assms
proof (induction e now tmo ks t rule: cleanup_idle.induct)
  case (2 e now tmo k ks t)
  then show ?case using open_inv_del by (fastforce split: option.splits)
qed simp

end
