(* ===== verification/ConntrackTCP.thy ===== *)
theory ConntrackTCP
  imports Conntrack
begin

text \<open>
  The TCP tracker of the userspace firewall, \<open>client/firewall/uspfilter/conntrack/tcp.go\<close>: the state
  machine driven by the flags of each packet, the table with its eviction and periodic clean-up, and
  the flow events. \<open>tcp_exec\<close> runs one entry point of the tracker; \<open>tcp_step\<close> is the step relation of
  a tracker before \<open>Close\<close>, in which a new flow gets a fresh identifier and the map iterations visit
  every entry.
\<close>

section \<open>Constants and state\<close>

definition minute :: int where "minute = 60 * 1000000000"
definition MSL :: int where "MSL = 2 * minute"
definition TimeWaitTimeout :: int where "TimeWaitTimeout = 2 * MSL"
definition TCPFin :: byte where "TCPFin = 0x01"
definition TCPSyn :: byte where "TCPSyn = 0x02"
definition TCPRst :: byte where "TCPRst = 0x04"
definition TCPPush :: byte where "TCPPush = 0x08"
definition TCPAck :: byte where "TCPAck = 0x10"
definition TCPUrg :: byte where "TCPUrg = 0x20"
definition DefaultTCPTimeout :: int where "DefaultTCPTimeout = 180 * minute"
definition TCPHandshakeTimeout :: int where "TCPHandshakeTimeout = minute"
definition FinWaitTimeout :: int where "FinWaitTimeout = minute"
definition CloseWaitTimeout :: int where "CloseWaitTimeout = minute"
definition LastAckTimeout :: int where "LastAckTimeout = 30 * 1000000000"
definition DefaultMaxTCPEntries :: int where "DefaultMaxTCPEntries = 65536"

datatype TCPState = TCPStateNew | TCPStateSynSent | TCPStateSynReceived | TCPStateEstablished
  | TCPStateFinWait1 | TCPStateFinWait2 | TCPStateClosing | TCPStateTimeWait | TCPStateCloseWait
  | TCPStateLastAck | TCPStateClosed

record tcp_conn = base_conn +
  SourcePort :: u16
  DestPort :: u16
  tcp_state :: TCPState
  tombstone :: bool

record tcp_tracker = "(ConnKey, tcp_conn) tracker" +
  timeout :: int
  waitTimeout :: int
  finWaitTimeout :: int
  closeWaitTimeout :: int
  lastAckTimeout :: int

text \<open>
  The environment overrides: the value of the variable and the standard library's parser are
  arguments.
\<close>

definition envDuration :: "(string \<Rightarrow> int option) \<Rightarrow> string \<Rightarrow> int \<Rightarrow> int" where
  "envDuration ParseDuration v dflt =
     (if v = [] then dflt
      else case ParseDuration v of None \<Rightarrow> dflt | Some d \<Rightarrow> if d \<le> 0 then dflt else d)"

definition envInt :: "(string \<Rightarrow> int option) \<Rightarrow> string \<Rightarrow> int \<Rightarrow> int" where
  "envInt Atoi v dflt =
     (if v = [] then dflt
      else case Atoi v of None \<Rightarrow> dflt | Some n \<Rightarrow> if n \<le> 0 then dflt else n)"

definition NewTCPTracker :: "int \<Rightarrow> int \<Rightarrow> int \<Rightarrow> int \<Rightarrow> int \<Rightarrow> tcp_tracker" where
  "NewTCPTracker tmo finWait closeWait lastAck maxE =
     \<lparr> connections = Some [], maxEntries = maxE, flowLogger = [],
       timeout = (if tmo = 0 then DefaultTCPTimeout else tmo),
       waitTimeout = (if tmo = 0 then TimeWaitTimeout else if tmo < 0 then - (- tmo div 45) else tmo div 45),
       finWaitTimeout = finWait, closeWaitTimeout = closeWait, lastAckTimeout = lastAck \<rparr>"

abbreviation has_flag :: "byte \<Rightarrow> byte \<Rightarrow> bool" where
  "has_flag flags f \<equiv> flags AND f \<noteq> 0"

definition CompareAndSwapState :: "TCPState \<Rightarrow> TCPState \<Rightarrow> tcp_conn \<Rightarrow> tcp_conn \<times> bool" where
  "CompareAndSwapState old newState c =
     (if tcp_state c = old then (c\<lparr> tcp_state := newState \<rparr>, True) else (c, False))"

definition IsSupersededBy :: "tcp_conn \<Rightarrow> byte \<Rightarrow> bool" where
  "IsSupersededBy c flags =
     (tombstone c \<or>
      has_flag flags TCPSyn \<and> \<not> has_flag flags TCPAck \<and> tcp_state c = TCPStateTimeWait)"

definition isValidFlagCombination :: "byte \<Rightarrow> bool" where
  "isValidFlagCombination flags =
     (if has_flag flags TCPSyn \<and> has_flag flags TCPFin then False
      else if has_flag flags TCPRst \<and> (has_flag flags TCPSyn \<or> has_flag flags TCPFin) then False
      else True)"

definition tcp_sendEvent :: "event_type \<Rightarrow> tcp_conn \<Rightarrow> bytes \<Rightarrow> EventFields" where
  "tcp_sendEvent typ c ruleID =
     \<lparr> FlowID = FlowId c, EventType = typ, RuleID = ruleID, ev_dir = conn_dir c, Protocol = proto_TCP,
       ev_src = SourceIP c, ev_dst = DestIP c, ev_sport = SourcePort c, ev_dport = DestPort c,
       ev_icmp_type = 0, ev_icmp_code = 0, RxPackets = PacketsRx c, TxPackets = PacketsTx c,
       RxBytes = BytesRx c, TxBytes = BytesTx c \<rparr>"

section \<open>The state machine\<close>

text \<open>A transition function returns the zero state, \<open>TCPStateNew\<close>, for no transition.\<close>

definition transNew :: "byte \<Rightarrow> Direction \<Rightarrow> bool \<Rightarrow> TCPState" where
  "transNew flags connDir same =
     (if has_flag flags TCPSyn \<and> \<not> has_flag flags TCPAck
      then (if connDir = Egress then TCPStateSynSent else TCPStateSynReceived) else TCPStateNew)"

definition transSynSent :: "byte \<Rightarrow> Direction \<Rightarrow> bool \<Rightarrow> TCPState" where
  "transSynSent flags connDir same =
     (if has_flag flags TCPSyn \<and> has_flag flags TCPAck
      then (if same then TCPStateSynReceived else TCPStateEstablished) else TCPStateNew)"

definition transSynReceived :: "byte \<Rightarrow> Direction \<Rightarrow> bool \<Rightarrow> TCPState" where
  "transSynReceived flags connDir same =
     (if has_flag flags TCPAck \<and> \<not> has_flag flags TCPSyn \<and> same
      then TCPStateEstablished else TCPStateNew)"

definition transEstablished :: "byte \<Rightarrow> Direction \<Rightarrow> bool \<Rightarrow> TCPState" where
  "transEstablished flags connDir same =
     (if \<not> has_flag flags TCPFin then TCPStateNew
      else if same then TCPStateFinWait1 else TCPStateCloseWait)"

definition transFinWait1 :: "byte \<Rightarrow> Direction \<Rightarrow> bool \<Rightarrow> TCPState" where
  "transFinWait1 flags connDir same =
     (if same then TCPStateNew
      else if has_flag flags TCPFin \<and> has_flag flags TCPAck then TCPStateTimeWait
      else if has_flag flags TCPFin then TCPStateClosing
      else if has_flag flags TCPAck then TCPStateFinWait2
      else TCPStateNew)"

definition transFinWait2 :: "byte \<Rightarrow> Direction \<Rightarrow> bool \<Rightarrow> TCPState" where
  "transFinWait2 flags connDir same =
     (if has_flag flags TCPFin \<and> \<not> same then TCPStateTimeWait else TCPStateNew)"

definition transClosing :: "byte \<Rightarrow> Direction \<Rightarrow> bool \<Rightarrow> TCPState" where
  "transClosing flags connDir same =
     (if has_flag flags TCPAck \<and> \<not> same then TCPStateTimeWait else TCPStateNew)"

definition transCloseWait :: "byte \<Rightarrow> Direction \<Rightarrow> bool \<Rightarrow> TCPState" where
  "transCloseWait flags connDir same =
     (if has_flag flags TCPFin \<and> same then TCPStateLastAck else TCPStateNew)"

definition transLastAck :: "byte \<Rightarrow> Direction \<Rightarrow> bool \<Rightarrow> TCPState" where
  "transLastAck flags connDir same =
     (if has_flag flags TCPAck \<and> \<not> same then TCPStateClosed else TCPStateNew)"

fun stateTable :: "TCPState \<Rightarrow> (byte \<Rightarrow> Direction \<Rightarrow> bool \<Rightarrow> TCPState) option" where
  "stateTable TCPStateNew = Some transNew"
| "stateTable TCPStateSynSent = Some transSynSent"
| "stateTable TCPStateSynReceived = Some transSynReceived"
| "stateTable TCPStateEstablished = Some transEstablished"
| "stateTable TCPStateFinWait1 = Some transFinWait1"
| "stateTable TCPStateFinWait2 = Some transFinWait2"
| "stateTable TCPStateClosing = Some transClosing"
| "stateTable TCPStateCloseWait = Some transCloseWait"
| "stateTable TCPStateLastAck = Some transLastAck"
| "stateTable _ = None"

definition nextState :: "TCPState \<Rightarrow> Direction \<Rightarrow> Direction \<Rightarrow> byte \<Rightarrow> TCPState" where
  "nextState currentState connDir packetDir flags =
     (case stateTable currentState of
        None \<Rightarrow> TCPStateNew
      | Some fn \<Rightarrow> fn flags connDir (packetDir = connDir))"

definition handleRst :: "tcp_conn \<Rightarrow> TCPState \<Rightarrow> Direction \<Rightarrow> tcp_conn \<times> EventFields list" where
  "handleRst c currentState packetDir =
     (if currentState = TCPStateTimeWait then (c, [])
      else if currentState = TCPStateSynSent \<and> packetDir = conn_dir c then (c, [])
      else let (c', swapped) = CompareAndSwapState currentState TCPStateClosed c
           in if \<not> swapped then (c', [])
              else let c'' = c'\<lparr> tombstone := True \<rparr> in (c'', [tcp_sendEvent TypeEnd c'' []]))"

definition onTransition :: "tcp_conn \<Rightarrow> TCPState \<Rightarrow> tcp_conn \<times> EventFields list" where
  "onTransition c to =
     (if to = TCPStateTimeWait then (c, [tcp_sendEvent TypeEnd c []])
      else if to = TCPStateClosed
      then (c\<lparr> tombstone := True \<rparr>, [tcp_sendEvent TypeEnd (c\<lparr> tombstone := True \<rparr>) []])
      else (c, []))"

definition updateState :: "int \<Rightarrow> byte \<Rightarrow> Direction \<Rightarrow> int \<Rightarrow> tcp_conn \<Rightarrow> tcp_conn \<times> EventFields list" where
  "updateState now flags packetDir sz c =
     (let c = UpdateCounters packetDir sz c
      in if \<not> isValidFlagCombination flags then (c, [])
         else let c = UpdateLastSeen now c;
                  currentState = tcp_state c
              in if has_flag flags TCPRst then handleRst c currentState packetDir
                 else let newState = nextState currentState (conn_dir c) packetDir flags
                      in if newState = TCPStateNew then (c, [])
                         else let (c', swapped) = CompareAndSwapState currentState newState c
                              in if \<not> swapped then (c', []) else onTransition c' newState)"

definition isValidStateForFlags :: "TCPState \<Rightarrow> byte \<Rightarrow> bool" where
  "isValidStateForFlags state flags =
     (if has_flag flags TCPRst then (if state = TCPStateSynSent then has_flag flags TCPAck else True)
      else case state of
        TCPStateNew \<Rightarrow> has_flag flags TCPSyn \<and> \<not> has_flag flags TCPAck
      | TCPStateSynSent \<Rightarrow> has_flag flags TCPSyn \<and> has_flag flags TCPAck
      | TCPStateSynReceived \<Rightarrow> has_flag flags TCPAck
      | TCPStateEstablished \<Rightarrow> has_flag flags TCPAck
      | TCPStateFinWait1 \<Rightarrow> has_flag flags TCPFin \<or> has_flag flags TCPAck
      | TCPStateFinWait2 \<Rightarrow> has_flag flags TCPFin \<or> has_flag flags TCPAck
      | TCPStateClosing \<Rightarrow> has_flag flags TCPAck
      | TCPStateTimeWait \<Rightarrow> has_flag flags TCPAck
      | TCPStateCloseWait \<Rightarrow> has_flag flags TCPFin \<or> has_flag flags TCPAck
      | TCPStateLastAck \<Rightarrow> has_flag flags TCPAck
      | TCPStateClosed \<Rightarrow> has_flag flags TCPAck)"

section \<open>The tracker\<close>

definition put_conn :: "ConnKey \<Rightarrow> tcp_conn \<times> EventFields list \<Rightarrow> tcp_tracker \<Rightarrow> tcp_tracker" where
  "put_conn key r t = StoreEvents (snd r) (set_conns (gput key (fst r) (conns t)) t)"

text \<open>The returned port is \<open>Some\<close> when the packet belonged to a tracked connection.\<close>

definition tcp_updateIfExists ::
    "int \<Rightarrow> ConnKey \<Rightarrow> byte \<Rightarrow> Direction \<Rightarrow> int \<Rightarrow> tcp_tracker \<Rightarrow> tcp_tracker \<times> u16 option" where
  "tcp_updateIfExists now key flags direction sz t =
     (case gget (conns t) key of
        Some c \<Rightarrow>
          if \<not> IsSupersededBy c flags
          then (put_conn key (updateState now flags direction sz c) t, Some (ucast (DNATOrigPort c)))
          else (t, None)
      | None \<Rightarrow> (t, None))"

text \<open>The scan of the eviction: \<open>Inl\<close> is a tombstone to delete, \<open>Inr\<close> the candidate.\<close>

fun tcp_evict_scan ::
    "(ConnKey, tcp_conn) gmap \<Rightarrow> nat \<Rightarrow> ConnKey list \<Rightarrow> (ConnKey \<times> int) option \<Rightarrow>
     ConnKey + (ConnKey \<times> int) option" where
  "tcp_evict_scan m 0 ks cand = Inr cand"
| "tcp_evict_scan m n [] cand = Inr cand"
| "tcp_evict_scan m (Suc n) (k # ks) cand =
     (case gget m k of
        None \<Rightarrow> tcp_evict_scan m (Suc n) ks cand
      | Some c \<Rightarrow>
          if tombstone c then Inl k
          else tcp_evict_scan m n ks
                 (case cand of
                    None \<Rightarrow> Some (k, lastSeen c)
                  | Some (_, s0) \<Rightarrow> if lastSeen c < s0 then Some (k, lastSeen c) else cand))"

definition tcp_evictOneLocked :: "ConnKey list \<Rightarrow> tcp_tracker \<Rightarrow> tcp_tracker" where
  "tcp_evictOneLocked order t =
     (case tcp_evict_scan (conns t) evictSampleSize order None of
        Inl k \<Rightarrow> set_conns (gdel k (conns t)) t
      | Inr None \<Rightarrow> t
      | Inr (Some (candKey, _)) \<Rightarrow>
          let es = (case gget (conns t) candKey of
                      None \<Rightarrow> []
                    | Some evicted \<Rightarrow>
                        if tcp_state evicted \<noteq> TCPStateTimeWait \<and> \<not> tombstone evicted
                        then [tcp_sendEvent TypeEnd evicted []] else [])
          in StoreEvents es (set_conns (gdel candKey (conns t)) t))"

definition new_tcp_conn :: "uuid \<Rightarrow> Direction \<Rightarrow> ConnKey \<Rightarrow> u16 \<Rightarrow> tcp_conn" where
  "new_tcp_conn fid direction key origPort =
     \<lparr> FlowId = fid, conn_dir = direction, SourceIP = SrcIP key, DestIP = DstIP key, lastSeen = 0,
       PacketsTx = 0, PacketsRx = 0, BytesTx = 0, BytesRx = 0, DNATOrigPort = ucast origPort,
       SourcePort = SrcPort key, DestPort = DstPort key, tcp_state = TCPStateNew, tombstone = False \<rparr>"

definition tcp_track ::
    "int \<Rightarrow> uuid \<Rightarrow> ConnKey list \<Rightarrow> ConnKey \<Rightarrow> byte \<Rightarrow> Direction \<Rightarrow> bytes \<Rightarrow> int \<Rightarrow> u16 \<Rightarrow>
     tcp_tracker \<Rightarrow> tcp_tracker option" where
  "tcp_track now fid order key flags direction ruleID sz origPort t =
     (let (t', r) = tcp_updateIfExists now key flags direction sz t
      in if r \<noteq> None \<or> \<not> has_flag flags TCPSyn then Some t'
         else if \<not> isValidFlagCombination flags then Some t'
         else let (c, es) = updateState now flags direction sz (new_tcp_conn fid direction key origPort)
              in map_option (StoreEvents [tcp_sendEvent TypeStart c ruleID])
                   (insert_conn tcp_evictOneLocked order key c (StoreEvents es t')))"

definition swap_key :: "ConnKey \<Rightarrow> ConnKey" where
  "swap_key k = \<lparr> SrcIP = DstIP k, DstIP = SrcIP k, SrcPort = DstPort k, DstPort = SrcPort k \<rparr>"

text \<open>The key argument is the packet's source and destination; the result is the original port.\<close>

definition tcp_TrackOutbound ::
    "int \<Rightarrow> uuid \<Rightarrow> ConnKey list \<Rightarrow> ConnKey \<Rightarrow> byte \<Rightarrow> int \<Rightarrow> tcp_tracker \<Rightarrow> (tcp_tracker \<times> u16) option" where
  "tcp_TrackOutbound now fid order pkt flags sz t =
     (case tcp_updateIfExists now (swap_key pkt) flags Egress sz t of
        (t', Some origPort) \<Rightarrow> Some (t', origPort)
      | (t', None) \<Rightarrow>
          map_option (\<lambda>t''. (t'', 0)) (tcp_track now fid order pkt flags Egress [] sz 0 t'))"

definition tcp_TrackInbound ::
    "int \<Rightarrow> uuid \<Rightarrow> ConnKey list \<Rightarrow> ConnKey \<Rightarrow> byte \<Rightarrow> bytes \<Rightarrow> int \<Rightarrow> u16 \<Rightarrow> tcp_tracker \<Rightarrow> tcp_tracker option" where
  "tcp_TrackInbound now fid order pkt flags ruleID sz dnatOrigPort t =
     tcp_track now fid order pkt flags Ingress ruleID sz dnatOrigPort t"

definition tcp_IsValidInbound ::
    "int \<Rightarrow> ConnKey \<Rightarrow> byte \<Rightarrow> int \<Rightarrow> tcp_tracker \<Rightarrow> tcp_tracker \<times> bool" where
  "tcp_IsValidInbound now pkt flags sz t =
     (let key = swap_key pkt
      in case gget (conns t) key of
           None \<Rightarrow> (t, False)
         | Some c \<Rightarrow>
             if IsSupersededBy c flags then (t, False)
             else if \<not> isValidFlagCombination flags then (t, False)
             else if \<not> isValidStateForFlags (tcp_state c) flags then (t, False)
             else (put_conn key (updateState now flags Ingress sz c) t, True))"

definition state_timeout :: "tcp_tracker \<Rightarrow> TCPState \<Rightarrow> int" where
  "state_timeout t s =
     (case s of
        TCPStateTimeWait \<Rightarrow> waitTimeout t
      | TCPStateEstablished \<Rightarrow> timeout t
      | TCPStateFinWait1 \<Rightarrow> finWaitTimeout t
      | TCPStateFinWait2 \<Rightarrow> finWaitTimeout t
      | TCPStateClosing \<Rightarrow> finWaitTimeout t
      | TCPStateCloseWait \<Rightarrow> closeWaitTimeout t
      | TCPStateLastAck \<Rightarrow> lastAckTimeout t
      | _ \<Rightarrow> TCPHandshakeTimeout)"

fun tcp_cleanup_loop :: "int \<Rightarrow> ConnKey list \<Rightarrow> tcp_tracker \<Rightarrow> tcp_tracker" where
  "tcp_cleanup_loop now [] t = t"
| "tcp_cleanup_loop now (k # ks) t =
     (case gget (conns t) k of
        None \<Rightarrow> tcp_cleanup_loop now ks t
      | Some c \<Rightarrow>
          if tombstone c then tcp_cleanup_loop now ks (set_conns (gdel k (conns t)) t)
          else if timeoutExceeded now (state_timeout t (tcp_state c)) c then
            tcp_cleanup_loop now ks
              (StoreEvents (if tcp_state c \<noteq> TCPStateTimeWait then [tcp_sendEvent TypeEnd c []] else [])
                (set_conns (gdel k (conns t)) t))
          else tcp_cleanup_loop now ks t)"

definition tcp_cleanup :: "int \<Rightarrow> ConnKey list \<Rightarrow> tcp_tracker \<Rightarrow> tcp_tracker" where
  "tcp_cleanup now order t = tcp_cleanup_loop now order t"

definition tcp_GetConnection :: "addr \<Rightarrow> u16 \<Rightarrow> addr \<Rightarrow> u16 \<Rightarrow> tcp_tracker \<Rightarrow> tcp_conn option" where
  "tcp_GetConnection srcIP srcPort dstIP dstPort t =
     gget (conns t) \<lparr> SrcIP = srcIP, DstIP = dstIP, SrcPort = srcPort, DstPort = dstPort \<rparr>"

definition tcp_Close :: "tcp_tracker \<Rightarrow> tcp_tracker" where
  "tcp_Close t = t\<lparr> connections := None \<rparr>"

section \<open>Steps\<close>

datatype tcp_op =
    TOut int uuid "ConnKey list" ConnKey byte int
  | TIn int uuid "ConnKey list" ConnKey byte bytes int u16
  | TValid int ConnKey byte int
  | TClean int "ConnKey list"

fun tcp_exec :: "tcp_op \<Rightarrow> tcp_tracker \<Rightarrow> tcp_tracker option" where
  "tcp_exec (TOut now fid order pkt flags sz) t =
     map_option fst (tcp_TrackOutbound now fid order pkt flags sz t)"
| "tcp_exec (TIn now fid order pkt flags ruleID sz origPort) t =
     tcp_TrackInbound now fid order pkt flags ruleID sz origPort t"
| "tcp_exec (TValid now pkt flags sz) t = Some (fst (tcp_IsValidInbound now pkt flags sz t))"
| "tcp_exec (TClean now order) t = Some (tcp_cleanup now order t)"

fun tcp_op_ok :: "tcp_op \<Rightarrow> tcp_tracker \<Rightarrow> bool" where
  "tcp_op_ok (TOut now fid order pkt flags sz) t \<longleftrightarrow>
     fresh_flow FlowId (conns t) (flowLogger t) fid \<and> iterates order (conns t)"
| "tcp_op_ok (TIn now fid order pkt flags ruleID sz origPort) t \<longleftrightarrow>
     fresh_flow FlowId (conns t) (flowLogger t) fid \<and> iterates order (conns t)"
| "tcp_op_ok (TValid now pkt flags sz) t \<longleftrightarrow> True"
| "tcp_op_ok (TClean now order) t \<longleftrightarrow> iterates order (conns t)"

definition tcp_step :: "tcp_tracker \<Rightarrow> tcp_tracker \<Rightarrow> bool" where
  "tcp_step t t' \<longleftrightarrow> (\<exists>op. tcp_op_ok op t \<and> tcp_exec op t = Some t')"

definition tcp_start :: "tcp_tracker \<Rightarrow> bool" where
  "tcp_start t \<longleftrightarrow> (\<exists>tmo fw cw la mx. t = NewTCPTracker tmo fw cw la mx)"

section \<open>The state machine's lemmas\<close>

lemmas flag_defs = TCPFin_def TCPSyn_def TCPRst_def TCPPush_def TCPAck_def TCPUrg_def

lemmas trans_defs = transNew_def transSynSent_def transSynReceived_def transEstablished_def
  transFinWait1_def transFinWait2_def transClosing_def transCloseWait_def transLastAck_def

text \<open>An entry is finished when its end event has been stored.\<close>

definition tcp_fin :: "tcp_conn \<Rightarrow> bool" where
  "tcp_fin c \<longleftrightarrow> tombstone c \<or> tcp_state c = TCPStateTimeWait"

definition tcp_conn_ok :: "tcp_conn \<Rightarrow> bool" where
  "tcp_conn_ok c \<longleftrightarrow> (tombstone c \<longleftrightarrow> tcp_state c = TCPStateClosed)"

text \<open>How far a connection has come in its life.\<close>

fun tcp_rank :: "TCPState \<Rightarrow> nat" where
  "tcp_rank TCPStateNew = 0"
| "tcp_rank TCPStateSynSent = 1"
| "tcp_rank TCPStateSynReceived = 2"
| "tcp_rank TCPStateEstablished = 3"
| "tcp_rank TCPStateFinWait1 = 4"
| "tcp_rank TCPStateCloseWait = 4"
| "tcp_rank TCPStateFinWait2 = 5"
| "tcp_rank TCPStateClosing = 5"
| "tcp_rank TCPStateLastAck = 5"
| "tcp_rank TCPStateTimeWait = 6"
| "tcp_rank TCPStateClosed = 7"

lemma nextState_rank: "nextState s d p f \<noteq> TCPStateNew \<Longrightarrow> tcp_rank s < tcp_rank (nextState s d p f)"
  by (cases s) (auto simp: nextState_def trans_defs split: if_splits)

lemma UpdateCounters_tcp [simp]:
  "tcp_state (UpdateCounters d n c) = tcp_state c" "tombstone (UpdateCounters d n c) = tombstone c"
  by (simp_all add: UpdateCounters_def)

lemma UpdateLastSeen_tcp [simp]:
  "tcp_state (UpdateLastSeen now c) = tcp_state c" "tombstone (UpdateLastSeen now c) = tombstone c"
  by (simp_all add: UpdateLastSeen_def)

lemma tcp_sendEvent_simps [simp]:
  "FlowID (tcp_sendEvent typ c r) = FlowId c" "EventType (tcp_sendEvent typ c r) = typ"
  by (simp_all add: tcp_sendEvent_def)

lemma handleRst_eq:
  "handleRst c (tcp_state c) d =
    (if tcp_state c = TCPStateTimeWait \<or> tcp_state c = TCPStateSynSent \<and> d = conn_dir c then (c, [])
     else (let c' = c\<lparr> tcp_state := TCPStateClosed, tombstone := True \<rparr>
           in (c', [tcp_sendEvent TypeEnd c' []])))"
  by (simp add: handleRst_def CompareAndSwapState_def)

lemma updateState_eq:
  "updateState now flags d sz c =
    (let c1 = UpdateCounters d sz c; c2 = UpdateLastSeen now c1;
         s' = nextState (tcp_state c) (conn_dir c) d flags
     in if \<not> isValidFlagCombination flags then (c1, [])
        else if has_flag flags TCPRst then handleRst c2 (tcp_state c2) d
        else if s' = TCPStateNew then (c2, [])
        else onTransition (c2\<lparr> tcp_state := s' \<rparr>) s')"
  by (simp add: updateState_def CompareAndSwapState_def Let_def)

lemma nextState_TimeWait: "nextState TCPStateTimeWait d p f = TCPStateNew"
  and nextState_Closed: "nextState TCPStateClosed d p f = TCPStateNew"
  by (simp_all add: nextState_def)

lemma onTransition_spec:
  assumes "onTransition c s = (c', es)" and "tcp_state c = s" and "\<not> tombstone c" and "s \<noteq> TCPStateNew"
  shows "FlowId c' = FlowId c" "tcp_conn_ok c'" "end_events (tcp_fin c') (FlowId c) es"
  using assms by (auto simp: onTransition_def tcp_conn_ok_def tcp_fin_def end_events_def split: if_splits)

lemma handleRst_spec:
  assumes "handleRst c (tcp_state c) d = (c', es)" and "tcp_conn_ok c" and "\<not> tombstone c"
  shows "FlowId c' = FlowId c" "tcp_conn_ok c'" "tcp_fin c \<longrightarrow> tcp_fin c'"
    "end_events (tcp_fin c' \<and> \<not> tcp_fin c) (FlowId c) es"
  using assms unfolding handleRst_eq
  by (auto simp: tcp_conn_ok_def tcp_fin_def end_events_def Let_def split: if_splits)

lemma updateState_spec:
  assumes up: "updateState now flags d sz c = (c', es)" and ok: "tcp_conn_ok c" and "\<not> tombstone c"
  shows "FlowId c' = FlowId c \<and> tcp_conn_ok c' \<and> (tcp_fin c \<longrightarrow> tcp_fin c') \<and>
    end_events (tcp_fin c' \<and> \<not> tcp_fin c) (FlowId c) es"
proof -
  let ?c2 = "UpdateLastSeen now (UpdateCounters d sz c)"
  let ?s = "nextState (tcp_state c) (conn_dir c) d flags"
  have c2: "tcp_conn_ok ?c2" "\<not> tombstone ?c2" "tcp_fin ?c2 = tcp_fin c" using assms(2,3)
    by (simp_all add: tcp_conn_ok_def tcp_fin_def)
  consider "\<not> isValidFlagCombination flags" | "isValidFlagCombination flags" "has_flag flags TCPRst"
    | "isValidFlagCombination flags" "\<not> has_flag flags TCPRst" "?s = TCPStateNew"
    | "isValidFlagCombination flags" "\<not> has_flag flags TCPRst" "?s \<noteq> TCPStateNew" by blast
  then show ?thesis
  proof cases
    case 2
    then have "handleRst ?c2 (tcp_state ?c2) d = (c', es)" using up by (simp add: updateState_eq Let_def)
    from handleRst_spec [OF this c2(1,2)] c2(3) show ?thesis by simp
  next
    case 4
    then have on: "onTransition (?c2\<lparr> tcp_state := ?s \<rparr>) ?s = (c', es)"
      using up by (simp add: updateState_eq Let_def)
    have "\<not> tcp_fin c" using 4(3) ok assms(3) by (auto simp: tcp_fin_def nextState_TimeWait)
    then show ?thesis using onTransition_spec [OF on] 4(3) assms(3) by simp
  qed (use up assms(2,3) in \<open>auto simp: updateState_eq Let_def tcp_conn_ok_def tcp_fin_def end_events_def\<close>)
qed

text \<open>A new connection is created by a SYN packet and is not finished by it.\<close>

lemma new_conn_spec:
  assumes "updateState now flags d sz (new_tcp_conn fid d key op) = (c, es)"
    and "has_flag flags TCPSyn" and "isValidFlagCombination flags"
  shows "FlowId c = fid" "es = []" "tcp_conn_ok c" "\<not> tcp_fin c" "lastSeen c = now" "conn_dir c = d"
    "tcp_state c = (if has_flag flags TCPAck then TCPStateNew
       else if d = Egress then TCPStateSynSent else TCPStateSynReceived)"
proof -
  have "\<not> has_flag flags TCPRst" using assms(2,3) by (auto simp: isValidFlagCombination_def split: if_splits)
  then show "FlowId c = fid" "es = []" "tcp_conn_ok c" "\<not> tcp_fin c" "lastSeen c = now" "conn_dir c = d"
    "tcp_state c = (if has_flag flags TCPAck then TCPStateNew
       else if d = Egress then TCPStateSynSent else TCPStateSynReceived)"
    using assms
    by (auto simp: updateState_eq Let_def new_tcp_conn_def nextState_def transNew_def onTransition_def
        tcp_conn_ok_def tcp_fin_def split: if_splits)
qed

section \<open>Eviction\<close>

lemma tcp_evict_scan_Inl:
  "tcp_evict_scan m n ks cand = Inl k \<Longrightarrow> \<exists>c. gget m k = Some c \<and> tombstone c"
  by (induction m n ks cand rule: tcp_evict_scan.induct) (auto split: option.splits if_splits)

lemma tcp_evict_scan_Inr:
  assumes "tcp_evict_scan m n ks cand = Inr r"
  shows "(\<forall>k s. r = Some (k, s) \<longrightarrow> cand = Some (k, s) \<or> gget m k \<noteq> None) \<and>
    (cand \<noteq> None \<or> (\<exists>k\<in>set ks. gget m k \<noteq> None) \<and> 0 < n \<longrightarrow> r \<noteq> None)"
  using assms
proof (induction m n ks cand rule: tcp_evict_scan.induct)
  case (3 m n k ks cand)
  show ?case
  proof (cases "gget m k")
    case None
    then show ?thesis using 3 by auto
  next
    case (Some c)
    let ?cand = "case cand of None \<Rightarrow> Some (k, lastSeen c)
      | Some (_, s0) \<Rightarrow> if lastSeen c < s0 then Some (k, lastSeen c) else cand"
    have nt: "\<not> tombstone c" and r: "tcp_evict_scan m n ks ?cand = Inr r"
      using Some 3(3) by (auto split: if_splits)
    from 3(2) [OF Some nt r] have IH: "(\<forall>k s. r = Some (k, s) \<longrightarrow> ?cand = Some (k, s) \<or> gget m k \<noteq> None)"
      "?cand \<noteq> None \<longrightarrow> r \<noteq> None" by auto
    have "?cand \<noteq> None" by (auto split: option.splits)
    moreover have "?cand = Some (k', s') \<Longrightarrow> cand = Some (k', s') \<or> k' = k" for k' s'
      by (auto split: option.splits if_splits)
    ultimately show ?thesis using IH Some by blast
  qed
qed auto

interpretation tcp_table: evicting_table tcp_evictOneLocked FlowId tcp_fin
proof
  fix order and t :: tcp_tracker
  assume it: "iterates order (conns t)" and ne: "conns t \<noteq> []"
  from ne obtain k0 c0 where k0: "gget (conns t) k0 = Some c0" by (rule gmap_neE)
  then have "k0 \<in> set order" using it by (auto simp: iterates_def dest: gget_Some_key)
  then have some: "\<exists>k\<in>set order. gget (conns t) k \<noteq> None" using k0 by auto
  show "\<exists>k c es. gget (conns t) k = Some c \<and>
    tcp_evictOneLocked order t = StoreEvents es (set_conns (gdel k (conns t)) t) \<and>
    end_events (\<not> tcp_fin c) (FlowId c) es"
  proof (cases "tcp_evict_scan (conns t) evictSampleSize order None")
    case (Inl k)
    then obtain c where "gget (conns t) k = Some c" "tombstone c" using tcp_evict_scan_Inl by blast
    then show ?thesis using Inl
      by (intro exI [of _ k] exI [of _ c] exI [of _ "[]"])
        (simp add: tcp_evictOneLocked_def StoreEvents_def end_events_def tcp_fin_def)
  next
    case (Inr r)
    then obtain k s where r: "r = Some (k, s)" and "gget (conns t) k \<noteq> None"
      using tcp_evict_scan_Inr [OF Inr] some by (auto simp: evictSampleSize_def)
    then obtain c where c: "gget (conns t) k = Some c" by blast
    show ?thesis using Inr r c
      by (intro exI [of _ k] exI [of _ c] exI [of _ "if tcp_fin c then [] else [tcp_sendEvent TypeEnd c []]"])
        (auto simp: tcp_evictOneLocked_def Let_def end_events_def tcp_fin_def)
  qed
qed

section \<open>The invariant\<close>

definition tcp_inv :: "tcp_tracker \<Rightarrow> bool" where
  "tcp_inv t \<longleftrightarrow> connections t \<noteq> None \<and> within_cap t \<and>
     acc_inv FlowId tcp_fin (conns t) (flowLogger t) \<and>
     (\<forall>k c. gget (conns t) k = Some c \<longrightarrow> tcp_conn_ok c)"

lemma IsSupersededBy_fin: "IsSupersededBy c flags \<Longrightarrow> tcp_fin c"
  by (auto simp: IsSupersededBy_def tcp_fin_def)

lemma not_superseded: "\<not> IsSupersededBy c flags \<Longrightarrow> \<not> tombstone c"
  by (auto simp: IsSupersededBy_def)

lemma put_conn_inv:
  assumes inv: "tcp_inv t" and c: "gget (conns t) key = Some c" and "\<not> tombstone c"
  shows "tcp_inv (put_conn key (updateState now flags d sz c) t)"
proof -
  obtain c' es where up: "updateState now flags d sz c = (c', es)" by (cases "updateState now flags d sz c")
  have ok: "tcp_conn_ok c" using inv c by (auto simp: tcp_inv_def)
  note sp = updateState_spec [OF up ok assms(3)]
  have nn: "connections t \<noteq> None" using inv by (simp add: tcp_inv_def)
  have "acc_inv FlowId tcp_fin (gput key c' (conns t)) (flowLogger t @ es)"
    using inv c sp by (intro acc_update) (auto simp: tcp_inv_def)
  moreover have "within_cap (put_conn key (updateState now flags d sz c) t)"
    using inv c nn by (auto simp: tcp_inv_def within_cap_def put_conn_def conns_set_conns length_gput)
  moreover have "connections (put_conn key (updateState now flags d sz c) t) \<noteq> None"
    using nn by (simp add: put_conn_def set_conns_def StoreEvents_def)
  ultimately show ?thesis using inv sp nn unfolding tcp_inv_def
    by (auto simp: put_conn_def conns_set_conns up split: if_splits)
qed

lemma updateIfExists_cases:
  obtains (hit) c where "gget (conns t) key = Some c" "\<not> tombstone c"
      "tcp_updateIfExists now key flags d sz t =
        (put_conn key (updateState now flags d sz c) t, Some (ucast (DNATOrigPort c)))"
  | (miss) "tcp_updateIfExists now key flags d sz t = (t, None)"
      "\<forall>c. gget (conns t) key = Some c \<longrightarrow> tcp_fin c"
proof (cases "gget (conns t) key")
  case None
  then show ?thesis using miss by (simp add: tcp_updateIfExists_def)
next
  case (Some c)
  show ?thesis
  proof (cases "IsSupersededBy c flags")
    case True
    then show ?thesis using miss Some IsSupersededBy_fin [OF True] by (simp add: tcp_updateIfExists_def)
  next
    case False
    then show ?thesis using hit [OF Some not_superseded [OF False]] Some
      by (simp add: tcp_updateIfExists_def)
  qed
qed

lemma track_inv:
  assumes inv: "tcp_inv t" and "fresh_flow FlowId (conns t) (flowLogger t) fid" and "iterates order (conns t)"
  shows "\<exists>t'. tcp_track now fid order key flags d ruleID sz op t = Some t' \<and> tcp_inv t'"
proof (cases rule: updateIfExists_cases [of t key now flags d sz])
  case (hit c)
  then show ?thesis using put_conn_inv [OF inv] by (simp add: tcp_track_def)
next
  case miss
  show ?thesis
  proof (cases "has_flag flags TCPSyn \<and> isValidFlagCombination flags")
    case False
    then show ?thesis using miss inv by (auto simp: tcp_track_def)
  next
    case True
    obtain c es where up: "updateState now flags d sz (new_tcp_conn fid d key op) = (c, es)"
      by (cases "updateState now flags d sz (new_tcp_conn fid d key op)")
    note new = new_conn_spec [OF up conjunct1 [OF True] conjunct2 [OF True]]
    obtain m where m: "connections t = Some m" using inv by (auto simp: tcp_inv_def)
    have t: "StoreEvents es t = t" using new(2) by (simp add: StoreEvents_def)
    from tcp_table.insert_conn_acc [of order t m c key "tcp_sendEvent TypeStart c ruleID"]
    obtain t' where t': "insert_conn tcp_evictOneLocked order key c t = Some t'" "within_cap t'"
      "acc_inv FlowId tcp_fin (conns (StoreEvents [tcp_sendEvent TypeStart c ruleID] t'))
         (flowLogger (StoreEvents [tcp_sendEvent TypeStart c ruleID] t'))"
      using assms miss(2) m new by (auto simp: tcp_inv_def)
    from tcp_table.insert_conn_ok [of order t m key c] assms m t'(1) obtain m' where
      m': "connections t' = Some (gput key c m')" "m' = m \<or> (\<exists>k0. m' = gdel k0 m)"
      by (auto simp: tcp_inv_def)
    have "tcp_conn_ok d'" if "gget (gput key c m') k = Some d'" for k d'
      using inv m m'(2) new(3) that by (auto simp: tcp_inv_def split: if_splits)
    then have "tcp_inv (StoreEvents [tcp_sendEvent TypeStart c ruleID] t')"
      using t' m'(1) by (auto simp: tcp_inv_def within_cap_def)
    moreover have "tcp_track now fid order key flags d ruleID sz op t =
        Some (StoreEvents [tcp_sendEvent TypeStart c ruleID] t')"
      using miss(1) True by (simp add: tcp_track_def up t t'(1))
    ultimately show ?thesis by blast
  qed
qed

lemma remove_inv:
  assumes inv: "tcp_inv t" and c: "gget (conns t) k = Some c" and es: "end_events (\<not> tcp_fin c) (FlowId c) es"
  shows "tcp_inv (StoreEvents es (set_conns (gdel k (conns t)) t))"
proof -
  have nn: "connections t \<noteq> None" using inv by (simp add: tcp_inv_def)
  have "length (gdel k (conns t)) < length (conns t)" using c by (intro length_gdel_less) simp
  then have "within_cap (StoreEvents es (set_conns (gdel k (conns t)) t))"
    using inv nn by (auto simp: tcp_inv_def within_cap_def conns_set_conns)
  moreover have "acc_inv FlowId tcp_fin (gdel k (conns t)) (flowLogger t @ es)"
    using inv c es by (intro acc_remove) (auto simp: tcp_inv_def)
  moreover have "connections (set_conns (gdel k (conns t)) t) \<noteq> None" using nn by (simp add: set_conns_def)
  ultimately show ?thesis using inv nn by (auto simp: tcp_inv_def conns_set_conns split: if_splits)
qed

lemma cleanup_inv: "tcp_inv t \<Longrightarrow> tcp_inv (tcp_cleanup_loop now ks t)"
proof (induction now ks t rule: tcp_cleanup_loop.induct)
  case (2 now k ks t)
  show ?case
  proof (cases "gget (conns t) k")
    case None
    then show ?thesis using 2 by simp
  next
    case (Some c)
    have tomb: "tombstone c \<Longrightarrow> tcp_inv (set_conns (gdel k (conns t)) t)"
      using remove_inv [OF 2(5) Some, of "[]"] by (simp add: end_events_def tcp_fin_def)
    have "\<not> tombstone c \<Longrightarrow> tcp_inv (StoreEvents (if tcp_state c \<noteq> TCPStateTimeWait
        then [tcp_sendEvent TypeEnd c []] else []) (set_conns (gdel k (conns t)) t))"
      using remove_inv [OF 2(5) Some] by (simp add: end_events_def tcp_fin_def)
    then show ?thesis using 2 Some tomb by simp
  qed
qed simp

lemma tcp_exec_inv:
  assumes "tcp_inv t" and "tcp_op_ok op t"
  shows "\<exists>t'. tcp_exec op t = Some t' \<and> tcp_inv t'"
proof (cases op)
  case (TOut now fid order pkt flags sz)
  then have ok: "fresh_flow FlowId (conns t) (flowLogger t) fid" "iterates order (conns t)" using assms(2) by auto
  show ?thesis
  proof (cases rule: updateIfExists_cases [of t "swap_key pkt" now flags Egress sz])
    case (hit c)
    then show ?thesis using put_conn_inv [OF assms(1)] TOut by (simp add: tcp_TrackOutbound_def)
  next
    case miss
    then show ?thesis using track_inv [OF assms(1) ok] TOut
      by (auto simp: tcp_TrackOutbound_def)
  qed
next
  case (TIn now fid order pkt flags ruleID sz origPort)
  then show ?thesis using track_inv [OF assms(1)] assms(2) by (simp add: tcp_TrackInbound_def)
next
  case (TValid now pkt flags sz)
  then show ?thesis using assms(1) put_conn_inv [OF assms(1)] not_superseded
    by (auto simp: tcp_IsValidInbound_def Let_def split: option.splits)
next
  case (TClean now order)
  then show ?thesis using cleanup_inv [OF assms(1)] by (simp add: tcp_cleanup_def)
qed

lemma tcp_start_inv: "tcp_start t \<Longrightarrow> tcp_inv t"
  by (auto simp: tcp_start_def NewTCPTracker_def tcp_inv_def within_cap_def acc_empty conns_def)

interpretation tcp_sys: invariant_system tcp_start tcp_step tcp_inv
proof
  show "tcp_start t \<Longrightarrow> tcp_inv t" for t by (rule tcp_start_inv)
  show "tcp_inv t \<Longrightarrow> tcp_step t t' \<Longrightarrow> tcp_inv t'" for t t'
    using tcp_exec_inv by (fastforce simp: tcp_step_def)
qed

section \<open>Properties\<close>

text \<open>
  C19. Flow accounting of the TCP tracker: in every reachable state, whatever packets arrived in
  whatever order and whatever was evicted or cleaned up, each flow has at most one start event and
  never more end events than start events; and a flow has started without having ended exactly when
  the table holds an entry of that flow that is neither tombstoned nor in TIME-WAIT. So no flow is
  reported closed twice, and none disappears unreported.
\<close>

theorem tcp_flow_accounting:
  assumes "reach tcp_start tcp_step t"
  shows "starts (flowLogger t) f \<le> 1 \<and> ends (flowLogger t) f \<le> starts (flowLogger t) f \<and>
    (ends (flowLogger t) f < starts (flowLogger t) f \<longleftrightarrow>
      (\<exists>k c. gget (conns t) k = Some c \<and> FlowId c = f \<and> \<not> tombstone c \<and> tcp_state c \<noteq> TCPStateTimeWait))"
proof -
  have "acc_inv FlowId tcp_fin (conns t) (flowLogger t)"
    using tcp_sys.reach_inv [OF assms] by (simp add: tcp_inv_def)
  from acc_balance [OF this, of f] show ?thesis by (simp add: tcp_fin_def)
qed

definition sample_pkt :: ConnKey where
  "sample_pkt = \<lparr> SrcIP = Addr4 1, DstIP = Addr4 2, SrcPort = 1000, DstPort = 443 \<rparr>"

definition sample_tcp :: tcp_tracker where
  "sample_tcp = the (tcp_exec (TOut 5 7 [] sample_pkt TCPSyn 60) (NewTCPTracker 0 1 1 1 100))"

lemma sample_tcp_step: "tcp_step (NewTCPTracker 0 1 1 1 100) sample_tcp"
proof -
  have ok: "tcp_op_ok (TOut 5 7 [] sample_pkt TCPSyn 60) (NewTCPTracker 0 1 1 1 100)"
    by (simp add: NewTCPTracker_def fresh_flow_def iterates_def conns_def)
  have "tcp_inv (NewTCPTracker 0 1 1 1 100)" by (rule tcp_start_inv) (unfold tcp_start_def, blast)
  from tcp_exec_inv [OF this ok] ok show ?thesis unfolding tcp_step_def sample_tcp_def
    by (metis option.sel)
qed

lemma sample_tcp_cap: "maxEntries sample_tcp = 100"
  by (simp add: sample_tcp_def tcp_TrackOutbound_def tcp_updateIfExists_def NewTCPTracker_def conns_def
      tcp_track_def insert_conn_def Let_def updateState_eq new_tcp_conn_def sample_pkt_def swap_key_def
      isValidFlagCombination_def flag_defs nextState_def transNew_def onTransition_def StoreEvents_def)

lemma sample_tcp_reach: "reach tcp_start tcp_step sample_tcp"
  by (rule reach_step, rule reach_start, unfold tcp_start_def, blast) (rule sample_tcp_step)

theorem tcp_flow_accounting_witness:
  "starts (flowLogger sample_tcp) 7 \<le> 1 \<and> ends (flowLogger sample_tcp) 7 \<le> starts (flowLogger sample_tcp) 7 \<and>
    (ends (flowLogger sample_tcp) 7 < starts (flowLogger sample_tcp) 7 \<longleftrightarrow>
      (\<exists>k c. gget (conns sample_tcp) k = Some c \<and> FlowId c = 7 \<and> \<not> tombstone c \<and>
        tcp_state c \<noteq> TCPStateTimeWait))"
  by (rule tcp_flow_accounting [OF sample_tcp_reach])

text \<open>
  C26. The TCP table is bounded and its operations do not panic: in every reachable state every entry
  point of the tracker returns (no assignment to a nil map), and with a positive cap the number of
  entries stays within the cap, before and after the operation.
\<close>

theorem tcp_bounded:
  assumes "reach tcp_start tcp_step t" and "tcp_op_ok op t"
  shows "\<exists>t'. tcp_exec op t = Some t' \<and>
    (0 < maxEntries t \<longrightarrow> int (length (conns t)) \<le> maxEntries t) \<and>
    (0 < maxEntries t' \<longrightarrow> int (length (conns t')) \<le> maxEntries t')"
  using tcp_exec_inv [OF tcp_sys.reach_inv [OF assms(1)] assms(2)] tcp_sys.reach_inv [OF assms(1)]
  by (auto simp: tcp_inv_def within_cap_def)

theorem tcp_bounded_witness:
  "\<exists>t'. tcp_exec (TValid 6 (swap_key sample_pkt) TCPAck 60) sample_tcp = Some t' \<and>
    0 < maxEntries sample_tcp \<and> int (length (conns sample_tcp)) \<le> maxEntries sample_tcp"
proof -
  have "tcp_op_ok (TValid 6 (swap_key sample_pkt) TCPAck 60) sample_tcp" by simp
  moreover have "0 < maxEntries sample_tcp" by (simp add: sample_tcp_cap)
  ultimately show ?thesis using tcp_bounded [OF sample_tcp_reach] by blast
qed

text \<open>
  A TCP connection only moves forward: one packet either leaves the state of a connection as it
  is or moves it to a state of strictly greater rank (so a connection makes at most seven
  transitions), it reaches ESTABLISHED only through the handshake (a SYN-ACK from the responder, or
  an ACK without SYN from the initiator after SYN-RECEIVED), and it is tombstoned only on entering
  CLOSED.
\<close>

theorem tcp_lifecycle_forward:
  assumes "updateState now flags d sz c = (c', es)"
  shows "(tcp_state c' = tcp_state c \<or> tcp_rank (tcp_state c) < tcp_rank (tcp_state c')) \<and>
    (tcp_state c' = TCPStateEstablished \<and> tcp_state c \<noteq> TCPStateEstablished \<longrightarrow>
      tcp_state c = TCPStateSynSent \<and> has_flag flags TCPSyn \<and> has_flag flags TCPAck \<and> d \<noteq> conn_dir c \<or>
      tcp_state c = TCPStateSynReceived \<and> has_flag flags TCPAck \<and> \<not> has_flag flags TCPSyn \<and> d = conn_dir c) \<and>
    (tombstone c' \<longrightarrow> tombstone c \<or> tcp_state c' = TCPStateClosed)"
proof (cases "isValidFlagCombination flags \<and> \<not> has_flag flags TCPRst")
  case True
  let ?s = "nextState (tcp_state c) (conn_dir c) d flags"
  have "?s = TCPStateNew \<or> tcp_rank (tcp_state c) < tcp_rank ?s" using nextState_rank by blast
  moreover have "?s = TCPStateEstablished \<longrightarrow>
      tcp_state c = TCPStateSynSent \<and> has_flag flags TCPSyn \<and> has_flag flags TCPAck \<and> d \<noteq> conn_dir c \<or>
      tcp_state c = TCPStateSynReceived \<and> has_flag flags TCPAck \<and> \<not> has_flag flags TCPSyn \<and> d = conn_dir c"
    by (cases "tcp_state c") (auto simp: nextState_def trans_defs)
  ultimately show ?thesis using assms True
    by (auto simp: updateState_eq Let_def onTransition_def split: if_splits)
next
  case False
  have "tcp_state c \<noteq> TCPStateClosed \<Longrightarrow> tcp_rank (tcp_state c) < 7" by (cases "tcp_state c") auto
  then show ?thesis using assms False unfolding updateState_eq Let_def handleRst_eq
    by (cases "tcp_state c = TCPStateClosed") (auto split: if_splits)
qed

theorem tcp_lifecycle_forward_witness:
  "\<exists>c c' es. updateState 9 (TCPSyn OR TCPAck) Ingress 60 c = (c', es) \<and>
    tcp_state c' = TCPStateEstablished \<and> tcp_state c = TCPStateSynSent \<and>
    (tcp_state c' = tcp_state c \<or> tcp_rank (tcp_state c) < tcp_rank (tcp_state c'))"
proof -
  let ?c = "(new_tcp_conn 7 Egress sample_pkt 0)\<lparr> tcp_state := TCPStateSynSent \<rparr>"
  obtain c' es where up: "updateState 9 (TCPSyn OR TCPAck) Ingress 60 ?c = (c', es)"
    by (cases "updateState 9 (TCPSyn OR TCPAck) Ingress 60 ?c")
  moreover from this have "tcp_state c' = TCPStateEstablished"
    by (auto simp: updateState_eq Let_def onTransition_def isValidFlagCombination_def flag_defs
        new_tcp_conn_def nextState_def transSynSent_def)
  moreover have "tcp_state ?c = TCPStateSynSent" by simp
  ultimately show ?thesis using tcp_lifecycle_forward [OF up] by blast
qed

fun tcp_run :: "tcp_op list \<Rightarrow> tcp_tracker \<Rightarrow> tcp_tracker option" where
  "tcp_run [] t = Some t"
| "tcp_run (op # ops) t = do { t' \<leftarrow> tcp_exec op t; tcp_run ops t' }"

text \<open>The packets that can open an entry for a key: a legal SYN from its source to its destination.\<close>

fun opens :: "tcp_op \<Rightarrow> ConnKey \<Rightarrow> bool" where
  "opens (TOut now fid order pkt flags sz) k \<longleftrightarrow>
     pkt = k \<and> has_flag flags TCPSyn \<and> isValidFlagCombination flags"
| "opens (TIn now fid order pkt flags ruleID sz origPort) k \<longleftrightarrow>
     pkt = k \<and> has_flag flags TCPSyn \<and> isValidFlagCombination flags"
| "opens _ k \<longleftrightarrow> False"

lemma tracked_put_conn:
  "gget (conns t) key = Some c \<Longrightarrow> tracked (put_conn key r t) k \<Longrightarrow> tracked t k"
  by (auto simp: put_conn_def tracked_simps) (simp add: tracked_def)

lemma tracked_evict: "tracked (tcp_evictOneLocked order t) k \<Longrightarrow> tracked t k"
  by (auto simp: tcp_evictOneLocked_def Let_def tracked_simps split: sum.splits option.splits)

lemma tracked_track:
  assumes "tcp_track now fid order key flags d r sz op t = Some t'" and "tracked t' k"
  shows "tracked t k \<or> k = key \<and> has_flag flags TCPSyn \<and> isValidFlagCombination flags"
proof (cases rule: updateIfExists_cases [of t key now flags d sz])
  case (hit c)
  then have "t' = put_conn key (updateState now flags d sz c) t" using assms(1) by (simp add: tcp_track_def)
  then show ?thesis using assms(2) tracked_put_conn [OF hit(1)] by blast
next
  case miss
  show ?thesis
  proof (cases "has_flag flags TCPSyn \<and> isValidFlagCombination flags")
    case True
    obtain c es where up: "updateState now flags d sz (new_tcp_conn fid d key op) = (c, es)"
      by (cases "updateState now flags d sz (new_tcp_conn fid d key op)")
    with assms(1) miss(1) True obtain t1 where t1: "insert_conn tcp_evictOneLocked order key c (StoreEvents es t) = Some t1"
      "t' = StoreEvents [tcp_sendEvent TypeStart c r] t1"
      by (auto simp: tcp_track_def)
    then have "tracked t1 k" using assms(2) by (simp add: tracked_simps)
    from tracked_insert_conn [OF t1(1) this tracked_evict] True show ?thesis by (auto simp: tracked_simps)
  next
    case False
    then have "t' = t" using assms(1) miss(1) by (auto simp: tcp_track_def split: if_splits)
    then show ?thesis using assms(2) by blast
  qed
qed

lemma tracked_cleanup: "tracked (tcp_cleanup_loop now ks t) k \<Longrightarrow> tracked t k"
  by (induction now ks t rule: tcp_cleanup_loop.induct)
    (auto simp: tracked_simps split: option.splits if_splits)

lemma tracked_exec:
  assumes "tcp_exec op t = Some t'" and "tracked t' k"
  shows "tracked t k \<or> opens op k"
proof (cases op)
  case (TOut now fid order pkt flags sz)
  show ?thesis
  proof (cases rule: updateIfExists_cases [of t "swap_key pkt" now flags Egress sz])
    case (hit c)
    then have "t' = put_conn (swap_key pkt) (updateState now flags Egress sz c) t"
      using assms(1) TOut by (simp add: tcp_TrackOutbound_def)
    then show ?thesis using assms(2) tracked_put_conn [OF hit(1)] by blast
  next
    case miss
    then have "tcp_track now fid order pkt flags Egress [] sz 0 t = Some t'"
      using assms TOut by (auto simp: tcp_TrackOutbound_def)
    from tracked_track [OF this assms(2)] TOut show ?thesis by auto
  qed
next
  case (TIn now fid order pkt flags ruleID sz origPort)
  then have "tcp_track now fid order pkt flags Ingress ruleID sz origPort t = Some t'"
    using assms by (simp add: tcp_TrackInbound_def)
  from tracked_track [OF this assms(2)] TIn show ?thesis by auto
next
  case (TValid now pkt flags sz)
  then show ?thesis using assms
    by (auto simp: tcp_IsValidInbound_def Let_def split: option.splits if_splits intro: tracked_put_conn)
next
  case (TClean now order)
  then show ?thesis using assms tracked_cleanup by (auto simp: tcp_cleanup_def)
qed

lemma tracked_run:
  "tcp_run ops t = Some t' \<Longrightarrow> tracked t' k \<Longrightarrow> tracked t k \<or> (\<exists>op\<in>set ops. opens op k)"
proof (induction ops arbitrary: t)
  case (Cons op ops)
  then obtain t1 where "tcp_exec op t = Some t1" "tcp_run ops t1 = Some t'" by (auto split: bind_splits)
  then show ?case using Cons.IH [of t1] Cons.prems(2) tracked_exec [of op t t1 k] by auto
qed simp

text \<open>
  C18. No unsolicited inbound TCP: starting from a new tracker, whatever the sequence of operations,
  an inbound packet is accepted as part of a tracked connection only if an earlier packet of the
  sequence opened that connection with a legal SYN on the reversed address and port pair; the
  connection has not been torn down, and the packet's flags are a legal combination that the
  connection's state allows.
\<close>

theorem tcp_no_unsolicited:
  assumes "tcp_start t0" and "tcp_run ops t0 = Some t" and "snd (tcp_IsValidInbound now pkt flags sz t)"
  shows "(\<exists>op\<in>set ops. opens op (swap_key pkt)) \<and>
    (\<exists>c. gget (conns t) (swap_key pkt) = Some c \<and> \<not> tombstone c \<and>
      isValidFlagCombination flags \<and> isValidStateForFlags (tcp_state c) flags)"
proof -
  from assms(3) obtain c where c: "gget (conns t) (swap_key pkt) = Some c" "\<not> IsSupersededBy c flags"
    "isValidFlagCombination flags" "isValidStateForFlags (tcp_state c) flags"
    by (auto simp: tcp_IsValidInbound_def Let_def split: option.splits if_splits)
  have "\<not> tracked t0 k" for k using assms(1) by (auto simp: tcp_start_def NewTCPTracker_def tracked_def conns_def)
  then show ?thesis using tracked_run [OF assms(2), of "swap_key pkt"] c not_superseded
    by (auto simp: tracked_def)
qed

definition syn_ack_ops :: "tcp_op list" where
  "syn_ack_ops = [TOut 5 7 [] sample_pkt TCPSyn 60]"

lemma sample_tcp_run: "tcp_run syn_ack_ops (NewTCPTracker 0 1 1 1 100) = Some sample_tcp"
  using sample_tcp_step by (auto simp: syn_ack_ops_def sample_tcp_def tcp_TrackOutbound_def
      tcp_updateIfExists_def NewTCPTracker_def conns_def tcp_track_def insert_conn_def Let_def
      split: prod.splits)

lemma sample_tcp_accepts: "snd (tcp_IsValidInbound 6 (swap_key sample_pkt) (TCPSyn OR TCPAck) 60 sample_tcp)"
  by (simp add: sample_tcp_def tcp_TrackOutbound_def tcp_updateIfExists_def NewTCPTracker_def conns_def
      tcp_track_def insert_conn_def Let_def updateState_eq new_tcp_conn_def sample_pkt_def swap_key_def
      isValidFlagCombination_def flag_defs nextState_def transNew_def onTransition_def StoreEvents_def
      tcp_IsValidInbound_def IsSupersededBy_def isValidStateForFlags_def UpdateCounters_def UpdateLastSeen_def)

theorem tcp_no_unsolicited_witness:
  "(\<exists>op\<in>set syn_ack_ops. opens op (swap_key (swap_key sample_pkt))) \<and>
    (\<exists>c. gget (conns sample_tcp) (swap_key (swap_key sample_pkt)) = Some c \<and> \<not> tombstone c \<and>
      isValidFlagCombination (TCPSyn OR TCPAck) \<and> isValidStateForFlags (tcp_state c) (TCPSyn OR TCPAck))"
  by (rule tcp_no_unsolicited [OF _ sample_tcp_run sample_tcp_accepts]) (unfold tcp_start_def, blast)

lemma updateState_illegal:
  "\<not> isValidFlagCombination flags \<Longrightarrow> updateState now flags d sz c = (UpdateCounters d sz c, [])"
  by (simp add: updateState_eq Let_def)

text \<open>
  Malformed packets have no grip on the TCP table. A packet with an illegal flag combination
  (SYN with FIN, or RST with SYN or FIN) is never accepted as inbound traffic and changes nothing
  when it is checked; when it is tracked, no entry appears or disappears, no event is stored, and
  every entry keeps its state, its tombstone mark and its time of last activity, so spoofed packets
  can neither open, tear down nor keep alive a connection.
\<close>

theorem tcp_illegal_flags_inert:
  assumes "\<not> isValidFlagCombination flags"
  shows "tcp_IsValidInbound now pkt flags sz t = (t, False) \<and>
    (\<exists>t'. tcp_track now fid order key flags d ruleID sz origPort t = Some t' \<and>
      flowLogger t' = flowLogger t \<and>
      (\<forall>k. map_option (\<lambda>c. (FlowId c, tcp_state c, tombstone c, lastSeen c)) (gget (conns t') k) =
           map_option (\<lambda>c. (FlowId c, tcp_state c, tombstone c, lastSeen c)) (gget (conns t) k)))"
proof
  show "tcp_IsValidInbound now pkt flags sz t = (t, False)"
    using assms by (simp add: tcp_IsValidInbound_def Let_def split: option.splits)
  show "\<exists>t'. tcp_track now fid order key flags d ruleID sz origPort t = Some t' \<and>
    flowLogger t' = flowLogger t \<and>
    (\<forall>k. map_option (\<lambda>c. (FlowId c, tcp_state c, tombstone c, lastSeen c)) (gget (conns t') k) =
         map_option (\<lambda>c. (FlowId c, tcp_state c, tombstone c, lastSeen c)) (gget (conns t) k))"
  proof (cases rule: updateIfExists_cases [of t key now flags d sz])
    case (hit c)
    then have "connections t \<noteq> None" by (auto simp: conns_def split: option.splits)
    then show ?thesis using hit
      by (simp add: tcp_track_def updateState_illegal [OF assms] put_conn_def conns_set_conns)
  next
    case miss
    then show ?thesis using assms by (simp add: tcp_track_def)
  qed
qed

theorem tcp_illegal_flags_inert_witness:
  "tcp_IsValidInbound 9 (swap_key sample_pkt) (TCPSyn OR TCPFin) 60 sample_tcp = (sample_tcp, False) \<and>
    (\<exists>t'. tcp_track 9 8 [sample_pkt] sample_pkt (TCPSyn OR TCPFin) Egress [] 60 0 sample_tcp = Some t' \<and>
      flowLogger t' = flowLogger sample_tcp \<and>
      (\<forall>k. map_option (\<lambda>c. (FlowId c, tcp_state c, tombstone c, lastSeen c)) (gget (conns t') k) =
           map_option (\<lambda>c. (FlowId c, tcp_state c, tombstone c, lastSeen c)) (gget (conns sample_tcp) k)))"
  by (rule tcp_illegal_flags_inert) (simp add: isValidFlagCombination_def flag_defs)

definition tcp_stale :: "int \<Rightarrow> tcp_tracker \<Rightarrow> tcp_conn \<Rightarrow> bool" where
  "tcp_stale now t c \<longleftrightarrow> tombstone c \<or> timeoutExceeded now (state_timeout t (tcp_state c)) c"

lemma tcp_stale_simps [simp]:
  "tcp_stale now (set_conns m t) c = tcp_stale now t c"
  "tcp_stale now (StoreEvents es t) c = tcp_stale now t c"
  by (simp_all add: tcp_stale_def state_timeout_def set_conns_def StoreEvents_def split: TCPState.splits)

lemma cleanup_loop_Cons:
  "\<exists>t1. tcp_cleanup_loop now (k' # ks) t = tcp_cleanup_loop now ks t1 \<and>
    (\<forall>k. gget (conns t1) k =
      (case gget (conns t) k of None \<Rightarrow> None | Some c \<Rightarrow> if k = k' \<and> tcp_stale now t c then None else Some c)) \<and>
    (\<forall>c. tcp_stale now t1 c = tcp_stale now t c)"
proof (cases "\<exists>c. gget (conns t) k' = Some c \<and> tcp_stale now t c")
  case True
  then obtain c where c: "gget (conns t) k' = Some c" "tcp_stale now t c" by blast
  then have nn: "connections t \<noteq> None" by (auto simp: conns_def split: option.splits)
  let ?es = "if tombstone c \<or> tcp_state c = TCPStateTimeWait then [] else [tcp_sendEvent TypeEnd c []]"
  let ?t1 = "StoreEvents ?es (set_conns (gdel k' (conns t)) t)"
  have "tcp_cleanup_loop now (k' # ks) t = tcp_cleanup_loop now ks ?t1"
    using c by (auto simp: tcp_stale_def)
  moreover have "gget (conns ?t1) k =
      (case gget (conns t) k of None \<Rightarrow> None | Some c \<Rightarrow> if k = k' \<and> tcp_stale now t c then None else Some c)" for k
    using nn c by (simp add: conns_set_conns split: option.splits)
  ultimately show ?thesis by (intro exI [of _ ?t1]) simp
next
  case False
  then show ?thesis
    by (intro exI [of _ t]) (auto simp: tcp_stale_def split: option.splits)
qed

lemma cleanup_loop_lookup:
  "gget (conns (tcp_cleanup_loop now ks t)) k =
    (case gget (conns t) k of None \<Rightarrow> None
     | Some c \<Rightarrow> if k \<in> set ks \<and> tcp_stale now t c then None else Some c)"
proof (induction ks arbitrary: t)
  case (Cons k' ks)
  obtain t1 where "tcp_cleanup_loop now (k' # ks) t = tcp_cleanup_loop now ks t1"
    and "\<forall>k. gget (conns t1) k =
      (case gget (conns t) k of None \<Rightarrow> None | Some c \<Rightarrow> if k = k' \<and> tcp_stale now t c then None else Some c)"
    and "\<forall>c. tcp_stale now t1 c = tcp_stale now t c" using cleanup_loop_Cons by blast
  then show ?case using Cons.IH [of t1] by (simp split: option.splits)
qed (simp split: option.splits)

text \<open>
  The periodic clean-up removes exactly the stale TCP entries: when its loop visits the whole
  table, an entry survives unchanged if and only if it is neither tombstoned nor idle for longer
  than the timeout of its state, and no entry is added.
\<close>

theorem tcp_cleanup_exact:
  assumes "iterates order (conns t)"
  shows "gget (conns (tcp_cleanup now order t)) k =
    (case gget (conns t) k of None \<Rightarrow> None
     | Some c \<Rightarrow> if tombstone c \<or> now - lastSeen c > state_timeout t (tcp_state c) then None else Some c)"
  using assms gget_Some_key [of "conns t" k]
  by (auto simp: tcp_cleanup_def cleanup_loop_lookup tcp_stale_def timeoutExceeded_def iterates_def
      split: option.splits)

lemma sample_tcp_keys: "iterates [sample_pkt] (conns sample_tcp)"
  by (simp add: sample_tcp_def tcp_TrackOutbound_def tcp_updateIfExists_def NewTCPTracker_def conns_def
      tcp_track_def insert_conn_def Let_def updateState_eq isValidFlagCombination_def flag_defs
      StoreEvents_def iterates_def split: prod.splits)

theorem tcp_cleanup_exact_witness:
  "gget (conns (tcp_cleanup (10 * minute) [sample_pkt] sample_tcp)) sample_pkt =
    (case gget (conns sample_tcp) sample_pkt of None \<Rightarrow> None
     | Some c \<Rightarrow> if tombstone c \<or> 10 * minute - lastSeen c > state_timeout sample_tcp (tcp_state c)
                 then None else Some c)"
  by (rule tcp_cleanup_exact [OF sample_tcp_keys])

end
