(* ===== verification/ConntrackUDP.thy ===== *)
theory ConntrackUDP
  imports Conntrack
begin

text \<open>
  The UDP tracker of the userspace firewall, \<open>client/firewall/uspfilter/conntrack/udp.go\<close>. It shares
  the eviction and clean-up loops of \<open>Conntrack\<close>; a flow is open as long as it is in the table.
\<close>

section \<open>The tracker\<close>

record udp_conn = base_conn +
  usport :: u16
  udport :: u16

record udp_tracker = "(ConnKey, udp_conn) tracker" +
  udp_timeout :: int

definition DefaultUDPTimeout :: int where "DefaultUDPTimeout = 30 * 1000000000"
definition DefaultMaxUDPEntries :: int where "DefaultMaxUDPEntries = 16384"

definition NewUDPTracker :: "int \<Rightarrow> int \<Rightarrow> udp_tracker" where
  "NewUDPTracker tmo maxE =
     \<lparr> connections = Some [], maxEntries = maxE, flowLogger = [],
       udp_timeout = (if tmo = 0 then DefaultUDPTimeout else tmo) \<rparr>"

definition udp_sendEvent :: "event_type \<Rightarrow> bytes \<Rightarrow> udp_conn \<Rightarrow> EventFields" where
  "udp_sendEvent typ ruleID c =
     \<lparr> FlowID = FlowId c, EventType = typ, RuleID = ruleID, ev_dir = conn_dir c, Protocol = proto_UDP,
       ev_src = SourceIP c, ev_dst = DestIP c, ev_sport = usport c, ev_dport = udport c,
       ev_icmp_type = 0, ev_icmp_code = 0, RxPackets = PacketsRx c, TxPackets = PacketsTx c,
       RxBytes = BytesRx c, TxBytes = BytesTx c \<rparr>"

definition udp_touch :: "int \<Rightarrow> Direction \<Rightarrow> int \<Rightarrow> ConnKey \<Rightarrow> udp_conn \<Rightarrow> udp_tracker \<Rightarrow> udp_tracker" where
  "udp_touch now direction sz key c t =
     set_conns (gput key (UpdateCounters direction sz (UpdateLastSeen now c)) (conns t)) t"

definition udp_updateIfExists ::
    "int \<Rightarrow> ConnKey \<Rightarrow> Direction \<Rightarrow> int \<Rightarrow> udp_tracker \<Rightarrow> udp_tracker \<times> u16 option" where
  "udp_updateIfExists now key direction sz t =
     (case gget (conns t) key of
        Some c \<Rightarrow> (udp_touch now direction sz key c t, Some (ucast (DNATOrigPort c)))
      | None \<Rightarrow> (t, None))"

definition udp_evictOneLocked :: "ConnKey list \<Rightarrow> udp_tracker \<Rightarrow> udp_tracker" where
  "udp_evictOneLocked order t = evict_sampled (udp_sendEvent TypeEnd []) order t"

definition new_udp_conn :: "int \<Rightarrow> uuid \<Rightarrow> Direction \<Rightarrow> ConnKey \<Rightarrow> u16 \<Rightarrow> int \<Rightarrow> udp_conn" where
  "new_udp_conn now fid direction key origPort sz =
     UpdateCounters direction sz (UpdateLastSeen now
       \<lparr> FlowId = fid, conn_dir = direction, SourceIP = SrcIP key, DestIP = DstIP key, lastSeen = 0,
         PacketsTx = 0, PacketsRx = 0, BytesTx = 0, BytesRx = 0, DNATOrigPort = ucast origPort,
         usport = SrcPort key, udport = DstPort key \<rparr>)"

definition udp_track ::
    "int \<Rightarrow> uuid \<Rightarrow> ConnKey list \<Rightarrow> ConnKey \<Rightarrow> Direction \<Rightarrow> bytes \<Rightarrow> int \<Rightarrow> u16 \<Rightarrow> udp_tracker \<Rightarrow> udp_tracker option" where
  "udp_track now fid order key direction ruleID sz origPort t =
     (let (t', r) = udp_updateIfExists now key direction sz t
      in if r \<noteq> None then Some t'
         else let c = new_udp_conn now fid direction key origPort sz
              in map_option (StoreEvents [udp_sendEvent TypeStart ruleID c])
                   (insert_conn udp_evictOneLocked order key c t'))"

definition udp_swap :: "ConnKey \<Rightarrow> ConnKey" where
  "udp_swap k = \<lparr> SrcIP = DstIP k, DstIP = SrcIP k, SrcPort = DstPort k, DstPort = SrcPort k \<rparr>"

definition udp_TrackOutbound ::
    "int \<Rightarrow> uuid \<Rightarrow> ConnKey list \<Rightarrow> ConnKey \<Rightarrow> int \<Rightarrow> udp_tracker \<Rightarrow> (udp_tracker \<times> u16) option" where
  "udp_TrackOutbound now fid order pkt sz t =
     (case udp_updateIfExists now (udp_swap pkt) Egress sz t of
        (t', Some origPort) \<Rightarrow> Some (t', origPort)
      | (t', None) \<Rightarrow> map_option (\<lambda>t''. (t'', 0)) (udp_track now fid order pkt Egress [] sz 0 t'))"

definition udp_TrackInbound ::
    "int \<Rightarrow> uuid \<Rightarrow> ConnKey list \<Rightarrow> ConnKey \<Rightarrow> bytes \<Rightarrow> int \<Rightarrow> u16 \<Rightarrow> udp_tracker \<Rightarrow> udp_tracker option" where
  "udp_TrackInbound now fid order pkt ruleID sz dnatOrigPort t =
     udp_track now fid order pkt Ingress ruleID sz dnatOrigPort t"

definition udp_IsValidInbound :: "int \<Rightarrow> ConnKey \<Rightarrow> int \<Rightarrow> udp_tracker \<Rightarrow> udp_tracker \<times> bool" where
  "udp_IsValidInbound now pkt sz t =
     (case gget (conns t) (udp_swap pkt) of
        None \<Rightarrow> (t, False)
      | Some c \<Rightarrow>
          if timeoutExceeded now (udp_timeout t) c then (t, False)
          else (udp_touch now Ingress sz (udp_swap pkt) c t, True))"

definition udp_cleanup :: "int \<Rightarrow> ConnKey list \<Rightarrow> udp_tracker \<Rightarrow> udp_tracker" where
  "udp_cleanup now order t = cleanup_idle (udp_sendEvent TypeEnd []) now (udp_timeout t) order t"

definition udp_Close :: "udp_tracker \<Rightarrow> udp_tracker" where
  "udp_Close t = t\<lparr> connections := None \<rparr>"

definition udp_GetConnection :: "addr \<Rightarrow> u16 \<Rightarrow> addr \<Rightarrow> u16 \<Rightarrow> udp_tracker \<Rightarrow> udp_conn option" where
  "udp_GetConnection srcIP srcPort dstIP dstPort t =
     gget (conns t) \<lparr> SrcIP = srcIP, DstIP = dstIP, SrcPort = srcPort, DstPort = dstPort \<rparr>"

datatype udp_op =
    UOut int uuid "ConnKey list" ConnKey int
  | UIn int uuid "ConnKey list" ConnKey bytes int u16
  | UValid int ConnKey int
  | UClean int "ConnKey list"

fun udp_exec :: "udp_op \<Rightarrow> udp_tracker \<Rightarrow> udp_tracker option" where
  "udp_exec (UOut now fid order pkt sz) t = map_option fst (udp_TrackOutbound now fid order pkt sz t)"
| "udp_exec (UIn now fid order pkt ruleID sz origPort) t =
     udp_TrackInbound now fid order pkt ruleID sz origPort t"
| "udp_exec (UValid now pkt sz) t = Some (fst (udp_IsValidInbound now pkt sz t))"
| "udp_exec (UClean now order) t = Some (udp_cleanup now order t)"

fun udp_op_ok :: "udp_op \<Rightarrow> udp_tracker \<Rightarrow> bool" where
  "udp_op_ok (UOut now fid order pkt sz) t \<longleftrightarrow>
     fresh_flow FlowId (conns t) (flowLogger t) fid \<and> iterates order (conns t)"
| "udp_op_ok (UIn now fid order pkt ruleID sz origPort) t \<longleftrightarrow>
     fresh_flow FlowId (conns t) (flowLogger t) fid \<and> iterates order (conns t)"
| "udp_op_ok (UValid now pkt sz) t \<longleftrightarrow> True"
| "udp_op_ok (UClean now order) t \<longleftrightarrow> iterates order (conns t)"

definition udp_step :: "udp_tracker \<Rightarrow> udp_tracker \<Rightarrow> bool" where
  "udp_step t t' \<longleftrightarrow> (\<exists>op. udp_op_ok op t \<and> udp_exec op t = Some t')"

definition udp_start :: "udp_tracker \<Rightarrow> bool" where
  "udp_start t \<longleftrightarrow> (\<exists>tmo mx. t = NewUDPTracker tmo mx)"

fun udp_run :: "udp_op list \<Rightarrow> udp_tracker \<Rightarrow> udp_tracker option" where
  "udp_run [] t = Some t"
| "udp_run (op # ops) t = do { t' \<leftarrow> udp_exec op t; udp_run ops t' }"

section \<open>The invariant\<close>

lemma udp_sendEvent_simps [simp]:
  "FlowID (udp_sendEvent typ r c) = FlowId c" "EventType (udp_sendEvent typ r c) = typ"
  by (simp_all add: udp_sendEvent_def)

interpretation udp_table: evicting_table udp_evictOneLocked FlowId "\<lambda>_. False"
  unfolding udp_evictOneLocked_def by unfold_locales (unfold not_False_eq_True, rule evict_sampled_one, simp_all)

lemma new_udp_conn_id [simp]: "FlowId (new_udp_conn now fid d key op sz) = fid"
  by (simp add: new_udp_conn_def)

lemma udp_touch_inv:
  "open_inv t \<Longrightarrow> gget (conns t) key = Some c \<Longrightarrow> open_inv (udp_touch now d sz key c t)"
  unfolding udp_touch_def by (erule (1) open_inv_put) simp

lemma udp_track_inv:
  assumes "open_inv t" and "fresh_flow FlowId (conns t) (flowLogger t) fid" and "iterates order (conns t)"
  shows "\<exists>t'. udp_track now fid order key d ruleID sz op t = Some t' \<and> open_inv t'"
proof (cases "gget (conns t) key")
  case (Some c)
  then show ?thesis using udp_touch_inv [OF assms(1)]
    by (simp add: udp_track_def udp_updateIfExists_def)
next
  case None
  let ?c = "new_udp_conn now fid d key op sz"
  obtain m where m: "connections t = Some m" using assms(1) by (auto simp: open_inv_def)
  from udp_table.insert_conn_acc [of order t m ?c key "udp_sendEvent TypeStart ruleID ?c"]
  obtain t' where t': "insert_conn udp_evictOneLocked order key ?c t = Some t'" "within_cap t'"
    "acc_inv FlowId (\<lambda>_. False) (conns (StoreEvents [udp_sendEvent TypeStart ruleID ?c] t'))
      (flowLogger (StoreEvents [udp_sendEvent TypeStart ruleID ?c] t'))"
    using assms None m by (auto simp: open_inv_def)
  moreover have "connections t' \<noteq> None"
    using t'(1) by (auto simp: insert_conn_def Let_def split: option.splits)
  ultimately have "open_inv (StoreEvents [udp_sendEvent TypeStart ruleID ?c] t')"
    by (simp add: open_inv_def within_cap_def)
  then show ?thesis using t'(1) None by (simp add: udp_track_def udp_updateIfExists_def)
qed

lemma udp_exec_inv:
  assumes "open_inv t" and "udp_op_ok op t"
  shows "\<exists>t'. udp_exec op t = Some t' \<and> open_inv t'"
proof (cases op)
  case (UOut now fid order pkt sz)
  then show ?thesis using udp_track_inv [OF assms(1)] udp_touch_inv [OF assms(1)] assms(2)
    by (cases "gget (conns t) (udp_swap pkt)")
      (fastforce simp: udp_TrackOutbound_def udp_updateIfExists_def)+
next
  case (UIn now fid order pkt ruleID sz origPort)
  then show ?thesis using udp_track_inv [OF assms(1)] assms(2) by (simp add: udp_TrackInbound_def)
next
  case (UValid now pkt sz)
  then show ?thesis using assms(1) udp_touch_inv [OF assms(1)]
    by (auto simp: udp_IsValidInbound_def split: option.splits)
next
  case (UClean now order)
  then show ?thesis using open_inv_cleanup [OF _ _ assms(1), of "udp_sendEvent TypeEnd []"]
    by (simp add: udp_cleanup_def)
qed

lemma udp_start_inv: "udp_start t \<Longrightarrow> open_inv t"
  by (auto simp: udp_start_def NewUDPTracker_def open_inv_def within_cap_def acc_empty conns_def)

interpretation udp_sys: invariant_system udp_start udp_step open_inv
proof
  show "udp_start t \<Longrightarrow> open_inv t" for t by (rule udp_start_inv)
  show "open_inv t \<Longrightarrow> udp_step t t' \<Longrightarrow> open_inv t'" for t t'
    using udp_exec_inv by (fastforce simp: udp_step_def)
qed

section \<open>Properties\<close>

text \<open>
  Flow accounting and bound of the UDP tracker: in every reachable state each flow has at most
  one start and one end event, a flow has started without ending exactly when it is in the table,
  the table respects a positive cap, and every entry point returns.
\<close>

theorem udp_flow_accounting:
  assumes "reach udp_start udp_step t" and "udp_op_ok op t"
  shows "starts (flowLogger t) f \<le> 1 \<and> ends (flowLogger t) f \<le> starts (flowLogger t) f \<and>
    (ends (flowLogger t) f < starts (flowLogger t) f \<longleftrightarrow> (\<exists>k c. gget (conns t) k = Some c \<and> FlowId c = f)) \<and>
    (0 < maxEntries t \<longrightarrow> int (length (conns t)) \<le> maxEntries t) \<and> udp_exec op t \<noteq> None"
proof -
  have inv: "open_inv t" by (rule udp_sys.reach_inv [OF assms(1)])
  then have acc: "acc_inv FlowId (\<lambda>_. False) (conns t) (flowLogger t)"
    and cap: "within_cap t" by (simp_all add: open_inv_def)
  show ?thesis using acc_balance [OF acc, of f] cap udp_exec_inv [OF inv assms(2)]
    by (auto simp: within_cap_def)
qed

definition udp_sample_pkt :: ConnKey where
  "udp_sample_pkt = \<lparr> SrcIP = Addr4 1, DstIP = Addr4 2, SrcPort = 5000, DstPort = 53 \<rparr>"

definition udp_sample_ops :: "udp_op list" where
  "udp_sample_ops = [UOut 5 7 [] udp_sample_pkt 60]"

definition udp_sample :: udp_tracker where
  "udp_sample = the (udp_run udp_sample_ops (NewUDPTracker 0 100))"

lemmas udp_eval = udp_sample_def udp_sample_ops_def udp_TrackOutbound_def udp_updateIfExists_def
  NewUDPTracker_def conns_def udp_track_def insert_conn_def Let_def StoreEvents_def udp_swap_def
  udp_sample_pkt_def

lemma udp_sample_run: "udp_run udp_sample_ops (NewUDPTracker 0 100) = Some udp_sample"
  by (simp add: udp_eval)

lemma udp_sample_reach: "reach udp_start udp_step udp_sample"
proof -
  have "udp_step (NewUDPTracker 0 100) udp_sample"
    unfolding udp_step_def
    by (rule exI [of _ "UOut 5 7 [] udp_sample_pkt 60"])
      (simp add: udp_eval fresh_flow_def iterates_def)
  moreover have "udp_start (NewUDPTracker 0 100)" unfolding udp_start_def by blast
  ultimately show ?thesis using reach_start reach_step by metis
qed

theorem udp_flow_accounting_witness:
  "starts (flowLogger udp_sample) 7 \<le> 1 \<and> ends (flowLogger udp_sample) 7 \<le> starts (flowLogger udp_sample) 7 \<and>
    (ends (flowLogger udp_sample) 7 < starts (flowLogger udp_sample) 7 \<longleftrightarrow>
      (\<exists>k c. gget (conns udp_sample) k = Some c \<and> FlowId c = 7)) \<and>
    0 < maxEntries udp_sample \<and> int (length (conns udp_sample)) \<le> maxEntries udp_sample \<and>
    udp_exec (UValid 9 udp_sample_pkt 4) udp_sample \<noteq> None"
proof -
  have "udp_op_ok (UValid 9 udp_sample_pkt 4) udp_sample" by simp
  moreover have "0 < maxEntries udp_sample" by (simp add: udp_eval)
  ultimately show ?thesis using udp_flow_accounting [OF udp_sample_reach] by blast
qed

fun udp_opens :: "udp_op \<Rightarrow> ConnKey \<Rightarrow> bool" where
  "udp_opens (UOut now fid order pkt sz) k \<longleftrightarrow> pkt = k"
| "udp_opens (UIn now fid order pkt ruleID sz origPort) k \<longleftrightarrow> pkt = k"
| "udp_opens _ k \<longleftrightarrow> False"

lemma tracked_udp_touch: "gget (conns t) key = Some c \<Longrightarrow> tracked (udp_touch now d sz key c t) k \<Longrightarrow> tracked t k"
  by (auto simp: udp_touch_def tracked_simps) (simp add: tracked_def)

lemma tracked_udp_track:
  assumes "udp_track now fid order key d r sz op t = Some t'" and "tracked t' k"
  shows "tracked t k \<or> k = key"
proof (cases "gget (conns t) key")
  case (Some c)
  then have "t' = udp_touch now d sz key c t" using assms(1) by (simp add: udp_track_def udp_updateIfExists_def)
  then show ?thesis using assms(2) tracked_udp_touch [OF Some] by blast
next
  case None
  let ?c = "new_udp_conn now fid d key op sz"
  from None assms(1) obtain t1 where t1: "insert_conn udp_evictOneLocked order key ?c t = Some t1"
    "t' = StoreEvents [udp_sendEvent TypeStart r ?c] t1"
    by (auto simp: udp_track_def udp_updateIfExists_def Let_def)
  then have "tracked t1 k" using assms(2) by (simp add: tracked_simps)
  from tracked_insert_conn [OF t1(1) this] show ?thesis
    using tracked_evict_sampled by (metis udp_evictOneLocked_def)
qed

lemma tracked_udp_exec:
  assumes "udp_exec op t = Some t'" and "tracked t' k"
  shows "tracked t k \<or> udp_opens op k"
proof (cases op)
  case (UOut now fid order pkt sz)
  show ?thesis
  proof (cases "gget (conns t) (udp_swap pkt)")
    case None
    then have "udp_track now fid order pkt Egress [] sz 0 t = Some t'"
      using assms(1) UOut by (auto simp: udp_TrackOutbound_def udp_updateIfExists_def)
    from tracked_udp_track [OF this assms(2)] UOut show ?thesis by auto
  next
    case (Some c)
    then have "t' = udp_touch now Egress sz (udp_swap pkt) c t"
      using assms(1) UOut by (simp add: udp_TrackOutbound_def udp_updateIfExists_def)
    then show ?thesis using assms(2) tracked_udp_touch [OF Some] by blast
  qed
next
  case (UIn now fid order pkt ruleID sz origPort)
  then have "udp_track now fid order pkt Ingress ruleID sz origPort t = Some t'"
    using assms(1) by (simp add: udp_TrackInbound_def)
  from tracked_udp_track [OF this assms(2)] UIn show ?thesis by auto
next
  case (UValid now pkt sz)
  then show ?thesis using assms
    by (auto simp: udp_IsValidInbound_def split: option.splits if_splits intro: tracked_udp_touch)
next
  case (UClean now order)
  then show ?thesis using assms tracked_cleanup_idle by (auto simp: udp_cleanup_def)
qed

lemma tracked_udp_run:
  "udp_run ops t = Some t' \<Longrightarrow> tracked t' k \<Longrightarrow> tracked t k \<or> (\<exists>op\<in>set ops. udp_opens op k)"
proof (induction ops arbitrary: t)
  case (Cons op ops)
  then obtain t1 where "udp_exec op t = Some t1" "udp_run ops t1 = Some t'" by (auto split: bind_splits)
  then show ?case using Cons.IH [of t1] Cons.prems(2) tracked_udp_exec [of op t t1 k] by auto
qed simp

text \<open>
  C27. No unsolicited inbound UDP: from a new tracker, an inbound datagram is accepted only if an
  earlier packet of the sequence was tracked on the reversed address and port pair and that flow was
  active within the timeout; acceptance refreshes the flow.
\<close>

theorem udp_no_unsolicited:
  assumes "udp_start t0" and "udp_run ops t0 = Some t" and "udp_IsValidInbound now pkt sz t = (t', True)"
  shows "(\<exists>op\<in>set ops. udp_opens op (udp_swap pkt)) \<and>
    (\<exists>c c'. gget (conns t) (udp_swap pkt) = Some c \<and> now - lastSeen c \<le> udp_timeout t \<and>
      gget (conns t') (udp_swap pkt) = Some c' \<and> lastSeen c' = now)"
proof -
  from assms(3) obtain c where c: "gget (conns t) (udp_swap pkt) = Some c" "now - lastSeen c \<le> udp_timeout t"
    "t' = udp_touch now Ingress sz (udp_swap pkt) c t"
    by (auto simp: udp_IsValidInbound_def timeoutExceeded_def split: option.splits if_splits)
  have "connections t \<noteq> None" using c(1) by (auto simp: conns_def split: option.splits)
  then have "gget (conns t') (udp_swap pkt) = Some (UpdateCounters Ingress sz (UpdateLastSeen now c))"
    by (simp add: c(3) udp_touch_def conns_set_conns)
  moreover have "\<not> tracked t0 k" for k using assms(1) by (auto simp: udp_start_def NewUDPTracker_def tracked_def conns_def)
  ultimately show ?thesis using tracked_udp_run [OF assms(2), of "udp_swap pkt"] c by (auto simp: tracked_def)
qed

theorem udp_no_unsolicited_witness:
  "(\<exists>op\<in>set udp_sample_ops. udp_opens op (udp_swap (udp_swap udp_sample_pkt))) \<and>
    (\<exists>c c'. gget (conns udp_sample) (udp_swap (udp_swap udp_sample_pkt)) = Some c \<and>
      6 - lastSeen c \<le> udp_timeout udp_sample \<and>
      gget (conns (fst (udp_IsValidInbound 6 (udp_swap udp_sample_pkt) 60 udp_sample)))
        (udp_swap (udp_swap udp_sample_pkt)) = Some c' \<and> lastSeen c' = 6)"
proof (rule udp_no_unsolicited [OF _ udp_sample_run])
  show "udp_start (NewUDPTracker 0 100)" unfolding udp_start_def by blast
  show "udp_IsValidInbound 6 (udp_swap udp_sample_pkt) 60 udp_sample =
    (fst (udp_IsValidInbound 6 (udp_swap udp_sample_pkt) 60 udp_sample), True)"
    by (simp add: udp_eval udp_IsValidInbound_def timeoutExceeded_def new_udp_conn_def DefaultUDPTimeout_def)
qed

end
