(* ===== verification/ConntrackICMP.thy ===== *)
theory ConntrackICMP
  imports Conntrack
begin

text \<open>
  The ICMP tracker of the userspace firewall, \<open>client/firewall/uspfilter/conntrack/icmp.go\<close>: echo
  requests are tracked by address pair and identifier, other messages only produce a start event.
  The decoding of the packet quoted by an error message is modelled up to the values it extracts; the
  formatting of log lines is not.
\<close>

section \<open>Quoted packets\<close>

definition MaxICMPPayloadLength :: nat where "MaxICMPPayloadLength = 48"
definition minICMPPayloadIPv4 :: nat where "minICMPPayloadIPv4 = 28"
definition minICMPPayloadIPv6 :: nat where "minICMPPayloadIPv6 = 48"

text \<open>\<open>TypeCode\<close> packs the type in the high byte; \<open>PayloadData\<close> is an array of 48 bytes.\<close>

record ICMPInfo =
  TypeCode :: u16
  PayloadData :: bytes
  PayloadLen :: nat

definition icmp_type :: "u16 \<Rightarrow> byte" where "icmp_type tc = ucast (drop_bit 8 tc)"
definition icmp_code :: "u16 \<Rightarrow> byte" where "icmp_code tc = ucast tc"

text \<open>
  The error types: destination unreachable 3, redirect 5, time exceeded 11 and parameter problem 12
  of ICMPv4; destination unreachable 1, packet too big 2 and parameter problem 4 of ICMPv6.
\<close>

definition isErrorMessage :: "ICMPInfo \<Rightarrow> bool" where
  "isErrorMessage info =
     (let typ = icmp_type (TypeCode info)
      in typ = 3 \<or> typ = 5 \<or> typ = 11 \<or> typ = 12 \<or> typ = 1 \<or> typ = 2 \<or> typ = 4)"

datatype quoted =
    QPorts byte bytes bytes u16 u16
  | QIcmp bytes bytes byte byte
  | QOther byte bytes bytes

text \<open>\<open>Some None\<close> is the empty description, \<open>None\<close> a panic.\<close>

definition parse_quoted :: "byte \<Rightarrow> ICMPInfo \<Rightarrow> quoted option option" where
  "parse_quoted version info =
     (if (version = 4 \<and> PayloadLen info < minICMPPayloadIPv4) \<or>
         (version = 6 \<and> PayloadLen info < minICMPPayloadIPv6) \<or> (version \<noteq> 4 \<and> version \<noteq> 6)
      then Some None
      else do {
        protocol \<leftarrow> idx (PayloadData info) (if version = 4 then 9 else 6);
        srcIP \<leftarrow> (if version = 4 then slice (PayloadData info) 12 16 else slice (PayloadData info) 8 24);
        dstIP \<leftarrow> (if version = 4 then slice (PayloadData info) 16 20 else slice (PayloadData info) 24 40);
        transportData \<leftarrow> slice_from (PayloadData info) (if version = 4 then 20 else 40);
        if protocol = proto_TCP \<or> protocol = proto_UDP then do {
          srcPort \<leftarrow> be16 transportData;
          dstPort \<leftarrow> slice_from transportData 2 \<bind> be16;
          Some (Some (QPorts protocol srcIP dstIP srcPort dstPort))
        }
        else if protocol = proto_ICMP then do {
          icmpType \<leftarrow> idx transportData 0;
          icmpCode \<leftarrow> idx transportData 1;
          Some (Some (QIcmp srcIP dstIP icmpType icmpCode))
        }
        else Some (Some (QOther protocol srcIP dstIP))
      })"

definition parseOriginalPacket :: "ICMPInfo \<Rightarrow> quoted option option" where
  "parseOriginalPacket info =
     (if PayloadLen info = 0 then Some None
      else do {
        b0 \<leftarrow> idx (PayloadData info) 0;
        parse_quoted (drop_bit 4 b0 AND 0xF) info
      })"

definition icmp_info :: "u16 \<Rightarrow> bytes \<Rightarrow> ICMPInfo" where
  "icmp_info typecode payload =
     (let n = min (length payload) MaxICMPPayloadLength
      in \<lparr> TypeCode = typecode, PayloadData = take n payload @ replicate (MaxICMPPayloadLength - n) 0,
           PayloadLen = n \<rparr>)"

section \<open>The tracker\<close>

record ICMPConnKey =
  icmp_src :: addr
  icmp_dst :: addr
  icmp_id :: u16

record icmp_conn = base_conn +
  ICMPType :: byte
  ICMPCode :: byte

record icmp_tracker = "(ICMPConnKey, icmp_conn) tracker" +
  icmp_timeout :: int

definition DefaultICMPTimeout :: int where "DefaultICMPTimeout = 30 * 1000000000"
definition DefaultMaxICMPEntries :: int where "DefaultMaxICMPEntries = 2048"
definition ICMPv4TypeEchoRequest :: byte where "ICMPv4TypeEchoRequest = 8"
definition ICMPv4TypeEchoReply :: byte where "ICMPv4TypeEchoReply = 0"
definition ICMPv6TypeEchoReply :: byte where "ICMPv6TypeEchoReply = 129"

definition NewICMPTracker :: "int \<Rightarrow> int \<Rightarrow> icmp_tracker" where
  "NewICMPTracker tmo maxE =
     \<lparr> connections = Some [], maxEntries = maxE, flowLogger = [],
       icmp_timeout = (if tmo = 0 then DefaultICMPTimeout else tmo) \<rparr>"

definition icmpProtocolForAddr :: "addr \<Rightarrow> byte" where
  "icmpProtocolForAddr ip = (if is6 ip then proto_ICMPv6 else proto_ICMP)"

definition icmp_sendEvent :: "event_type \<Rightarrow> bytes \<Rightarrow> icmp_conn \<Rightarrow> EventFields" where
  "icmp_sendEvent typ ruleID c =
     \<lparr> FlowID = FlowId c, EventType = typ, RuleID = ruleID, ev_dir = conn_dir c,
       Protocol = icmpProtocolForAddr (SourceIP c), ev_src = SourceIP c, ev_dst = DestIP c,
       ev_sport = 0, ev_dport = 0, ev_icmp_type = ICMPType c, ev_icmp_code = ICMPCode c,
       RxPackets = PacketsRx c, TxPackets = PacketsTx c, RxBytes = BytesRx c, TxBytes = BytesTx c \<rparr>"

definition sendStartEvent :: "uuid \<Rightarrow> Direction \<Rightarrow> ICMPConnKey \<Rightarrow> byte \<Rightarrow> byte \<Rightarrow> bytes \<Rightarrow> int \<Rightarrow> EventFields" where
  "sendStartEvent fid direction key typ code ruleID sz =
     (let e = \<lparr> FlowID = fid, EventType = TypeStart, RuleID = ruleID, ev_dir = direction,
                Protocol = icmpProtocolForAddr (icmp_src key), ev_src = icmp_src key,
                ev_dst = icmp_dst key, ev_sport = 0, ev_dport = 0, ev_icmp_type = typ,
                ev_icmp_code = code, RxPackets = 0, TxPackets = 0, RxBytes = 0, TxBytes = 0 \<rparr>
      in if direction = Ingress then e\<lparr> RxPackets := 1, RxBytes := word_of_int sz \<rparr>
         else e\<lparr> TxPackets := 1, TxBytes := word_of_int sz \<rparr>)"

definition icmp_touch :: "int \<Rightarrow> Direction \<Rightarrow> int \<Rightarrow> ICMPConnKey \<Rightarrow> icmp_conn \<Rightarrow> icmp_tracker \<Rightarrow> icmp_tracker" where
  "icmp_touch now direction sz key c t =
     set_conns (gput key (UpdateCounters direction sz (UpdateLastSeen now c)) (conns t)) t"

definition icmp_updateIfExists ::
    "int \<Rightarrow> ICMPConnKey \<Rightarrow> Direction \<Rightarrow> int \<Rightarrow> icmp_tracker \<Rightarrow> icmp_tracker \<times> bool" where
  "icmp_updateIfExists now key direction sz t =
     (case gget (conns t) key of
        Some c \<Rightarrow> (icmp_touch now direction sz key c t, True)
      | None \<Rightarrow> (t, False))"

definition icmp_evictOneLocked :: "ICMPConnKey list \<Rightarrow> icmp_tracker \<Rightarrow> icmp_tracker" where
  "icmp_evictOneLocked order t = evict_sampled (icmp_sendEvent TypeEnd []) order t"

definition icmp_track ::
    "int \<Rightarrow> uuid \<Rightarrow> ICMPConnKey list \<Rightarrow> ICMPConnKey \<Rightarrow> u16 \<Rightarrow> Direction \<Rightarrow> bytes \<Rightarrow> int \<Rightarrow>
     icmp_tracker \<Rightarrow> icmp_tracker option" where
  "icmp_track now fid order key typecode direction ruleId sz t =
     (let (t', exists) = icmp_updateIfExists now key direction sz t
      in if exists then Some t'
         else let typ = icmp_type typecode; code = icmp_code typecode
              in if typ \<noteq> ICMPv4TypeEchoRequest
                 then Some (StoreEvents [sendStartEvent fid direction key typ code ruleId sz] t')
                 else let c = UpdateCounters direction sz (UpdateLastSeen now
                            \<lparr> FlowId = fid, conn_dir = direction, SourceIP = icmp_src key,
                              DestIP = icmp_dst key, lastSeen = 0, PacketsTx = 0, PacketsRx = 0,
                              BytesTx = 0, BytesRx = 0, DNATOrigPort = 0, ICMPType = typ, ICMPCode = code \<rparr>)
                      in map_option (StoreEvents [icmp_sendEvent TypeStart ruleId c])
                           (insert_conn icmp_evictOneLocked order key c t'))"

definition icmp_swap :: "ICMPConnKey \<Rightarrow> ICMPConnKey" where
  "icmp_swap k = \<lparr> icmp_src = icmp_dst k, icmp_dst = icmp_src k, icmp_id = icmp_id k \<rparr>"

definition icmp_TrackOutbound ::
    "int \<Rightarrow> uuid \<Rightarrow> ICMPConnKey list \<Rightarrow> ICMPConnKey \<Rightarrow> u16 \<Rightarrow> int \<Rightarrow> icmp_tracker \<Rightarrow> icmp_tracker option" where
  "icmp_TrackOutbound now fid order pkt typecode sz t =
     (let (t', exists) = icmp_updateIfExists now (icmp_swap pkt) Egress sz t
      in if exists then Some t' else icmp_track now fid order pkt typecode Egress [] sz t')"

definition icmp_TrackInbound ::
    "int \<Rightarrow> uuid \<Rightarrow> ICMPConnKey list \<Rightarrow> ICMPConnKey \<Rightarrow> u16 \<Rightarrow> bytes \<Rightarrow> int \<Rightarrow> icmp_tracker \<Rightarrow> icmp_tracker option" where
  "icmp_TrackInbound now fid order pkt typecode ruleId sz t =
     icmp_track now fid order pkt typecode Ingress ruleId sz t"

definition icmp_IsValidInbound :: "int \<Rightarrow> ICMPConnKey \<Rightarrow> byte \<Rightarrow> int \<Rightarrow> icmp_tracker \<Rightarrow> icmp_tracker \<times> bool" where
  "icmp_IsValidInbound now pkt icmpType sz t =
     (if icmpType \<noteq> ICMPv4TypeEchoReply \<and> icmpType \<noteq> ICMPv6TypeEchoReply then (t, False)
      else case gget (conns t) (icmp_swap pkt) of
             None \<Rightarrow> (t, False)
           | Some c \<Rightarrow>
               if timeoutExceeded now (icmp_timeout t) c then (t, False)
               else (icmp_touch now Ingress sz (icmp_swap pkt) c t, True))"

definition icmp_cleanup :: "int \<Rightarrow> ICMPConnKey list \<Rightarrow> icmp_tracker \<Rightarrow> icmp_tracker" where
  "icmp_cleanup now order t = cleanup_idle (icmp_sendEvent TypeEnd []) now (icmp_timeout t) order t"

definition icmp_Close :: "icmp_tracker \<Rightarrow> icmp_tracker" where
  "icmp_Close t = t\<lparr> connections := None \<rparr>"

datatype icmp_op =
    IOut int uuid "ICMPConnKey list" ICMPConnKey u16 int
  | IIn int uuid "ICMPConnKey list" ICMPConnKey u16 bytes int
  | IValid int ICMPConnKey byte int
  | IClean int "ICMPConnKey list"

fun icmp_exec :: "icmp_op \<Rightarrow> icmp_tracker \<Rightarrow> icmp_tracker option" where
  "icmp_exec (IOut now fid order pkt tc sz) t = icmp_TrackOutbound now fid order pkt tc sz t"
| "icmp_exec (IIn now fid order pkt tc ruleId sz) t = icmp_TrackInbound now fid order pkt tc ruleId sz t"
| "icmp_exec (IValid now pkt typ sz) t = Some (fst (icmp_IsValidInbound now pkt typ sz t))"
| "icmp_exec (IClean now order) t = Some (icmp_cleanup now order t)"

fun icmp_run :: "icmp_op list \<Rightarrow> icmp_tracker \<Rightarrow> icmp_tracker option" where
  "icmp_run [] t = Some t"
| "icmp_run (op # ops) t = do { t' \<leftarrow> icmp_exec op t; icmp_run ops t' }"

fun icmp_opens :: "icmp_op \<Rightarrow> ICMPConnKey \<Rightarrow> bool" where
  "icmp_opens (IOut now fid order pkt tc sz) k \<longleftrightarrow> pkt = k \<and> icmp_type tc = ICMPv4TypeEchoRequest"
| "icmp_opens (IIn now fid order pkt tc ruleId sz) k \<longleftrightarrow> pkt = k \<and> icmp_type tc = ICMPv4TypeEchoRequest"
| "icmp_opens _ k \<longleftrightarrow> False"

section \<open>The bound\<close>

lemma icmp_sendEvent_simps [simp]:
  "FlowID (icmp_sendEvent typ r c) = FlowId c" "EventType (icmp_sendEvent typ r c) = typ"
  by (simp_all add: icmp_sendEvent_def)

interpretation icmp_table: evicting_table icmp_evictOneLocked FlowId "\<lambda>_. False"
  unfolding icmp_evictOneLocked_def
  by unfold_locales (unfold not_False_eq_True, rule evict_sampled_one, simp_all)

definition icmp_inv :: "icmp_tracker \<Rightarrow> bool" where
  "icmp_inv t \<longleftrightarrow> connections t \<noteq> None \<and> within_cap t"

fun icmp_op_ok :: "icmp_op \<Rightarrow> icmp_tracker \<Rightarrow> bool" where
  "icmp_op_ok (IOut now fid order pkt tc sz) t \<longleftrightarrow> iterates order (conns t)"
| "icmp_op_ok (IIn now fid order pkt tc ruleId sz) t \<longleftrightarrow> iterates order (conns t)"
| "icmp_op_ok (IValid now pkt typ sz) t \<longleftrightarrow> True"
| "icmp_op_ok (IClean now order) t \<longleftrightarrow> iterates order (conns t)"

definition icmp_step :: "icmp_tracker \<Rightarrow> icmp_tracker \<Rightarrow> bool" where
  "icmp_step t t' \<longleftrightarrow> (\<exists>op. icmp_op_ok op t \<and> icmp_exec op t = Some t')"

definition icmp_start :: "icmp_tracker \<Rightarrow> bool" where
  "icmp_start t \<longleftrightarrow> (\<exists>tmo mx. t = NewICMPTracker tmo mx)"

lemma icmp_touch_inv:
  "icmp_inv t \<Longrightarrow> gget (conns t) key = Some c \<Longrightarrow> icmp_inv (icmp_touch now d sz key c t)"
  using within_cap_put [of t key "[]"] by (auto simp: icmp_inv_def icmp_touch_def set_conns_def)

lemma icmp_track_inv:
  assumes "icmp_inv t" and "iterates order (conns t)"
  shows "\<exists>t'. icmp_track now fid order key tc d ruleId sz t = Some t' \<and> icmp_inv t'"
proof (cases "gget (conns t) key")
  case (Some c)
  then show ?thesis using icmp_touch_inv [OF assms(1)] by (simp add: icmp_track_def icmp_updateIfExists_def)
next
  case None
  obtain m where m: "connections t = Some m" using assms(1) by (auto simp: icmp_inv_def)
  have ins: "\<exists>t'. map_option (StoreEvents [e]) (insert_conn icmp_evictOneLocked order key c t) = Some t' \<and>
      icmp_inv t'" for e c
  proof -
    from icmp_table.insert_conn_ok [OF assms(2) m, of key c] assms(1) obtain t' where
      "insert_conn icmp_evictOneLocked order key c t = Some t'" "connections t' \<noteq> None" "within_cap t'"
      unfolding icmp_inv_def by blast
    then show ?thesis by (simp add: icmp_inv_def within_cap_def)
  qed
  show ?thesis
  proof (cases "icmp_type tc = ICMPv4TypeEchoRequest")
    case True
    then show ?thesis using None ins by (simp add: icmp_track_def icmp_updateIfExists_def Let_def)
  next
    case False
    then show ?thesis using None assms(1)
      by (simp add: icmp_track_def icmp_updateIfExists_def Let_def icmp_inv_def within_cap_def)
  qed
qed

lemma icmp_cleanup_inv:
  "icmp_inv t \<Longrightarrow> icmp_inv (cleanup_idle e now tmo ks (t :: icmp_tracker))"
proof (induction e now tmo ks t rule: cleanup_idle.induct)
  case (2 e now tmo k ks t)
  have "icmp_inv (StoreEvents [e c] (set_conns (gdel k (conns t)) t))" if "gget (conns t) k = Some c" for c
    using 2(4) that within_cap_del [of t k "[e c]"] by (auto simp: icmp_inv_def set_conns_def)
  then show ?case using 2 by (auto split: option.splits)
qed simp

lemma icmp_exec_inv:
  assumes "icmp_inv t" and "icmp_op_ok op t"
  shows "\<exists>t'. icmp_exec op t = Some t' \<and> icmp_inv t'"
proof (cases op)
  case (IOut now fid order pkt tc sz)
  then show ?thesis using icmp_track_inv [OF assms(1)] icmp_touch_inv [OF assms(1)] assms(2)
    by (cases "gget (conns t) (icmp_swap pkt)")
      (auto simp: icmp_TrackOutbound_def icmp_updateIfExists_def)
next
  case (IIn now fid order pkt tc ruleId sz)
  then show ?thesis using icmp_track_inv [OF assms(1)] assms(2) by (simp add: icmp_TrackInbound_def)
next
  case (IValid now pkt ty sz)
  then show ?thesis using assms(1) icmp_touch_inv [OF assms(1)]
    by (auto simp: icmp_IsValidInbound_def split: option.splits)
next
  case (IClean now order)
  then show ?thesis using icmp_cleanup_inv [OF assms(1)] by (simp add: icmp_cleanup_def)
qed

interpretation icmp_sys: invariant_system icmp_start icmp_step icmp_inv
proof
  show "icmp_start t \<Longrightarrow> icmp_inv t" for t
    by (auto simp: icmp_start_def NewICMPTracker_def icmp_inv_def within_cap_def conns_def)
  show "icmp_inv t \<Longrightarrow> icmp_step t t' \<Longrightarrow> icmp_inv t'" for t t'
    using icmp_exec_inv by (fastforce simp: icmp_step_def)
qed

section \<open>Properties\<close>

lemma tracked_icmp_touch:
  "gget (conns t) key = Some c \<Longrightarrow> tracked (icmp_touch now d sz key c t) k \<Longrightarrow> tracked t k"
  by (auto simp: icmp_touch_def tracked_simps) (simp add: tracked_def)

lemma tracked_icmp_track:
  assumes "icmp_track now fid order key tc d r sz t = Some t'" and "tracked t' k"
  shows "tracked t k \<or> k = key \<and> icmp_type tc = ICMPv4TypeEchoRequest"
proof (cases "gget (conns t) key")
  case (Some c)
  then have "t' = icmp_touch now d sz key c t" using assms(1) by (simp add: icmp_track_def icmp_updateIfExists_def)
  then show ?thesis using assms(2) tracked_icmp_touch [OF Some] by blast
next
  case None
  show ?thesis
  proof (cases "icmp_type tc = ICMPv4TypeEchoRequest")
    case True
    with None assms(1) obtain c t1 where t1: "insert_conn icmp_evictOneLocked order key c t = Some t1"
      "t' = StoreEvents [icmp_sendEvent TypeStart r c] t1"
      by (auto simp: icmp_track_def icmp_updateIfExists_def Let_def)
    then have "tracked t1 k" using assms(2) by (simp add: tracked_simps)
    from tracked_insert_conn [OF t1(1) this] show ?thesis
      using tracked_evict_sampled True by (metis icmp_evictOneLocked_def)
  next
    case False
    then show ?thesis using None assms by (auto simp: icmp_track_def icmp_updateIfExists_def Let_def tracked_simps)
  qed
qed

lemma tracked_icmp_exec:
  assumes "icmp_exec op t = Some t'" and "tracked t' k"
  shows "tracked t k \<or> icmp_opens op k"
proof (cases op)
  case (IOut now fid order pkt tc sz)
  show ?thesis
  proof (cases "gget (conns t) (icmp_swap pkt)")
    case None
    then have "icmp_track now fid order pkt tc Egress [] sz t = Some t'"
      using assms(1) IOut by (simp add: icmp_TrackOutbound_def icmp_updateIfExists_def)
    from tracked_icmp_track [OF this assms(2)] IOut show ?thesis by auto
  next
    case (Some c)
    then have "t' = icmp_touch now Egress sz (icmp_swap pkt) c t"
      using assms(1) IOut by (simp add: icmp_TrackOutbound_def icmp_updateIfExists_def)
    then show ?thesis using assms(2) tracked_icmp_touch [OF Some] by blast
  qed
next
  case (IIn now fid order pkt tc ruleId sz)
  then have "icmp_track now fid order pkt tc Ingress ruleId sz t = Some t'"
    using assms(1) by (simp add: icmp_TrackInbound_def)
  from tracked_icmp_track [OF this assms(2)] IIn show ?thesis by auto
next
  case (IValid now pkt ty sz)
  then show ?thesis using assms
    by (auto simp: icmp_IsValidInbound_def split: option.splits if_splits intro: tracked_icmp_touch)
next
  case (IClean now order)
  then show ?thesis using assms tracked_cleanup_idle by (auto simp: icmp_cleanup_def)
qed

lemma tracked_icmp_run:
  "icmp_run ops t = Some t' \<Longrightarrow> tracked t' k \<Longrightarrow> tracked t k \<or> (\<exists>op\<in>set ops. icmp_opens op k)"
proof (induction ops arbitrary: t)
  case (Cons op ops)
  then obtain t1 where "icmp_exec op t = Some t1" "icmp_run ops t1 = Some t'" by (auto split: bind_splits)
  then show ?case using Cons.IH [of t1] Cons.prems(2) tracked_icmp_exec [of op t t1 k] by auto
qed simp

text \<open>
  C28. Only solicited echo replies enter: from a new tracker, an inbound ICMP message is accepted as
  tracked only if it is an echo reply (of ICMPv4 or ICMPv6) and an earlier packet of the sequence was
  an echo request with the same identifier between the reversed addresses, active within the
  timeout. Error messages and requests are never accepted this way.
\<close>

theorem icmp_reply_solicited:
  assumes "icmp_start t0" and "icmp_run ops t0 = Some t" and "snd (icmp_IsValidInbound now pkt typ sz t)"
  shows "(typ = ICMPv4TypeEchoReply \<or> typ = ICMPv6TypeEchoReply) \<and>
    (\<exists>op\<in>set ops. icmp_opens op (icmp_swap pkt)) \<and>
    (\<exists>c. gget (conns t) (icmp_swap pkt) = Some c \<and> now - lastSeen c \<le> icmp_timeout t)"
proof -
  have ty: "typ = ICMPv4TypeEchoReply \<or> typ = ICMPv6TypeEchoReply"
    using assms(3) by (auto simp: icmp_IsValidInbound_def split: if_splits)
  with assms(3) obtain c where c: "gget (conns t) (icmp_swap pkt) = Some c" "now - lastSeen c \<le> icmp_timeout t"
    by (auto simp: icmp_IsValidInbound_def timeoutExceeded_def split: option.splits if_splits)
  have "\<not> tracked t0 k" for k using assms(1) by (auto simp: icmp_start_def NewICMPTracker_def tracked_def conns_def)
  then show ?thesis using ty tracked_icmp_run [OF assms(2), of "icmp_swap pkt"] c by (auto simp: tracked_def)
qed

definition icmp_sample_pkt :: ICMPConnKey where
  "icmp_sample_pkt = \<lparr> icmp_src = Addr4 1, icmp_dst = Addr4 2, icmp_id = 77 \<rparr>"

definition icmp_sample :: icmp_tracker where
  "icmp_sample = the (icmp_run [IOut 5 7 [] icmp_sample_pkt 0x0800 60] (NewICMPTracker 0 100))"

lemmas icmp_eval = icmp_sample_def icmp_TrackOutbound_def icmp_updateIfExists_def NewICMPTracker_def
  conns_def icmp_track_def insert_conn_def Let_def StoreEvents_def icmp_swap_def icmp_sample_pkt_def
  icmp_type_def ICMPv4TypeEchoRequest_def

theorem icmp_reply_solicited_witness:
  "((0 :: byte) = ICMPv4TypeEchoReply \<or> (0 :: byte) = ICMPv6TypeEchoReply) \<and>
    (\<exists>op\<in>set [IOut 5 7 [] icmp_sample_pkt 0x0800 60]. icmp_opens op (icmp_swap (icmp_swap icmp_sample_pkt))) \<and>
    (\<exists>c. gget (conns icmp_sample) (icmp_swap (icmp_swap icmp_sample_pkt)) = Some c \<and>
      6 - lastSeen c \<le> icmp_timeout icmp_sample)"
proof (rule icmp_reply_solicited)
  show "icmp_start (NewICMPTracker 0 100)" unfolding icmp_start_def by blast
  show "icmp_run [IOut 5 7 [] icmp_sample_pkt 0x0800 60] (NewICMPTracker 0 100) = Some icmp_sample"
    by (simp add: icmp_eval)
  show "snd (icmp_IsValidInbound 6 (icmp_swap icmp_sample_pkt) 0 60 icmp_sample)"
    by (simp add: icmp_eval icmp_IsValidInbound_def timeoutExceeded_def DefaultICMPTimeout_def
        ICMPv4TypeEchoReply_def UpdateCounters_def UpdateLastSeen_def)
qed

lemma parse_quoted_total:
  assumes len: "length (PayloadData info) = 48"
  shows "\<exists>q. parse_quoted v info =
    Some (if v = 4 \<and> 28 \<le> PayloadLen info \<or> v = 6 \<and> 48 \<le> PayloadLen info then Some q else None)"
proof (cases "v = 4 \<and> 28 \<le> PayloadLen info \<or> v = 6 \<and> 48 \<le> PayloadLen info")
  case False
  then show ?thesis
    by (simp add: parse_quoted_def minICMPPayloadIPv4_def minICMPPayloadIPv6_def) auto
next
  case True
  let ?o = "if v = 4 then 20 else (40 :: nat)"
  define d where "d = drop ?o (PayloadData info)"
  have dl: "8 \<le> length d" using len by (simp add: d_def)
  then have "d \<noteq> []" by auto
  then obtain p1 p2 where d: "idx d 0 = Some (d ! 0)" "idx d 1 = Some (d ! 1)" "be16 d = Some p1"
    "(slice_from d 2 \<bind> be16) = Some p2"
    using dl by (auto simp: idx_Some be16_Some slice_from_Some)
  have sl: "slice_from (PayloadData info) ?o = Some d" using len by (simp add: slice_from_Some d_def)
  obtain pr si di where hd: "idx (PayloadData info) (if v = 4 then 9 else 6) = Some pr"
    "(if v = 4 then slice (PayloadData info) 12 16 else slice (PayloadData info) 8 24) = Some si"
    "(if v = 4 then slice (PayloadData info) 16 20 else slice (PayloadData info) 24 40) = Some di"
    using len by (cases "v = 4") (simp_all add: idx_Some slice_Some)
  have cond: "\<not> ((v = 4 \<and> PayloadLen info < 28) \<or> (v = 6 \<and> PayloadLen info < 48) \<or> (v \<noteq> 4 \<and> v \<noteq> 6))"
    using True by auto
  have "\<exists>q. parse_quoted v info = Some (Some q)"
    unfolding parse_quoted_def minICMPPayloadIPv4_def minICMPPayloadIPv6_def if_not_P [OF cond] hd sl
    by (simp add: d d(2) [simplified])
  then show ?thesis using True by simp
qed

text \<open>
  The description of a quoted packet is total and never reads beyond what was captured for its
  version: for every ICMP payload, of any length, decoding the quoted packet does not panic, and it
  describes a packet only when at least 28 bytes (IPv4) or 48 bytes (IPv6) were present.
\<close>

theorem quoted_packet_safe:
  "\<exists>r. parseOriginalPacket (icmp_info tc payload) = Some r \<and>
    (r \<noteq> None \<longleftrightarrow> payload \<noteq> [] \<and> (let v = drop_bit 4 (hd payload) AND 0xF in
      v = 4 \<and> 28 \<le> length payload \<or> v = 6 \<and> 48 \<le> length payload))"
proof (cases payload)
  case Nil
  then show ?thesis by (simp add: parseOriginalPacket_def icmp_info_def)
next
  case (Cons b bs)
  let ?i = "icmp_info tc payload"
  have i: "length (PayloadData ?i) = 48" "PayloadLen ?i \<noteq> 0" "PayloadData ?i ! 0 = b"
    "PayloadLen ?i = min (length payload) 48"
    using Cons by (simp_all add: icmp_info_def MaxICMPPayloadLength_def Let_def nth_append)
  have "parseOriginalPacket ?i = parse_quoted (drop_bit 4 b AND 0xF) ?i"
    using i(1-3) by (simp add: parseOriginalPacket_def idx_Some)
  then show ?thesis using parse_quoted_total [OF i(1), of "drop_bit 4 b AND 0xF"] Cons i(4)
    by (auto simp: Let_def)
qed

end
