(* ===== verification/UspPacket.thy ===== *)
theory UspPacket
  imports FirewallTypes Checksum ConntrackTCP ConntrackUDP ConntrackICMP
begin

text \<open>
  The packet layer of the userspace firewall (\<open>client/firewall/uspfilter\<close>): the pooled decoder, the
  fields the filter reads from it, the outbound packet hooks and the local address table.

  \<^item> The packet parser (\<open>gopacket\<close>) is a parameter, \<open>DecodeLayers\<close>: it takes the first layer to expect,
    the packet and the layer structs of the decoder (which keep their content when a layer is absent)
    and returns the filled structs and whether it succeeded.
  \<^item> A decoder comes from a pool: besides the layer structs it carries \<open>dnatOrigPort\<close>, which the
    parser does not touch.
  \<^item> A layer type is compared only for equality: the named layers are constructors.
  \<^item> Slices are checked against the length of the packet; capacity beyond it is not modelled.
\<close>

section \<open>Layers\<close>

datatype LayerType = LayerTypeZero | LayerTypeIPv4 | LayerTypeIPv6 | LayerTypeTCP | LayerTypeUDP
  | LayerTypeICMPv4 | LayerTypeICMPv6 | layerTypeAll | LayerOther nat

record ip4_layer =
  IHL :: byte
  ip4_SrcIP :: bytes
  ip4_DstIP :: bytes
  ip4_MF :: bool
  FragOffset :: u16
  ip4_Protocol :: byte

record ip6_layer =
  NextHeader :: byte
  ip6_SrcIP :: bytes
  ip6_DstIP :: bytes

record TCPOption =
  OptionType :: byte
  OptionData :: bytes

record tcp_layer =
  tcp_SrcPort :: u16
  tcp_DstPort :: u16
  SYN :: bool
  ACK :: bool
  FIN :: bool
  RST :: bool
  PSH :: bool
  URG :: bool
  Options :: "TCPOption list"

record udp_layer =
  udp_SrcPort :: u16
  udp_DstPort :: u16

record icmp4_layer =
  icmp4_Id :: u16
  icmp4_TypeCode :: u16
  icmp4_Payload :: bytes

record icmp6_layer =
  icmp6_TypeCode :: u16
  icmp6_Payload :: bytes

record layers =
  decoded :: "LayerType list"
  ip4 :: ip4_layer
  ip6 :: ip6_layer
  tcp :: tcp_layer
  udp :: udp_layer
  icmp4 :: icmp4_layer
  icmp6 :: icmp6_layer

record decoder =
  lay :: layers
  dnatOrigPort :: u16

type_synonym parser = "LayerType \<Rightarrow> bytes \<Rightarrow> layers \<Rightarrow> layers \<times> bool"

definition zero_layers :: layers where
  "zero_layers =
     \<lparr> decoded = [],
       ip4 = \<lparr> IHL = 0, ip4_SrcIP = [], ip4_DstIP = [], ip4_MF = False, FragOffset = 0, ip4_Protocol = 0 \<rparr>,
       ip6 = \<lparr> NextHeader = 0, ip6_SrcIP = [], ip6_DstIP = [] \<rparr>,
       tcp = \<lparr> tcp_SrcPort = 0, tcp_DstPort = 0, SYN = False, ACK = False, FIN = False, RST = False,
               PSH = False, URG = False, Options = [] \<rparr>,
       udp = \<lparr> udp_SrcPort = 0, udp_DstPort = 0 \<rparr>,
       icmp4 = \<lparr> icmp4_Id = 0, icmp4_TypeCode = 0, icmp4_Payload = [] \<rparr>,
       icmp6 = \<lparr> icmp6_TypeCode = 0, icmp6_Payload = [] \<rparr> \<rparr>"

definition new_decoder :: decoder where "new_decoder = \<lparr> lay = zero_layers, dnatOrigPort = 0 \<rparr>"

text \<open>The decoder after decoding, and whether there was no error.\<close>

definition decodePacket :: "parser \<Rightarrow> bytes \<Rightarrow> decoder \<Rightarrow> decoder \<times> bool" where
  "decodePacket DecodeLayers data d =
     (case data of
        [] \<Rightarrow> (d, False)
      | b # _ \<Rightarrow>
          (let version = drop_bit 4 b
           in if version = 4 then
                (let (l, ok) = DecodeLayers LayerTypeIPv4 data (lay d) in (d\<lparr> lay := l \<rparr>, ok))
              else if version = 6 then
                (let (l, ok) = DecodeLayers LayerTypeIPv6 data (lay d) in (d\<lparr> lay := l \<rparr>, ok))
              else (d, False)))"

definition slice_addr :: "bytes \<Rightarrow> addr" where
  "slice_addr bs = (case addr_from_slice bs of Some a \<Rightarrow> a | None \<Rightarrow> NoAddr)"

definition extractIPs :: "layers \<Rightarrow> (addr \<times> addr) option" where
  "extractIPs l =
     (case idx (decoded l) 0 of
        None \<Rightarrow> None
      | Some LayerTypeIPv4 \<Rightarrow> Some (slice_addr (ip4_SrcIP (ip4 l)), slice_addr (ip4_DstIP (ip4 l)))
      | Some LayerTypeIPv6 \<Rightarrow> Some (slice_addr (ip6_SrcIP (ip6 l)), slice_addr (ip6_DstIP (ip6 l)))
      | Some _ \<Rightarrow> Some (NoAddr, NoAddr))"

section \<open>Fields of the transport layer\<close>

definition getTCPFlags :: "tcp_layer \<Rightarrow> byte" where
  "getTCPFlags t =
     (let flags = 0;
          flags = (if SYN t then flags OR TCPSyn else flags);
          flags = (if ACK t then flags OR TCPAck else flags);
          flags = (if FIN t then flags OR TCPFin else flags);
          flags = (if RST t then flags OR TCPRst else flags);
          flags = (if PSH t then flags OR TCPPush else flags)
      in if URG t then flags OR TCPUrg else flags)"

definition ICMPv6TypeEchoRequest :: byte where "ICMPv6TypeEchoRequest = 128"

definition CreateICMPv4TypeCode :: "byte \<Rightarrow> byte \<Rightarrow> u16" where
  "CreateICMPv4TypeCode t c = push_bit 8 (ucast t) OR ucast c"

definition icmpv6EchoFields :: "layers \<Rightarrow> u16 \<times> u16" where
  "icmpv6EchoFields l =
     (let pl = icmp6_Payload (icmp6 l); tc = icmp6_TypeCode (icmp6 l);
          id = (case pl of a # b # _ \<Rightarrow> push_bit 8 (ucast a) OR ucast b | _ \<Rightarrow> 0);
          t = icmp_type tc
      in (id, if t = ICMPv6TypeEchoRequest then CreateICMPv4TypeCode ICMPv4TypeEchoRequest 0
              else if t = ICMPv6TypeEchoReply then CreateICMPv4TypeCode ICMPv4TypeEchoReply 0
              else CreateICMPv4TypeCode t (icmp_code tc)))"

definition protoLayerMatches :: "LayerType \<Rightarrow> LayerType \<Rightarrow> bool" where
  "protoLayerMatches ruleLayer packetLayer =
     (ruleLayer = packetLayer \<or>
      ruleLayer = LayerTypeICMPv4 \<and> packetLayer = LayerTypeICMPv6 \<or>
      ruleLayer = LayerTypeICMPv6 \<and> packetLayer = LayerTypeICMPv4)"

definition ipLayerFromPrefix :: "prefix \<Rightarrow> LayerType" where
  "ipLayerFromPrefix p = (if is6 (pfx_addr p) then LayerTypeIPv6 else LayerTypeIPv4)"

definition protoToLayer :: "Protocol \<Rightarrow> LayerType \<Rightarrow> LayerType" where
  "protoToLayer proto ipLayer =
     (if proto = ProtocolTCP then LayerTypeTCP
      else if proto = ProtocolUDP then LayerTypeUDP
      else if proto = ProtocolICMP then (if ipLayer = LayerTypeIPv6 then LayerTypeICMPv6 else LayerTypeICMPv4)
      else if proto = ProtocolALL then layerTypeAll
      else LayerTypeZero)"

fun layer_protocol :: "LayerType \<Rightarrow> byte" where
  "layer_protocol LayerTypeTCP = proto_TCP"
| "layer_protocol LayerTypeUDP = proto_UDP"
| "layer_protocol LayerTypeICMPv4 = proto_ICMP"
| "layer_protocol LayerTypeICMPv6 = proto_ICMPv6"
| "layer_protocol _ = 0"

definition getProtocolFromPacket :: "layers \<Rightarrow> byte option" where
  "getProtocolFromPacket l = map_option layer_protocol (idx (decoded l) 1)"

fun layer_ports :: "layers \<Rightarrow> LayerType \<Rightarrow> u16 \<times> u16" where
  "layer_ports l LayerTypeTCP = (tcp_SrcPort (tcp l), tcp_DstPort (tcp l))"
| "layer_ports l LayerTypeUDP = (udp_SrcPort (udp l), udp_DstPort (udp l))"
| "layer_ports l _ = (0, 0)"

definition getPortsFromPacket :: "layers \<Rightarrow> (u16 \<times> u16) option" where
  "getPortsFromPacket l = map_option (layer_ports l) (idx (decoded l) 1)"

definition IPProtocolIPv6Fragment :: byte where "IPProtocolIPv6Fragment = 44"

text \<open>The decoder after decoding, whether the packet is valid and whether it is a fragment.\<close>

definition isValidPacket :: "parser \<Rightarrow> bytes \<Rightarrow> decoder \<Rightarrow> decoder \<times> bool \<times> bool" where
  "isValidPacket P data d =
     (let (d, ok) = decodePacket P data d; l = lay d
      in if \<not> ok then (d, False, False)
         else if 2 \<le> length (decoded l) then (d, True, False)
         else (d, case decoded l of
                    [LayerTypeIPv4] \<Rightarrow>
                      if ip4_MF (ip4 l) \<or> FragOffset (ip4 l) \<noteq> 0 then (True, True) else (False, False)
                  | [LayerTypeIPv6] \<Rightarrow>
                      if NextHeader (ip6 l) = IPProtocolIPv6Fragment then (True, True) else (False, False)
                  | _ \<Rightarrow> (False, False)))"

section \<open>Packet hooks\<close>

text \<open>A hook is a function of the packet; it returns whether it consumed the packet.\<close>

record PacketHook =
  hook_IP :: addr
  hook_Port :: u16
  Fn :: "bytes \<Rightarrow> bool"

definition HookMatches :: "PacketHook option \<Rightarrow> addr \<Rightarrow> u16 \<Rightarrow> bytes \<Rightarrow> bool" where
  "HookMatches h dstIP dport packetData =
     (case h of
        None \<Rightarrow> False
      | Some h \<Rightarrow> if hook_IP h = dstIP \<and> hook_Port h = dport then Fn h packetData else False)"

definition SetHook :: "addr \<Rightarrow> u16 \<Rightarrow> (bytes \<Rightarrow> bool) option \<Rightarrow> PacketHook option" where
  "SetHook ip dPort hook =
     (case hook of
        None \<Rightarrow> None
      | Some f \<Rightarrow> Some \<lparr> hook_IP = ip, hook_Port = dPort, Fn = f \<rparr>)"

text \<open>The filter that only runs the hooks, when a native firewall filters.\<close>

record HooksFilter =
  hf_udpHook :: "PacketHook option"
  hf_tcpHook :: "PacketHook option"

definition hooks_FilterOutbound :: "HooksFilter \<Rightarrow> bytes \<Rightarrow> bool option" where
  "hooks_FilterOutbound f p =
     (if length p < 20 then Some False
      else if drop_bit 4 (p ! 0) \<noteq> 4 then Some False
      else let ihl = unat (p ! 0 AND 0x0f) * 4
           in if ihl < 20 \<or> length p < ihl + 4 then Some False
              else do {
                fl \<leftarrow> slice p 6 8 \<bind> be16;
                if fl AND 0x1fff \<noteq> 0 then Some False
                else do {
                  dst \<leftarrow> slice p 16 20;
                  case addr_from_slice dst of
                    None \<Rightarrow> Some False
                  | Some dstIP \<Rightarrow> do {
                      dport \<leftarrow> slice p (ihl + 2) (ihl + 4) \<bind> be16;
                      Some (if p ! 9 = 17 then HookMatches (hf_udpHook f) dstIP dport p
                            else if p ! 9 = 6 then HookMatches (hf_tcpHook f) dstIP dport p
                            else False)
                    }
                }
              })"

section \<open>Local addresses\<close>

text \<open>The snapshot of the local addresses; an interface lists raw addresses, or fails.\<close>

record wg_address =
  wg_IP :: addr
  wg_Network :: prefix
  wg_IPv6 :: addr
  wg_IPv6Net :: prefix

fun processInterface :: "bytes list option \<Rightarrow> addr list \<Rightarrow> addr list" where
  "processInterface None ips = ips"
| "processInterface (Some []) ips = ips"
| "processInterface (Some (ip # rest)) ips =
     processInterface (Some rest)
       (case addr_from_slice ip of None \<Rightarrow> ips | Some a \<Rightarrow> List.insert (unmap a) ips)"

definition UpdateLocalIPs :: "wg_address option \<Rightarrow> bytes list option list option \<Rightarrow> addr list" where
  "UpdateLocalIPs iface interfaces =
     (let ips = [Addr6 1, Addr4 0x7F000001];
          ips = (case iface of
                   None \<Rightarrow> ips
                 | Some a \<Rightarrow>
                     (let ips = List.insert (wg_IP a) ips
                      in if is_valid (wg_IPv6 a) then List.insert (wg_IPv6 a) ips else ips))
      in case interfaces of None \<Rightarrow> ips | Some is \<Rightarrow> foldl (\<lambda>ips i. processInterface i ips) ips is)"

definition IsLocalIP :: "addr list \<Rightarrow> addr \<Rightarrow> bool" where
  "IsLocalIP ips ip =
     ((case ip of Addr4 w \<Rightarrow> drop_bit 24 w = 127 | _ \<Rightarrow> False) \<or> ip \<in> set ips)"

end
