(* ===== verification/UspNat.thy ===== *)
theory UspNat
  imports UspPacket
begin

text \<open>
  Address and port translation of the userspace firewall (\<open>uspfilter/nat.go\<close>) and the MSS clamping of
  \<open>filter.go\<close>: the 1:1 destination NAT with its two-way map, the inbound port redirection, and the
  rewriting of addresses, ports and the MSS option in the packet with the checksum updates.

  \<open>None\<close> is a panic (a slice or index out of range, a nil map), \<open>Inl\<close> a returned error. The packet is a
  byte list; an operation that rewrites it returns the new list.
\<close>

section \<open>State\<close>

record biDNATMap =
  forward :: "(addr, addr) gmap"
  reverse :: "(addr, addr) gmap"

record portDNATRule =
  protocol :: LayerType
  origPort :: u16
  targetPort :: u16
  targetIP :: addr

record nat_state =
  localIPs :: "addr list"
  dnatEnabled :: bool
  dnatMappings :: "(addr, addr) gmap"
  dnatBiMap :: "biDNATMap option"
  portDNATEnabled :: bool
  portDNATRules :: "portDNATRule list"

definition newBiDNATMap :: biDNATMap where "newBiDNATMap = \<lparr> forward = [], reverse = [] \<rparr>"

definition bi_set :: "addr \<Rightarrow> addr \<Rightarrow> biDNATMap \<Rightarrow> biDNATMap" where
  "bi_set original translated b =
     \<lparr> forward = gput original translated (forward b), reverse = gput translated original (reverse b) \<rparr>"

definition bi_delete :: "addr \<Rightarrow> biDNATMap \<Rightarrow> biDNATMap" where
  "bi_delete original b =
     (case gget (forward b) original of
        None \<Rightarrow> b
      | Some translated \<Rightarrow> \<lparr> forward = gdel original (forward b), reverse = gdel translated (reverse b) \<rparr>)"

definition getTranslated :: "addr \<Rightarrow> biDNATMap \<Rightarrow> addr option" where
  "getTranslated original b = gget (forward b) original"

definition getOriginal :: "addr \<Rightarrow> biDNATMap \<Rightarrow> addr option" where
  "getOriginal translated b = gget (reverse b) translated"

definition AddInternalDNATMapping ::
    "addr \<Rightarrow> addr \<Rightarrow> 'm nat_state_scheme \<Rightarrow> fw_err + 'm nat_state_scheme" where
  "AddInternalDNATMapping originalAddr translatedAddr m =
     (if \<not> is_valid originalAddr then Inl InvalidOriginal
      else if \<not> is_valid translatedAddr then Inl InvalidTranslated
      else if IsLocalIP (localIPs m) translatedAddr then Inl (MapToLocal translatedAddr)
      else let m = (if dnatBiMap m = None
                    then m\<lparr> dnatMappings := [], dnatBiMap := Some newBiDNATMap \<rparr> else m);
               m = m\<lparr> dnatMappings := gput originalAddr translatedAddr (dnatMappings m),
                      dnatBiMap := map_option (bi_set originalAddr translatedAddr) (dnatBiMap m) \<rparr>
           in Inr (if length (dnatMappings m) = 1 then m\<lparr> dnatEnabled := True \<rparr> else m))"

definition RemoveInternalDNATMapping ::
    "addr \<Rightarrow> 'm nat_state_scheme \<Rightarrow> (fw_err + 'm nat_state_scheme) option" where
  "RemoveInternalDNATMapping originalAddr m =
     (if gget (dnatMappings m) originalAddr = None then Some (Inl (MappingNotFound originalAddr))
      else case dnatBiMap m of
             None \<Rightarrow> None
           | Some b \<Rightarrow>
               (let m = m\<lparr> dnatMappings := gdel originalAddr (dnatMappings m),
                           dnatBiMap := Some (bi_delete originalAddr b) \<rparr>
                in Some (Inr (if length (dnatMappings m) = 0 then m\<lparr> dnatEnabled := False \<rparr> else m))))"

text \<open>The result is \<open>Some\<close> address when a mapping exists.\<close>

definition getDNATTranslation :: "addr \<Rightarrow> 'm nat_state_scheme \<Rightarrow> addr option option" where
  "getDNATTranslation a m =
     (if \<not> dnatEnabled m then Some None else map_option (getTranslated a) (dnatBiMap m))"

definition findReverseDNATMapping :: "addr \<Rightarrow> 'm nat_state_scheme \<Rightarrow> addr option option" where
  "findReverseDNATMapping a m =
     (if \<not> dnatEnabled m then Some None else map_option (getOriginal a) (dnatBiMap m))"

section \<open>Rewriting a packet\<close>

definition ipHeaderLen :: "layers \<Rightarrow> (fw_err + nat) option" where
  "ipHeaderLen l =
     (case idx (decoded l) 0 of
        None \<Rightarrow> None
      | Some LayerTypeIPv4 \<Rightarrow>
          (let n = unat (IHL (ip4 l)) * 4 in Some (if n < 20 then Inl BadHeaderLen else Inr n))
      | Some LayerTypeIPv6 \<Rightarrow> Some (Inr 40)
      | Some _ \<Rightarrow> Some (Inl UnknownIPLayer))"

definition get16_at :: "nat \<Rightarrow> bytes \<Rightarrow> u16 option" where
  "get16_at off p = slice p off (off + 2) \<bind> be16"

definition put_at :: "nat \<Rightarrow> bytes \<Rightarrow> bytes \<Rightarrow> bytes option" where
  "put_at off bs p =
     (if off + length bs \<le> length p then Some (take off p @ bs @ drop (off + length bs) p) else None)"

definition put16_at :: "nat \<Rightarrow> u16 \<Rightarrow> bytes \<Rightarrow> bytes option" where
  "put16_at off w p = put_at off (put16 w) p"

definition extractPacketIPs :: "bytes \<Rightarrow> layers \<Rightarrow> (addr \<times> addr) option" where
  "extractPacketIPs p l =
     (case idx (decoded l) 0 of
        None \<Rightarrow> None
      | Some LayerTypeIPv4 \<Rightarrow> do {
          s \<leftarrow> slice p 12 16; d \<leftarrow> slice p 16 20;
          Some (Addr4 (be_word s), Addr4 (be_word d)) }
      | Some LayerTypeIPv6 \<Rightarrow> do {
          s \<leftarrow> slice p 8 24; d \<leftarrow> slice p 24 40;
          Some (Addr6 (be_word s), Addr6 (be_word d)) }
      | Some _ \<Rightarrow> Some (NoAddr, NoAddr))"

text \<open>The incremental update of the checksum at an offset.\<close>

definition update_checksum_at :: "nat \<Rightarrow> bytes \<Rightarrow> bytes \<Rightarrow> bytes \<Rightarrow> bytes option" where
  "update_checksum_at off old new p = do {
     c \<leftarrow> get16_at off p;
     put16_at off (incrementalUpdate c old new) p
   }"

definition updateTCPChecksum :: "bytes \<Rightarrow> nat \<Rightarrow> bytes \<Rightarrow> bytes \<Rightarrow> bytes option" where
  "updateTCPChecksum p hl oldIP newIP =
     (if length p < hl + 18 then Some p
      else update_checksum_at (hl + 16) oldIP newIP p)"

definition updateUDPChecksum :: "bytes \<Rightarrow> nat \<Rightarrow> bytes \<Rightarrow> bytes \<Rightarrow> bytes option" where
  "updateUDPChecksum p hl oldIP newIP =
     (if length p < hl + 8 then Some p
      else do {
        c \<leftarrow> get16_at (hl + 6) p;
        if c = 0 then Some p else put16_at (hl + 6) (incrementalUpdate c oldIP newIP) p
      })"

definition updateICMPChecksum :: "bytes \<Rightarrow> nat \<Rightarrow> bytes option" where
  "updateICMPChecksum p hl =
     (if length p < hl + 8 then Some p
      else do {
        p \<leftarrow> put16_at (hl + 2) 0 p;
        icmpData \<leftarrow> slice_from p hl;
        put16_at (hl + 2) (icmpChecksum icmpData) p
      })"

definition updateICMPv6Checksum :: "bytes \<Rightarrow> nat \<Rightarrow> bytes \<Rightarrow> bytes \<Rightarrow> bytes option" where
  "updateICMPv6Checksum p hl oldIP newIP =
     (if length p < hl + 4 then Some p
      else update_checksum_at (hl + 2) oldIP newIP p)"

fun as4 :: "addr \<Rightarrow> bytes" where
  "as4 (Addr4 w) = be_bytes 4 w"
| "as4 _ = replicate 4 0"

definition rewriteIPv4 :: "bytes \<Rightarrow> layers \<Rightarrow> addr \<Rightarrow> nat \<Rightarrow> bool \<Rightarrow> (fw_err + bytes) option" where
  "rewriteIPv4 p l newIP hdrLen isSource =
     (if \<not> is4 newIP then Some (Inl WrongFamily)
      else let offset = (if isSource then 12 else 16); new = as4 newIP
           in do {
             oldIP \<leftarrow> slice p offset (offset + 4);
             p \<leftarrow> put_at offset new p;
             p \<leftarrow> put16_at 10 0 p;
             header \<leftarrow> slice p 0 hdrLen;
             p \<leftarrow> put16_at 10 (ipv4Checksum header) p;
             p \<leftarrow> (case idx (decoded l) 1 of
                     Some LayerTypeTCP \<Rightarrow> updateTCPChecksum p hdrLen oldIP new
                   | Some LayerTypeUDP \<Rightarrow> updateUDPChecksum p hdrLen oldIP new
                   | Some LayerTypeICMPv4 \<Rightarrow> updateICMPChecksum p hdrLen
                   | _ \<Rightarrow> Some p);
             Some (Inr p)
           })"

definition rewriteIPv6 :: "bytes \<Rightarrow> layers \<Rightarrow> addr \<Rightarrow> nat \<Rightarrow> bool \<Rightarrow> (fw_err + bytes) option" where
  "rewriteIPv6 p l newIP hdrLen isSource =
     (if \<not> is6 newIP then Some (Inl WrongFamily)
      else let offset = (if isSource then 8 else 24); new = as16 newIP
           in do {
             oldIP \<leftarrow> slice p offset (offset + 16);
             p \<leftarrow> put_at offset new p;
             p \<leftarrow> (case idx (decoded l) 1 of
                     Some LayerTypeTCP \<Rightarrow> updateTCPChecksum p hdrLen oldIP new
                   | Some LayerTypeUDP \<Rightarrow> updateUDPChecksum p hdrLen oldIP new
                   | Some LayerTypeICMPv6 \<Rightarrow> updateICMPv6Checksum p hdrLen oldIP new
                   | _ \<Rightarrow> Some p);
             Some (Inr p)
           })"

definition rewritePacketIP :: "bytes \<Rightarrow> layers \<Rightarrow> addr \<Rightarrow> bool \<Rightarrow> (fw_err + bytes) option" where
  "rewritePacketIP p l newIP isSource =
     (case ipHeaderLen l of
        None \<Rightarrow> None
      | Some (Inl e) \<Rightarrow> Some (Inl e)
      | Some (Inr hdrLen) \<Rightarrow>
          (case idx (decoded l) 0 of
             None \<Rightarrow> None
           | Some LayerTypeIPv4 \<Rightarrow> rewriteIPv4 p l newIP hdrLen isSource
           | Some LayerTypeIPv6 \<Rightarrow> rewriteIPv6 p l newIP hdrLen isSource
           | Some _ \<Rightarrow> Some (Inl UnknownIPLayer)))"

text \<open>The packet after translation, and whether it was translated.\<close>

definition translateOutboundDNAT :: "'m nat_state_scheme \<Rightarrow> bytes \<Rightarrow> layers \<Rightarrow> (bytes \<times> bool) option" where
  "translateOutboundDNAT m p l =
     (if \<not> dnatEnabled m then Some (p, False)
      else do {
        (_, dstIP) \<leftarrow> extractPacketIPs p l;
        t \<leftarrow> getDNATTranslation dstIP m;
        case t of
          None \<Rightarrow> Some (p, False)
        | Some translatedIP \<Rightarrow> do {
            r \<leftarrow> rewritePacketIP p l translatedIP False;
            Some (case r of Inl _ \<Rightarrow> (p, False) | Inr p' \<Rightarrow> (p', True))
          }
      })"

definition translateInboundReverse :: "'m nat_state_scheme \<Rightarrow> bytes \<Rightarrow> layers \<Rightarrow> (bytes \<times> bool) option" where
  "translateInboundReverse m p l =
     (if \<not> dnatEnabled m then Some (p, False)
      else do {
        (srcIP, _) \<leftarrow> extractPacketIPs p l;
        t \<leftarrow> findReverseDNATMapping srcIP m;
        case t of
          None \<Rightarrow> Some (p, False)
        | Some originalIP \<Rightarrow> do {
            r \<leftarrow> rewritePacketIP p l originalIP True;
            Some (case r of Inl _ \<Rightarrow> (p, False) | Inr p' \<Rightarrow> (p', True))
          }
      })"


section \<open>Port redirection\<close>

definition addPortRedirection ::
    "addr \<Rightarrow> LayerType \<Rightarrow> u16 \<Rightarrow> u16 \<Rightarrow> 'm nat_state_scheme \<Rightarrow> 'm nat_state_scheme" where
  "addPortRedirection ip proto originalPort translatedPort m =
     m\<lparr> portDNATRules := portDNATRules m @
          [\<lparr> protocol = proto, origPort = originalPort, targetPort = translatedPort, targetIP = ip \<rparr>],
        portDNATEnabled := True \<rparr>"

definition dnat_layer :: "Protocol \<Rightarrow> LayerType option" where
  "dnat_layer proto =
     (if proto = ProtocolTCP then Some LayerTypeTCP
      else if proto = ProtocolUDP then Some LayerTypeUDP else None)"

definition AddInboundDNAT ::
    "addr \<Rightarrow> Protocol \<Rightarrow> u16 \<Rightarrow> u16 \<Rightarrow> 'm nat_state_scheme \<Rightarrow> fw_err + 'm nat_state_scheme" where
  "AddInboundDNAT localAddr proto originalPort translatedPort m =
     (case dnat_layer proto of
        None \<Rightarrow> Inl (UnsupportedProtocol proto)
      | Some l \<Rightarrow> Inr (addPortRedirection localAddr l originalPort translatedPort m))"

definition removePortRedirection ::
    "addr \<Rightarrow> LayerType \<Rightarrow> u16 \<Rightarrow> u16 \<Rightarrow> 'm nat_state_scheme \<Rightarrow> 'm nat_state_scheme" where
  "removePortRedirection ip proto originalPort translatedPort m =
     (let m = m\<lparr> portDNATRules := filter (\<lambda>r. \<not> (protocol r = proto \<and> origPort r = originalPort \<and>
                    targetPort r = translatedPort \<and> addr_compare (targetIP r) ip = 0)) (portDNATRules m) \<rparr>
      in if length (portDNATRules m) = 0 then m\<lparr> portDNATEnabled := False \<rparr> else m)"

definition RemoveInboundDNAT ::
    "addr \<Rightarrow> Protocol \<Rightarrow> u16 \<Rightarrow> u16 \<Rightarrow> 'm nat_state_scheme \<Rightarrow> fw_err + 'm nat_state_scheme" where
  "RemoveInboundDNAT localAddr proto originalPort translatedPort m =
     (case dnat_layer proto of
        None \<Rightarrow> Inl (UnsupportedProtocol proto)
      | Some l \<Rightarrow> Inr (removePortRedirection localAddr l originalPort translatedPort m))"

definition rewriteTCPPort :: "bytes \<Rightarrow> layers \<Rightarrow> u16 \<Rightarrow> nat \<Rightarrow> (fw_err + bytes) option" where
  "rewriteTCPPort p l newPort portOffset =
     (case ipHeaderLen l of
        None \<Rightarrow> None
      | Some (Inl e) \<Rightarrow> Some (Inl e)
      | Some (Inr hdrLen) \<Rightarrow>
          if length p < hdrLen + 4 then Some (Inl PacketTooShort)
          else do {
            oldPort \<leftarrow> get16_at (hdrLen + portOffset) p;
            p \<leftarrow> put16_at (hdrLen + portOffset) newPort p;
            p \<leftarrow> (if hdrLen + 18 \<le> length p
                  then update_checksum_at (hdrLen + 16) (put16 oldPort) (put16 newPort) p else Some p);
            Some (Inr p)
          })"

definition rewriteUDPPort :: "bytes \<Rightarrow> layers \<Rightarrow> u16 \<Rightarrow> nat \<Rightarrow> (fw_err + bytes) option" where
  "rewriteUDPPort p l newPort portOffset =
     (case ipHeaderLen l of
        None \<Rightarrow> None
      | Some (Inl e) \<Rightarrow> Some (Inl e)
      | Some (Inr hdrLen) \<Rightarrow>
          if length p < hdrLen + 8 then Some (Inl PacketTooShort)
          else do {
            oldPort \<leftarrow> get16_at (hdrLen + portOffset) p;
            p \<leftarrow> put16_at (hdrLen + portOffset) newPort p;
            p \<leftarrow> (if hdrLen + 8 \<le> length p
                  then do {
                    c \<leftarrow> get16_at (hdrLen + 6) p;
                    if c \<noteq> 0
                    then put16_at (hdrLen + 6) (incrementalUpdate c (put16 oldPort) (put16 newPort)) p
                    else Some p
                  } else Some p);
            Some (Inr p)
          })"

text \<open>The packet, the decoder (with the original port on a translation) and whether it was translated.\<close>

fun applyPortRule ::
    "portDNATRule list \<Rightarrow> bytes \<Rightarrow> decoder \<Rightarrow> addr \<Rightarrow> addr \<Rightarrow> u16 \<Rightarrow> LayerType \<Rightarrow>
     (bytes \<Rightarrow> layers \<Rightarrow> u16 \<Rightarrow> nat \<Rightarrow> (fw_err + bytes) option) \<Rightarrow> (bytes \<times> decoder \<times> bool) option" where
  "applyPortRule [] p d srcIP dstIP port proto rewriteFn = Some (p, d, False)"
| "applyPortRule (r # rs) p d srcIP dstIP port proto rewriteFn =
     (if protocol r \<noteq> proto \<or> addr_compare (targetIP r) dstIP \<noteq> 0
      then applyPortRule rs p d srcIP dstIP port proto rewriteFn
      else if targetPort r = port \<and> addr_compare (targetIP r) srcIP = 0 then Some (p, d, False)
      else if origPort r \<noteq> port then applyPortRule rs p d srcIP dstIP port proto rewriteFn
      else case rewriteFn p (lay d) (targetPort r) 2 of
             None \<Rightarrow> None
           | Some (Inl _) \<Rightarrow> Some (p, d, False)
           | Some (Inr p') \<Rightarrow> Some (p', d\<lparr> dnatOrigPort := origPort r \<rparr>, True))"

definition translateInboundPortDNAT ::
    "'m nat_state_scheme \<Rightarrow> bytes \<Rightarrow> decoder \<Rightarrow> addr \<Rightarrow> addr \<Rightarrow> (bytes \<times> decoder \<times> bool) option" where
  "translateInboundPortDNAT m p d srcIP dstIP =
     (if \<not> portDNATEnabled m then Some (p, d, False)
      else case idx (decoded (lay d)) 1 of
             None \<Rightarrow> None
           | Some LayerTypeTCP \<Rightarrow>
               applyPortRule (portDNATRules m) p d srcIP dstIP (tcp_DstPort (tcp (lay d))) LayerTypeTCP rewriteTCPPort
           | Some LayerTypeUDP \<Rightarrow>
               applyPortRule (portDNATRules m) p d NoAddr dstIP (udp_DstPort (udp (lay d))) LayerTypeUDP rewriteUDPPort
           | Some _ \<Rightarrow> Some (p, d, False))"

section \<open>MSS clamping\<close>

record mss_config =
  mssClampValueIPv4 :: u16
  mssClampValueIPv6 :: u16
  mssClampEnabled :: bool

text \<open>The folding loop of the TCP checksum, on the 32-bit accumulator.\<close>

function fold_loop :: "u32 \<Rightarrow> u32" where
  "fold_loop s = (if s > 0xFFFF then fold_loop ((s AND 0xFFFF) + drop_bit 16 s) else s)"
  by auto

termination fold_loop
  by (relation "measure unat") (auto intro: fold_step_less)

declare fold_loop.simps [simp del]

definition recalculateTCPChecksum :: "bytes \<Rightarrow> layers \<Rightarrow> nat \<Rightarrow> bytes option" where
  "recalculateTCPChecksum p l start = do {
     _ \<leftarrow> slice_from p start;
     p \<leftarrow> set_at (start + 16) 0 p;
     p \<leftarrow> set_at (start + 17) 0 p;
     pseudo \<leftarrow> (case idx (decoded l) 0 of
        None \<Rightarrow> None
      | Some LayerTypeIPv4 \<Rightarrow> do {
          s \<leftarrow> slice (ip4_SrcIP (ip4 l)) 0 4; d \<leftarrow> slice (ip4_DstIP (ip4 l)) 0 4;
          Some (add_words (add_words 0 s) d + ucast (ip4_Protocol (ip4 l)) + of_nat (length p - start)) }
      | Some LayerTypeIPv6 \<Rightarrow> do {
          s \<leftarrow> slice (ip6_SrcIP (ip6 l)) 0 16; d \<leftarrow> slice (ip6_DstIP (ip6 l)) 0 16;
          Some (add_words (add_words 0 s) d + of_nat (length p - start) + 6) }
      | Some _ \<Rightarrow> Some 0);
     tcpLayer \<leftarrow> slice_from p start;
     put16_at (start + 16) (NOT (ucast (fold_loop (add_words pseudo tcpLayer)))) p
   }"

fun option_offset :: "TCPOption list \<Rightarrow> nat \<Rightarrow> nat \<Rightarrow> nat option" where
  "option_offset opts 0 off = Some off"
| "option_offset [] (Suc n) off = None"
| "option_offset (t # ts) (Suc n) off =
     option_offset ts n (if OptionType t = 0 \<or> OptionType t = 1 then off + 1 else off + 2 + length (OptionData t))"

definition updateMSSOption :: "bytes \<Rightarrow> layers \<Rightarrow> nat \<Rightarrow> u16 \<Rightarrow> nat \<Rightarrow> bytes option" where
  "updateMSSOption p l mssOptionIndex mssClampValue ipHeaderSize = do {
     off \<leftarrow> option_offset (Options (tcp l)) mssOptionIndex (ipHeaderSize + 20);
     p \<leftarrow> put16_at (off + 2) mssClampValue p;
     recalculateTCPChecksum p l ipHeaderSize
   }"

fun find_mss :: "TCPOption list \<Rightarrow> nat \<Rightarrow> u16 \<Rightarrow> nat option" where
  "find_mss [] i clamp = None"
| "find_mss (t # ts) i clamp =
     (if OptionType t = 2 \<and> length (OptionData t) = 2 \<and> (case be16 (OptionData t) of Some v \<Rightarrow> v > clamp | None \<Rightarrow> False)
      then Some i else find_mss ts (Suc i) clamp)"

definition clampTCPMSS :: "mss_config \<Rightarrow> bytes \<Rightarrow> layers \<Rightarrow> (bytes \<times> bool) option" where
  "clampTCPMSS cfg p l =
     (if \<not> SYN (tcp l) then Some (p, False)
      else if Options (tcp l) = [] then Some (p, False)
      else case idx (decoded l) 0 of
             None \<Rightarrow> None
           | Some LayerTypeIPv4 \<Rightarrow>
               if unat (IHL (ip4 l)) * 4 < 20 \<or> mssClampValueIPv4 cfg = 0 then Some (p, False)
               else (case find_mss (Options (tcp l)) 0 (mssClampValueIPv4 cfg) of
                       None \<Rightarrow> Some (p, False)
                     | Some i \<Rightarrow> map_option (\<lambda>p. (p, True))
                         (updateMSSOption p l i (mssClampValueIPv4 cfg) (unat (IHL (ip4 l)) * 4)))
           | Some LayerTypeIPv6 \<Rightarrow>
               if mssClampValueIPv6 cfg = 0 then Some (p, False)
               else (case find_mss (Options (tcp l)) 0 (mssClampValueIPv6 cfg) of
                       None \<Rightarrow> Some (p, False)
                     | Some i \<Rightarrow> map_option (\<lambda>p. (p, True)) (updateMSSOption p l i (mssClampValueIPv6 cfg) 40))
           | Some _ \<Rightarrow> Some (p, False))"


section \<open>Writing into a packet\<close>

lemma put_at_length: "put_at off bs p = Some p' \<Longrightarrow> length p' = length p"
  by (auto simp: put_at_def split: if_splits)

lemma put_at_read: "put_at off bs p = Some p' \<Longrightarrow> take (length bs) (drop off p') = bs"
  by (auto simp: put_at_def split: if_splits)

lemma put_at_drop:
  "put_at off bs p = Some p' \<Longrightarrow> hl \<le> off \<Longrightarrow> put_at (off - hl) bs (drop hl p) = Some (drop hl p')"
  by (auto simp: put_at_def drop_take split: if_splits)

lemma put_at_drop_below: "put_at off bs p = Some p' \<Longrightarrow> off + length bs \<le> hl \<Longrightarrow> drop hl p' = drop hl p"
  by (auto simp: put_at_def split: if_splits)

lemma put_at_take:
  assumes "put_at off bs p = Some p'" "off + length bs \<le> n" "n \<le> length p"
  shows "put_at off bs (take n p) = Some (take n p')"
proof -
  have "min n off = off" "min off n = off" "min (length p) off = off" "min (length p) n = n" using assms by auto
  then show ?thesis using assms by (auto simp: put_at_def drop_take split: if_splits)
qed

lemma put_at_take_above: "put_at off bs p = Some p' \<Longrightarrow> hl \<le> off \<Longrightarrow> take hl p' = take hl p"
  by (auto simp: put_at_def split: if_splits)

lemma put_at_other:
  assumes "put_at off bs p = Some p'" "b \<le> off \<or> off + length bs \<le> a"
  shows "take (b - a) (drop a p') = take (b - a) (drop a p)"
proof (cases "b \<le> off")
  case True
  then have "drop a (take b p') = drop a (take b p)" using put_at_take_above [OF assms(1)] by simp
  then show ?thesis by (simp add: drop_take)
next
  case False
  then show ?thesis using put_at_drop_below [OF assms(1), of a] assms(2) by simp
qed

lemma put_at_word_sum:
  assumes "put_at off bs p = Some p'" "even off" "even (length bs)"
  shows "word_sum p' + word_sum (take (length bs) (drop off p)) = word_sum p + word_sum bs"
proof -
  let ?n = "length bs"
  from assms have le: "off + ?n \<le> length p" and p': "p' = take off p @ bs @ drop (off + ?n) p"
    by (auto simp: put_at_def split: if_splits)
  have "drop (off + ?n) p = drop ?n (drop off p)" by (simp add: add.commute)
  then have p: "p = take off p @ take ?n (drop off p) @ drop (off + ?n) p" by (simp only: append_take_drop_id)
  have "word_sum p = word_sum (take off p) + word_sum (take ?n (drop off p)) + word_sum (drop (off + ?n) p)"
    using assms(2,3) le by (subst p) (simp add: word_sum_append)
  moreover have "word_sum p' = word_sum (take off p) + word_sum bs + word_sum (drop (off + ?n) p)"
    using assms(2,3) le by (simp add: p' word_sum_append)
  ultimately show ?thesis by simp
qed

lemma word_sum_put16: "word_sum (put16 w) = unat w"
proof -
  have "unat (push_bit 8 (ucast (ucast (drop_bit 8 w) :: byte)) OR ucast (ucast w :: byte) :: u16)
      = unat (ucast (drop_bit 8 w) :: byte) * 256 + unat (ucast w :: byte)"
    by (simp only: pair_value) (rule unat_small16, rule pair_less)
  moreover have "push_bit 8 (ucast (ucast (drop_bit 8 w) :: byte)) OR ucast (ucast w :: byte) = w"
    by (rule bit_word_eqI) (auto simp: bit_simps)
  ultimately show ?thesis by (simp add: put16_def)
qed

lemma length_put16 [simp]: "length (put16 w) = 2"
  by (simp add: put16_def)

lemma get16_at_sum: "get16_at off p = Some c \<Longrightarrow> word_sum (take 2 (drop off p)) = unat c"
proof -
  assume c: "get16_at off p = Some c"
  then have le: "off + 2 \<le> length p" by (auto simp: get16_at_def slice_def split: bind_splits if_splits)
  then have d: "take 2 (drop off p) = [p ! off, p ! (off + 1)]"
    by (simp add: take_Suc_conv_app_nth numeral_2_eq_2)
  with c le have "c = push_bit 8 (ucast (p ! off)) OR ucast (p ! (off + 1))"
    by (simp add: get16_at_def slice_simps)
  then have "unat c = unat (p ! off) * 256 + unat (p ! (off + 1))"
    by (simp only: pair_value) (rule unat_small16, rule pair_less)
  then show ?thesis by (simp add: d)
qed

lemma put16_at_word_sum:
  assumes "put16_at off w p = Some p'" "get16_at off p = Some c" "even off"
  shows "word_sum p' + unat c = word_sum p + unat w"
  using put_at_word_sum [of off "put16 w" p p'] assms get16_at_sum [OF assms(2)]
  by (simp add: put16_at_def word_sum_put16)


section \<open>Checksums of a packet\<close>

definition header_ok :: "nat \<Rightarrow> bytes \<Rightarrow> bool" where
  "header_ok hl p = checksum_ok (word_sum (take hl p))"

text \<open>The pseudo header: the addresses, the protocol and the length of the segment.\<close>

definition pseudo_sum :: "bool \<Rightarrow> nat \<Rightarrow> bytes \<Rightarrow> nat" where
  "pseudo_sum v6 hl p =
     (if v6 then word_sum (take 32 (drop 8 p)) + unat (p ! 6) else word_sum (take 8 (drop 12 p)) + unat (p ! 9))
     + (length p - hl)"

definition segment_ok :: "bool \<Rightarrow> bool \<Rightarrow> nat \<Rightarrow> bytes \<Rightarrow> bool" where
  "segment_ok pseudo v6 hl p =
     checksum_ok ((if pseudo then pseudo_sum v6 hl p else 0) + word_sum (drop hl p))"

text \<open>
  The rewritten packet: the address at \<open>off\<close>, the header checksum of IPv4, the bytes of the segment.
\<close>

lemma put_at_nth:
  assumes "put_at off bs p = Some p'" "i < off \<or> off + length bs \<le> i" "i < length p"
  shows "p' ! i = p ! i"
  using assms by (auto simp: put_at_def nth_append split: if_splits)

lemma pseudo_sum_put:
  assumes put: "put_at off bs p = Some p'" and addr: "take n (drop off p) = old" "length bs = n" "even n" "even off"
    and inside: "if v6 then 8 \<le> off \<and> off + n \<le> 40 else 12 \<le> off \<and> off + n \<le> 20"
    and len: "length p \<ge> (if v6 then 40 else 20)"
  shows "pseudo_sum v6 hl p' + word_sum old = pseudo_sum v6 hl p + word_sum bs"
proof -
  define a where "a = (if v6 then 8 else 12 :: nat)"
  define w where "w = (if v6 then 32 else 8 :: nat)"
  have aw: "a \<le> off" "off + n \<le> a + w" "even a" "a + w \<le> length p" using inside len by (auto simp: a_def w_def)
  have "put_at (off - a) bs (drop a p) = Some (drop a p')" by (rule put_at_drop [OF put aw(1)])
  then have "put_at (off - a) bs (take w (drop a p)) = Some (take w (drop a p'))"
    by (rule put_at_take) (use aw addr(2) in auto)
  from put_at_word_sum [OF this] aw addr
  have "word_sum (take w (drop a p')) + word_sum (take n (drop (off - a) (take w (drop a p))))
      = word_sum (take w (drop a p)) + word_sum bs" by simp
  moreover have "take n (drop (off - a) (take w (drop a p))) = old"
  proof -
    have "n \<le> a + w - off" using aw by linarith
    then show ?thesis using aw addr(1) by (simp add: drop_take add.commute min_def)
  qed
  moreover have "p' ! (if v6 then 6 else 9) = p ! (if v6 then 6 else 9)"
    by (rule put_at_nth [OF put]) (use inside len in \<open>auto split: if_splits\<close>)
  ultimately show ?thesis using put_at_length [OF put]
    by (cases v6) (simp_all add: pseudo_sum_def a_def w_def)
qed

lemma pseudo_sum_cong:
  assumes "take hl p = take hl p'" "length p = length p'" "(if v6 then 40 else 20) \<le> hl" "hl \<le> length p"
  shows "pseudo_sum v6 hl p = pseudo_sum v6 hl p'"
proof -
  have a: "take 32 (drop 8 q) = take 32 (drop 8 (take hl q))" "q ! 6 = take hl q ! 6" if v6 for q :: bytes
    using that assms(3) by (simp_all add: drop_take min_def)
  have b: "take 8 (drop 12 q) = take 8 (drop 12 (take hl q))" "q ! 9 = take hl q ! 9" if "\<not> v6" for q :: bytes
    using that assms(3) by (simp_all add: drop_take min_def)
  show ?thesis using assms(1,2) a [of p] a [of p'] b [of p] b [of p'] by (simp add: pseudo_sum_def)
qed

lemma mod_add_cancel: "(a + x) mod n = (b + x) mod (n :: nat) \<Longrightarrow> a mod n = b mod n"
proof -
  assume "(a + x) mod n = (b + x) mod n"
  then have "int (a + x) mod int n = int (b + x) mod int n" by (simp only: flip: zmod_int)
  then have "(int (a + x) - int x) mod int n = (int (b + x) - int x) mod int n" by (intro mod_diff_cong) auto
  then have "int (a mod n) = int (b mod n)" by (simp add: zmod_int)
  then show ?thesis by (simp only: of_nat_eq_iff)
qed

lemma segment_ok_update:
  assumes put: "put_at off new p = Some p1" "take n (drop off p) = old" "length new = n" "length old = n"
      "even n" "even off" "n \<le> 16"
    and inside: "if v6 then 8 \<le> off \<and> off + n \<le> 40 else 12 \<le> off \<and> off + n \<le> 20"
    and hl: "(if v6 then 40 else 20) \<le> hl" "even hl" "hl < length p"
    and p2: "pseudo_sum v6 hl p2 = pseudo_sum v6 hl p1" "drop hl p2 = drop hl p1" "length p2 = length p1"
    and upd: "get16_at (hl + k) p2 = Some c" "put16_at (hl + k) (incrementalUpdate c old new) p2 = Some p3" "even k"
    and ok: "segment_ok True v6 hl p"
  shows "segment_ok True v6 hl p3"
proof -
  let ?c' = "incrementalUpdate c old new"
  have d1: "drop hl p1 = drop hl p"
    by (rule put_at_drop_below [OF put(1)]) (use inside hl(1) put(3) in \<open>auto split: if_splits\<close>)
  have len: "length p3 = length p" using upd(2) put(1) p2(3) put_at_length by (auto simp: put16_at_def)
  have P1: "pseudo_sum v6 hl p1 + word_sum old = pseudo_sum v6 hl p + word_sum new"
    by (rule pseudo_sum_put [OF put(1,2,3,5,6) inside]) (use hl in auto)
  have "take hl p3 = take hl p2" using upd(2) by (auto simp: put16_at_def intro: put_at_take_above)
  then have P3: "pseudo_sum v6 hl p3 = pseudo_sum v6 hl p1"
    using pseudo_sum_cong [of hl p3 p2 v6] p2 hl len put_at_length [OF put(1)] by simp
  have a: "put16_at k ?c' (drop hl p2) = Some (drop hl p3)"
    using put_at_drop [of "hl + k" "put16 ?c'" p2 p3 hl] upd(2) by (simp add: put16_at_def)
  have b: "get16_at k (drop hl p2) = Some c"
    using upd(1) by (auto simp: get16_at_def slice_def add.commute add.left_commute split: bind_splits if_splits)
  have S: "word_sum (drop hl p3) + unat c = word_sum (drop hl p) + unat ?c'"
    using put16_at_word_sum [OF a b upd(3)] p2(2) d1 by simp
  have "pseudo_sum v6 hl p3 + word_sum (drop hl p3) + (unat c + word_sum old)
      = pseudo_sum v6 hl p + word_sum (drop hl p) + (unat ?c' + word_sum new)"
    using P1 P3 S by linarith
  then have "(pseudo_sum v6 hl p3 + word_sum (drop hl p3) + (unat c + word_sum old)) mod 65535
      = (pseudo_sum v6 hl p + word_sum (drop hl p) + (unat ?c' + word_sum new)) mod 65535" by simp
  also have "\<dots> = (pseudo_sum v6 hl p + word_sum (drop hl p) + (unat c + word_sum old)) mod 65535"
    by (rule mod_add_cong [OF refl], rule incrementalUpdate_sum) (use put in auto)
  finally have "(pseudo_sum v6 hl p3 + word_sum (drop hl p3)) mod 65535
      = (pseudo_sum v6 hl p + word_sum (drop hl p)) mod 65535"
    by (rule mod_add_cancel)
  moreover have "0 < pseudo_sum v6 hl p3" using len hl(3) by (simp add: pseudo_sum_def)
  ultimately show ?thesis using ok by (simp add: segment_ok_def checksum_ok_iff)
qed

lemma pseudo_sum_header_checksum:
  assumes "put16_at 10 w p = Some p'" "20 \<le> length p"
  shows "pseudo_sum False hl p' = pseudo_sum False hl p"
proof -
  have put: "put_at 10 (put16 w) p = Some p'" using assms(1) by (simp add: put16_at_def)
  have "take (20 - 12) (drop 12 p') = take (20 - 12) (drop 12 p)" by (rule put_at_other [OF put]) simp
  moreover have "p' ! 9 = p ! 9" by (rule put_at_nth [OF put]) (use assms in auto)
  ultimately show ?thesis using put_at_length [OF put] by (simp add: pseudo_sum_def)
qed

lemma get16_zero: "put16_at off 0 p = Some p' \<Longrightarrow> get16_at off p' = Some 0 \<and> p' ! off = 0 \<and> p' ! Suc off = 0"
  by (auto simp: put16_at_def put_at_def put16_def get16_at_def slice_simps nth_append split: if_splits)

lemma header_fixed:
  assumes "put16_at 10 0 p1 = Some p2" "put16_at 10 (ipv4Checksum (take hl p2)) p2 = Some p3"
    "20 \<le> hl" "hl \<le> length p1" "length p1 < 131072"
  shows "header_ok hl p3"
proof -
  let ?h = "take hl p2" and ?c = "ipv4Checksum (take hl p2)"
  have len: "length p2 = length p1" using assms(1) put_at_length by (simp add: put16_at_def)
  have z: "p2 ! 10 = 0" "p2 ! 11 = 0" "get16_at 10 p2 = Some 0" using get16_zero [OF assms(1)] by simp_all
  have "?h ! 10 = 0" "?h ! 11 = 0" using z assms(3) by simp_all
  then have "?h[10 := 0] = ?h" "?h[11 := 0] = ?h" using list_update_id [of ?h 10] list_update_id [of ?h 11] by simp_all
  then have "zero_checksum ?h = ?h" by (simp add: zero_checksum_def)
  then have c: "?c = rfc1071 ?h" using ipv4Checksum_rfc [of ?h] assms len by simp
  have "put16_at 10 ?c ?h = Some (take hl p3)"
    using put_at_take [of 10 "put16 ?c" p2 p3 hl] assms len by (simp add: put16_at_def)
  moreover have "get16_at 10 ?h = Some 0"
    using z(3) assms(3,4) len by (auto simp: get16_at_def slice_def drop_take split: bind_splits if_splits)
  ultimately have "word_sum (take hl p3) = word_sum ?h + unat ?c" using put16_at_word_sum [of 10 ?c ?h] by simp
  then show ?thesis using own_checksum_ok [of "word_sum ?h"] by (simp add: header_ok_def c rfc1071_def)
qed

lemma be_bytes_Suc: "be_bytes (Suc n) w = ucast (drop_bit (8 * n) w) # be_bytes n w"
proof -
  have "map (\<lambda>i. ucast (drop_bit (8 * (n - i)) w)) (map Suc [0..<n]) = map (\<lambda>i. (ucast (drop_bit (8 * (n - 1 - i)) w) :: byte)) [0..<n]"
    by simp
  then show ?thesis by (simp add: be_bytes_def upt_conv_Cons map_Suc_upt del: upt_Suc)
qed

lemma foldl_be_bytes:
  "foldl (\<lambda>acc b. push_bit 8 acc OR ucast b) acc (be_bytes n w) = push_bit (8 * n) acc OR take_bit (8 * n) (w :: 'a::len word)"
proof (induction n arbitrary: acc)
  case (Suc n)
  have "push_bit (8 * n) (push_bit 8 acc OR ucast (ucast (drop_bit (8 * n) w) :: byte)) OR take_bit (8 * n) w
      = push_bit (8 * Suc n) acc OR take_bit (8 * Suc n) w"
    by (rule bit_word_eqI) (auto simp: bit_simps add.commute)
  then show ?case by (simp add: be_bytes_Suc Suc.IH)
qed (simp add: be_bytes_def)

lemma be_word_be_bytes: "be_word (be_bytes n w) = take_bit (8 * n) (w :: 'a::len word)"
  by (simp add: be_word_def foldl_be_bytes)


lemma length_as4 [simp]: "length (as4 a) = 4"
  by (cases a) auto

lemma update_checksum_atD:
  "update_checksum_at off old new p = Some p' \<Longrightarrow>
   \<exists>c. get16_at off p = Some c \<and> put16_at off (incrementalUpdate c old new) p = Some p'"
  by (auto simp: update_checksum_at_def split: bind_splits)

lemma updateICMPChecksum_ok:
  assumes "updateICMPChecksum p hl = Some p'" "hl + 8 \<le> length p" "length p < 131072" "even hl"
  shows "segment_ok False v6 hl p' \<and> take hl p' = take hl p \<and> length p' = length p"
proof -
  from assms obtain q where q: "put16_at (hl + 2) 0 p = Some q"
    "put16_at (hl + 2) (icmpChecksum (drop hl q)) q = Some p'"
    by (auto simp: updateICMPChecksum_def slice_from_Some put16_at_def dest: put_at_length split: bind_splits if_splits)
  let ?c = "icmpChecksum (drop hl q)"
  have len: "length q = length p" "length p' = length p" using q put_at_length by (auto simp: put16_at_def)
  have "put16_at 2 ?c (drop hl q) = Some (drop hl p')"
    using put_at_drop [of "hl + 2" "put16 ?c" q p' hl] q by (simp add: put16_at_def)
  moreover have "get16_at 2 (drop hl q) = Some 0"
    using get16_zero [OF q(1)] len by (auto simp: get16_at_def slice_def add.commute add.left_commute split: bind_splits if_splits)
  ultimately have "word_sum (drop hl p') = word_sum (drop hl q) + unat ?c"
    using put16_at_word_sum [of 2 ?c "drop hl q" "drop hl p'" 0] by simp
  moreover have "?c = rfc1071 (drop hl q)" by (rule icmpChecksum_rfc) (use len assms in simp)
  ultimately have "segment_ok False v6 hl p'"
    using own_checksum_ok [of "word_sum (drop hl q)"] by (simp add: segment_ok_def rfc1071_def)
  moreover have "take hl p' = take hl p" using q put_at_take_above [of "hl + 2"] by (simp add: put16_at_def)
  ultimately show ?thesis using len by simp
qed

lemma slice_take: "slice p a b = Some x \<Longrightarrow> x = take (b - a) (drop a p) \<and> b \<le> length p"
  by (auto simp: slice_def split: if_splits)

definition min_segment :: "LayerType \<Rightarrow> nat" where
  "min_segment t = (if t = LayerTypeTCP then 18 else 8)"

text \<open>What the transport step of a rewrite does to the checksum of the segment.\<close>

lemma transport_update:
  assumes put: "put_at off new p = Some p1" "slice p off (off + n) = Some old" "length new = n" "even n" "even off" "n \<le> 16"
    and inside: "if v6 then 8 \<le> off \<and> off + n \<le> 40 else 12 \<le> off \<and> off + n \<le> 20"
    and hl: "(if v6 then 40 else 20) \<le> hl" "even hl" "hl + min_segment t \<le> length p"
    and p2: "pseudo_sum v6 hl p2 = pseudo_sum v6 hl p1" "drop hl p2 = drop hl p1" "length p2 = length p1"
    and step: "t = LayerTypeTCP \<and> updateTCPChecksum p2 hl old new = Some p3 \<or>
      t = LayerTypeUDP \<and> updateUDPChecksum p2 hl old new = Some p3 \<and> get16_at (hl + 6) p \<noteq> Some 0 \<or>
      t = LayerTypeICMPv6 \<and> updateICMPv6Checksum p2 hl old new = Some p3"
    and ok: "segment_ok True v6 hl p"
  shows "segment_ok True v6 hl p3 \<and> take hl p3 = take hl p2 \<and> length p3 = length p2"
proof -
  have len: "length p2 = length p" using put_at_length [OF put(1)] p2(3) by simp
  have "get16_at (hl + k) p2 = get16_at (hl + k) p" for k
  proof -
    have "drop hl p1 = drop hl p" by (rule put_at_drop_below [OF put(1)]) (use inside hl(1) put(3) in \<open>auto split: if_splits\<close>)
    then have "drop (hl + k) p2 = drop (hl + k) p" using p2(2) by (metis drop_drop add.commute)
    then show ?thesis using len by (simp add: get16_at_def slice_def)
  qed
  then obtain k c where k: "even k" "get16_at (hl + k) p2 = Some c"
    "put16_at (hl + k) (incrementalUpdate c old new) p2 = Some p3"
  proof -
    assume that: "\<And>k c. \<lbrakk>even k; get16_at (hl + k) p2 = Some c; put16_at (hl + k) (incrementalUpdate c old new) p2 = Some p3\<rbrakk> \<Longrightarrow> thesis"
    from step hl(3) len show thesis
      using that [of 16] that [of 6] that [of 2] \<open>\<And>k. get16_at (hl + k) p2 = get16_at (hl + k) p\<close>
      by (auto simp: updateTCPChecksum_def updateUDPChecksum_def updateICMPv6Checksum_def min_segment_def
          dest!: update_checksum_atD split: if_splits bind_splits)
  qed
  have "segment_ok True v6 hl p3"
    by (rule segment_ok_update [OF put(1) _ put(3) _ put(4-6) inside hl(1,2) _ p2 k(2,3,1) ok])
      (use slice_take [OF put(2)] hl(3) in \<open>auto simp: min_segment_def split: if_splits\<close>)
  moreover have "take hl p3 = take hl p2" using k(3) by (auto simp: put16_at_def intro: put_at_take_above)
  ultimately show ?thesis using k(3) put_at_length by (auto simp: put16_at_def)
qed


lemma rewriteIPv4D:
  assumes "rewriteIPv4 p l newIP hl isSource = Some (Inr p')" "decoded l = [n, t]" "t \<in> {LayerTypeTCP, LayerTypeUDP, LayerTypeICMPv4}"
  defines "off \<equiv> (if isSource then 12 else 16 :: nat)"
  shows "\<exists>old p1 p2 p3. is4 newIP \<and> slice p off (off + 4) = Some old \<and> put_at off (as4 newIP) p = Some p1 \<and>
    put16_at 10 0 p1 = Some p2 \<and> hl \<le> length p \<and> put16_at 10 (ipv4Checksum (take hl p2)) p2 = Some p3 \<and>
    (t = LayerTypeTCP \<and> updateTCPChecksum p3 hl old (as4 newIP) = Some p' \<or>
     t = LayerTypeUDP \<and> updateUDPChecksum p3 hl old (as4 newIP) = Some p' \<or>
     t = LayerTypeICMPv4 \<and> updateICMPChecksum p3 hl = Some p')"
proof -
  from assms(1) obtain old p1 p2 h p3 where st: "is4 newIP" "slice p off (off + 4) = Some old"
    "put_at off (as4 newIP) p = Some p1" "put16_at 10 0 p1 = Some p2" "slice p2 0 hl = Some h"
    "put16_at 10 (ipv4Checksum h) p2 = Some p3"
    "(case idx (decoded l) 1 of
        Some LayerTypeTCP \<Rightarrow> updateTCPChecksum p3 hl old (as4 newIP)
      | Some LayerTypeUDP \<Rightarrow> updateUDPChecksum p3 hl old (as4 newIP)
      | Some LayerTypeICMPv4 \<Rightarrow> updateICMPChecksum p3 hl
      | _ \<Rightarrow> Some p3) = Some p'"
    unfolding rewriteIPv4_def off_def Let_def
    by (auto simp del: One_nat_def split: bind_splits if_split_asm)
  have "h = take hl p2" "hl \<le> length p2" using slice_take [OF st(5)] by simp_all
  moreover have "length p2 = length p" using st(3,4) put_at_length by (auto simp: put16_at_def)
  ultimately show ?thesis using st assms(2,3) by (auto simp: idx_def)
qed

lemma take_drop_cong: "take hl p = take hl q \<Longrightarrow> a + n \<le> hl \<Longrightarrow> take n (drop a p) = take n (drop a q)"
proof -
  assume eq: "take hl p = take hl q" and le: "a + n \<le> hl"
  have "take n (drop a x) = drop a (take (a + n) (take hl x))" for x :: "'a list"
    using le by (simp add: drop_take min_absorb1)
  from this [of p] this [of q] eq show ?thesis by (simp only:)
qed

lemma rewriteIPv4_ok:
  assumes rw: "rewriteIPv4 p l newIP hl isSource = Some (Inr p')" "decoded l = [n, t]"
      "t \<in> {LayerTypeTCP, LayerTypeUDP, LayerTypeICMPv4}"
    and hl: "20 \<le> hl" "even hl" "hl + min_segment t \<le> length p" "length p < 131072"
    and udp: "t = LayerTypeUDP \<Longrightarrow> get16_at (hl + 6) p \<noteq> Some 0"
    and ok: "segment_ok (t \<noteq> LayerTypeICMPv4) False hl p"
  defines "off \<equiv> (if isSource then 12 else 16 :: nat)"
  shows "segment_ok (t \<noteq> LayerTypeICMPv4) False hl p' \<and> header_ok hl p' \<and> length p' = length p \<and> is4 newIP \<and>
    take 4 (drop off p') = as4 newIP \<and> take 4 (drop (28 - off) p') = take 4 (drop (28 - off) p)"
proof -
  obtain old p1 p2 p3 where st: "is4 newIP" "slice p off (off + 4) = Some old"
    "put_at off (as4 newIP) p = Some p1" "put16_at 10 0 p1 = Some p2"
    "put16_at 10 (ipv4Checksum (take hl p2)) p2 = Some p3"
    "t = LayerTypeTCP \<and> updateTCPChecksum p3 hl old (as4 newIP) = Some p' \<or>
     t = LayerTypeUDP \<and> updateUDPChecksum p3 hl old (as4 newIP) = Some p' \<or>
     t = LayerTypeICMPv4 \<and> updateICMPChecksum p3 hl = Some p'"
    using rewriteIPv4D [OF rw] unfolding off_def by blast
  have len: "length p1 = length p" "length p2 = length p" "length p3 = length p"
    using st put_at_length by (auto simp: put16_at_def)
  have d: "drop 12 p3 = drop 12 p1" "drop hl p3 = drop hl p1"
    using st(4,5) put_at_drop_below [of 10] hl(1) by (auto simp: put16_at_def)
  have ps: "pseudo_sum False hl p3 = pseudo_sum False hl p1"
    using pseudo_sum_header_checksum [OF st(4)] pseudo_sum_header_checksum [OF st(5)] len hl by simp
  have hd: "header_ok hl p3" by (rule header_fixed [OF st(4,5)]) (use hl len in auto)
  have off: "off = 12 \<or> off = 16" by (simp add: off_def)
  have tr: "segment_ok (t \<noteq> LayerTypeICMPv4) False hl p' \<and> take hl p' = take hl p3 \<and> length p' = length p3"
  proof (cases "t = LayerTypeICMPv4")
    case True
    then show ?thesis
      using updateICMPChecksum_ok [of p3 hl p'] st(6) hl len by (auto simp: min_segment_def)
  next
    case False
    then show ?thesis
      using transport_update [OF st(3,2) _ _ _ _ _ _ _ hl(3) ps d(2), of p'] st(6) udp ok off hl(1,2) len by auto
  qed
  have a1: "take 4 (drop a p') = take 4 (drop a p1)" if "a = 12 \<or> a = 16" for a
  proof -
    have "take 4 (drop a p') = take 4 (drop a p3)"
      by (rule take_drop_cong [of hl]) (use tr that hl in auto)
    moreover have "drop a p3 = drop (a - 12) (drop 12 p3)" using that by auto
    moreover have "drop a p1 = drop (a - 12) (drop 12 p1)" using that by auto
    ultimately show ?thesis using d(1) by simp
  qed
  have "take 4 (drop off p1) = as4 newIP" using put_at_read [OF st(3)] by simp
  moreover have "take (32 - off - (28 - off)) (drop (28 - off) p1) = take (32 - off - (28 - off)) (drop (28 - off) p)"
    by (rule put_at_other [OF st(3)]) (use off in auto)
  ultimately have "take 4 (drop off p') = as4 newIP" "take 4 (drop (28 - off) p') = take 4 (drop (28 - off) p)"
    using a1 [of off] a1 [of "28 - off"] off by auto
  moreover have "header_ok hl p'" using hd tr by (simp add: header_ok_def)
  ultimately show ?thesis using tr len st(1) by simp
qed


lemma rewriteIPv6_ok:
  assumes rw: "rewriteIPv6 p l newIP 40 isSource = Some (Inr p')" "decoded l = [n, t]"
      "t \<in> {LayerTypeTCP, LayerTypeUDP, LayerTypeICMPv6}"
    and hl: "40 + min_segment t \<le> length p"
    and udp: "t = LayerTypeUDP \<Longrightarrow> get16_at 46 p \<noteq> Some 0"
    and ok: "segment_ok True True 40 p"
  defines "off \<equiv> (if isSource then 8 else 24 :: nat)"
  shows "segment_ok True True 40 p' \<and> length p' = length p \<and> is6 newIP \<and>
    take 16 (drop off p') = as16 newIP \<and> take 16 (drop (32 - off) p') = take 16 (drop (32 - off) p)"
proof -
  from rw(1) obtain old p1 where st: "is6 newIP" "slice p off (off + 16) = Some old"
    "put_at off (as16 newIP) p = Some p1"
    "(case idx (decoded l) 1 of
        Some LayerTypeTCP \<Rightarrow> updateTCPChecksum p1 40 old (as16 newIP)
      | Some LayerTypeUDP \<Rightarrow> updateUDPChecksum p1 40 old (as16 newIP)
      | Some LayerTypeICMPv6 \<Rightarrow> updateICMPv6Checksum p1 40 old (as16 newIP)
      | _ \<Rightarrow> Some p1) = Some p'"
    unfolding rewriteIPv6_def off_def Let_def
    by (auto simp del: One_nat_def split: bind_splits if_split_asm)
  have off: "off = 8 \<or> off = 24" by (simp add: off_def)
  have len: "length p1 = length p" by (rule put_at_length [OF st(3)])
  have tr: "segment_ok True True 40 p' \<and> take 40 p' = take 40 p1 \<and> length p' = length p1"
    using transport_update [OF st(3,2), of True 40 t p1 p'] st(4) rw(2,3) udp ok off hl by (auto simp: idx_def)
  have a1: "take 16 (drop a p') = take 16 (drop a p1)" if "a = 8 \<or> a = 24" for a
    by (rule take_drop_cong [of 40]) (use tr that in auto)
  have "take 16 (drop off p1) = as16 newIP" using put_at_read [OF st(3)] by simp
  moreover have "take (48 - off - (32 - off)) (drop (32 - off) p1) = take (48 - off - (32 - off)) (drop (32 - off) p)"
    by (rule put_at_other [OF st(3)]) (use off in auto)
  ultimately have "take 16 (drop off p') = as16 newIP" "take 16 (drop (32 - off) p') = take 16 (drop (32 - off) p)"
    using a1 [of off] a1 [of "32 - off"] off by auto
  then show ?thesis using tr len st(1) by simp
qed

text \<open>The bytes that rewriting an address may touch: the address, the checksum of an IPv4 header, the transport checksum.\<close>

definition rewritten_bytes :: "LayerType \<Rightarrow> LayerType \<Rightarrow> nat \<Rightarrow> bool \<Rightarrow> nat set" where
  "rewritten_bytes n t hl isSource =
     (if n = LayerTypeIPv6 then (if isSource then {8..<24} else {24..<40})
      else (if isSource then {12..<16} else {16..<20}) \<union> {10, 11}) \<union>
     (let c = hl + (if t = LayerTypeTCP then 16 else if t = LayerTypeUDP then 6 else 2) in {c, c + 1})"

definition same_outside :: "nat set \<Rightarrow> bytes \<Rightarrow> bytes \<Rightarrow> bool" where
  "same_outside S p p' \<longleftrightarrow> length p' = length p \<and> (\<forall>i < length p. i \<notin> S \<longrightarrow> p' ! i = p ! i)"

lemma same_outside_refl [simp]: "same_outside S p p"
  by (simp add: same_outside_def)

lemma same_outside_trans: "same_outside S p q \<Longrightarrow> same_outside S q r \<Longrightarrow> same_outside S p r"
  by (simp add: same_outside_def)

lemma put_at_outside: "put_at off bs p = Some p' \<Longrightarrow> {off ..< off + length bs} \<subseteq> S \<Longrightarrow> same_outside S p p'"
  using put_at_length [of off bs p p'] put_at_nth [of off bs p p'] unfolding same_outside_def
  by (metis atLeastLessThan_iff linorder_not_less subset_eq)

lemma put16_at_outside: "put16_at off w p = Some p' \<Longrightarrow> {off, off + 1} \<subseteq> S \<Longrightarrow> same_outside S p p'"
  unfolding put16_at_def by (erule put_at_outside) (auto simp: less_Suc_eq)

lemma checksum_outside:
  "updateTCPChecksum p hl old new = Some p' \<Longrightarrow> {hl + 16, hl + 16 + 1} \<subseteq> S \<Longrightarrow> same_outside S p p'"
  "updateUDPChecksum p hl old new = Some p' \<Longrightarrow> {hl + 6, hl + 6 + 1} \<subseteq> S \<Longrightarrow> same_outside S p p'"
  "updateICMPv6Checksum p hl old new = Some p' \<Longrightarrow> {hl + 2, hl + 2 + 1} \<subseteq> S \<Longrightarrow> same_outside S p p'"
  "updateICMPChecksum p hl = Some p' \<Longrightarrow> {hl + 2, hl + 2 + 1} \<subseteq> S \<Longrightarrow> same_outside S p p'"
  unfolding updateTCPChecksum_def updateUDPChecksum_def updateICMPv6Checksum_def updateICMPChecksum_def update_checksum_at_def
  by (auto split: if_splits bind_splits dest!: put16_at_outside [where S = S] intro: same_outside_trans)

lemma rewrite_outside:
  assumes "rewritePacketIP p l newIP isSource = Some (Inr p')" "decoded l = [n, t]" "ipHeaderLen l = Some (Inr hl)"
    "t \<in> {LayerTypeTCP, LayerTypeUDP, LayerTypeICMPv4, LayerTypeICMPv6}"
  shows "same_outside (rewritten_bytes n t hl isSource) p p'"
proof -
  let ?S = "rewritten_bytes n t hl isSource"
  have tr: "same_outside ?S q p'" if "(case idx (decoded l) 1 of
        Some LayerTypeTCP \<Rightarrow> updateTCPChecksum q hl old new
      | Some LayerTypeUDP \<Rightarrow> updateUDPChecksum q hl old new
      | Some LayerTypeICMPv4 \<Rightarrow> (if n = LayerTypeIPv4 then updateICMPChecksum q hl else Some q)
      | Some LayerTypeICMPv6 \<Rightarrow> (if n = LayerTypeIPv6 then updateICMPv6Checksum q hl old new else Some q)
      | _ \<Rightarrow> Some q) = Some p'" for q old new
    using that assms(2,4) by (auto simp: idx_def rewritten_bytes_def Let_def intro: checksum_outside split: if_splits)
  consider (v4) "n = LayerTypeIPv4" "rewriteIPv4 p l newIP hl isSource = Some (Inr p')"
    | (v6) "n = LayerTypeIPv6" "rewriteIPv6 p l newIP hl isSource = Some (Inr p')"
    using assms(1-3) by (auto simp: rewritePacketIP_def idx_def split: LayerType.splits)
  then show ?thesis
  proof cases
    case v4
    then obtain old p1 p2 h p3 where st: "put_at (if isSource then 12 else 16) (as4 newIP) p = Some p1"
      "put16_at 10 0 p1 = Some p2" "put16_at 10 (ipv4Checksum h) p2 = Some p3"
      "(case idx (decoded l) 1 of
        Some LayerTypeTCP \<Rightarrow> updateTCPChecksum p3 hl old (as4 newIP)
      | Some LayerTypeUDP \<Rightarrow> updateUDPChecksum p3 hl old (as4 newIP)
      | Some LayerTypeICMPv4 \<Rightarrow> updateICMPChecksum p3 hl
      | _ \<Rightarrow> Some p3) = Some p'" "is4 newIP"
      unfolding rewriteIPv4_def Let_def by (auto simp del: One_nat_def split: bind_splits if_split_asm)
    have "length (as4 newIP) = 4" using st(5) by (cases newIP) auto
    then have "same_outside ?S p p1" by (intro put_at_outside [OF st(1)]) (auto simp: rewritten_bytes_def v4(1))
    moreover have "same_outside ?S p1 p2" "same_outside ?S p2 p3"
      by (intro put16_at_outside [OF st(2)] put16_at_outside [OF st(3)]; auto simp: rewritten_bytes_def v4(1))+
    moreover have "same_outside ?S p3 p'" using tr [of p3 old "as4 newIP"] st(4) v4(1) assms(2,4) by (auto simp: idx_def)
    ultimately show ?thesis using same_outside_trans by blast
  next
    case v6
    then obtain old p1 where st: "put_at (if isSource then 8 else 24) (as16 newIP) p = Some p1"
      "(case idx (decoded l) 1 of
        Some LayerTypeTCP \<Rightarrow> updateTCPChecksum p1 hl old (as16 newIP)
      | Some LayerTypeUDP \<Rightarrow> updateUDPChecksum p1 hl old (as16 newIP)
      | Some LayerTypeICMPv6 \<Rightarrow> updateICMPv6Checksum p1 hl old (as16 newIP)
      | _ \<Rightarrow> Some p1) = Some p'" "is6 newIP"
      unfolding rewriteIPv6_def Let_def by (auto simp del: One_nat_def split: bind_splits if_split_asm)
    have "length (as16 newIP) = 16" using st(3) by (cases newIP) auto
    then have "same_outside ?S p p1" by (intro put_at_outside [OF st(1)]) (auto simp: rewritten_bytes_def v6(1))
    moreover have "same_outside ?S p1 p'" using tr [of p1 old "as16 newIP"] st(2) v6(1) assms(2,4) by (auto simp: idx_def)
    ultimately show ?thesis using same_outside_trans by blast
  qed
qed

text \<open>
  C9. Rewriting an address keeps the checksums correct. When the source or destination address of a
  TCP, UDP or ICMP packet is rewritten, only the bytes of that address, of the IPv4 header checksum and of
  the transport checksum change; the new address is read back and the other one is kept, an IPv4 header
  gets a correct checksum, and a transport checksum that was correct for the old addresses (the one's
  complement sum of RFC 1071, with the pseudo header where the protocol has one) is correct for the new
  ones, although it is updated incrementally (RFC 1624). A UDP packet without a checksum is excluded;
  that the updated UDP checksum is stored as zero, which a receiver reads as no checksum, is not ruled out.
\<close>

theorem rewrite_keeps_checksums:
  assumes "rewritePacketIP p l newIP isSource = Some (Inr p')" and "decoded l = [n, t]"
    and "(n, t) \<in> {(LayerTypeIPv4, LayerTypeTCP), (LayerTypeIPv4, LayerTypeUDP), (LayerTypeIPv4, LayerTypeICMPv4),
      (LayerTypeIPv6, LayerTypeTCP), (LayerTypeIPv6, LayerTypeUDP), (LayerTypeIPv6, LayerTypeICMPv6)}"
    and "ipHeaderLen l = Some (Inr hl)" and "hl + min_segment t \<le> length p" and "length p < 131072"
    and "t = LayerTypeUDP \<Longrightarrow> get16_at (hl + 6) p \<noteq> Some 0"
    and "segment_ok (t \<noteq> LayerTypeICMPv4) (n = LayerTypeIPv6) hl p"
  shows "segment_ok (t \<noteq> LayerTypeICMPv4) (n = LayerTypeIPv6) hl p' \<and>
    (n = LayerTypeIPv4 \<longrightarrow> header_ok hl p') \<and> length p' = length p \<and>
    extractPacketIPs p' l =
      map_option (\<lambda>(s, d). if isSource then (newIP, d) else (s, newIP)) (extractPacketIPs p l) \<and>
    (\<forall>i < length p. i \<notin> rewritten_bytes n t hl isSource \<longrightarrow> p' ! i = p ! i)"
proof (cases "n = LayerTypeIPv4")
  note out = rewrite_outside [OF assms(1,2,4), unfolded same_outside_def]
  case True
  then have hl: "20 \<le> hl" "even hl" using assms(2,4) by (auto simp: ipHeaderLen_def idx_def Let_def split: if_splits)
  then have "rewriteIPv4 p l newIP hl isSource = Some (Inr p')"
    using assms(1,2,4) True by (simp add: rewritePacketIP_def idx_def)
  from rewriteIPv4_ok [OF this assms(2) _ hl assms(5,6,7)] assms(3,8) True
  show ?thesis using assms(2,5) hl out
    by (cases newIP; cases isSource)
      (auto simp: extractPacketIPs_def idx_def slice_simps be_word_be_bytes take_bit_word_eq_self)
next
  note out = rewrite_outside [OF assms(1,2,4), unfolded same_outside_def]
  case False
  then have n: "n = LayerTypeIPv6" "hl = 40" using assms(2,3,4) by (auto simp: ipHeaderLen_def idx_def)
  then have "rewriteIPv6 p l newIP 40 isSource = Some (Inr p')"
    using assms(1,2,4) by (simp add: rewritePacketIP_def idx_def)
  from rewriteIPv6_ok [OF this assms(2)] assms(3,5-8) n
  show ?thesis using assms(2) out
    by (cases newIP; cases isSource)
      (auto simp: extractPacketIPs_def idx_def slice_simps be_word_be_bytes take_bit_word_eq_self min_segment_def)
qed


definition sample_packet :: bytes where
  "sample_packet =
     [0x45, 0, 0, 40, 0, 1, 0, 0, 64, 6, 102, 205, 10, 0, 0, 1, 10, 0, 0, 2,
      3, 232, 1, 187, 0, 0, 0, 1, 0, 0, 0, 0, 80, 2, 4, 0, 146, 60, 0, 0]"

definition sample_layers :: layers where
  "sample_layers = zero_layers\<lparr> decoded := [LayerTypeIPv4, LayerTypeTCP], ip4 := (ip4 zero_layers)\<lparr> IHL := 5 \<rparr> \<rparr>"

definition sample_rewritten :: bytes where
  "sample_rewritten =
     [0x45, 0, 0, 40, 0, 1, 0, 0, 64, 6, 102, 198, 10, 0, 0, 1, 10, 0, 0, 9,
      3, 232, 1, 187, 0, 0, 0, 1, 0, 0, 0, 0, 80, 2, 4, 0, 146, 53, 0, 0]"

lemma sample_rewrite: "rewritePacketIP sample_packet sample_layers (Addr4 0x0A000009) False = Some (Inr sample_rewritten)"
  by code_simp

lemma sample_valid: "segment_ok True False 20 sample_packet"
  by (simp add: segment_ok_def pseudo_sum_def checksum_ok_iff sample_packet_def)

theorem rewrite_keeps_checksums_witness:
  "segment_ok True False 20 sample_rewritten \<and> header_ok 20 sample_rewritten \<and>
   extractPacketIPs sample_rewritten sample_layers = Some (Addr4 0x0A000001, Addr4 0x0A000009)"
proof -
  have "extractPacketIPs sample_packet sample_layers = Some (Addr4 0x0A000001, Addr4 0x0A000002)" by code_simp
  then show ?thesis
    using rewrite_keeps_checksums [OF sample_rewrite, of LayerTypeIPv4 LayerTypeTCP 20] sample_valid
    by (simp add: sample_layers_def ipHeaderLen_def idx_def min_segment_def sample_packet_def)
qed


section \<open>Port rewriting and UDP\<close>

definition sample_udp6 :: bytes where
  "sample_udp6 =
     [0x60, 0, 0, 0, 0, 10, 17, 64, 253, 0, 0, 0, 0, 0, 0, 0, 0, 0, 0, 0, 0, 0, 0, 1,
      253, 0, 0, 0, 0, 0, 0, 0, 0, 0, 0, 0, 0, 0, 0, 2, 3, 232, 31, 144, 0, 10, 0, 1, 226, 92]"

definition sample_udp6_layers :: layers where
  "sample_udp6_layers = zero_layers\<lparr> decoded := [LayerTypeIPv6, LayerTypeUDP] \<rparr>"

text \<open>
  C38. A redirected UDP packet can lose its checksum. A UDP checksum of zero means that there is no
  checksum, and a sender transmits a computed zero as all ones (RFC 768); over IPv6 a receiver must
  discard a UDP packet without one (RFC 8200). The port rewriting stores the incrementally updated
  checksum as it is: for the IPv6 packet \<open>sample_udp6\<close>, whose checksum is correct and not zero,
  redirecting port 8080 to 8081 writes the checksum zero.
\<close>

theorem udp_checksum_lost:
  "\<exists>p'. segment_ok True True 40 sample_udp6 \<and> get16_at 46 sample_udp6 = Some 1 \<and>
    rewriteUDPPort sample_udp6 sample_udp6_layers 8081 2 = Some (Inr p') \<and> get16_at 46 p' = Some 0"
proof -
  have "segment_ok True True 40 sample_udp6"
    by (simp add: segment_ok_def pseudo_sum_def checksum_ok_iff sample_udp6_def)
  moreover have "get16_at 46 sample_udp6 = Some 1" by code_simp
  moreover have "rewriteUDPPort sample_udp6 sample_udp6_layers 8081 2
      = Some (Inr (sample_udp6[43 := 145, 47 := 0]))" by code_simp
  moreover have "get16_at 46 (sample_udp6[43 := 145, 47 := 0]) = Some 0" by code_simp
  ultimately show ?thesis by blast
qed

section \<open>The two-way map\<close>

definition bi_inv :: "biDNATMap \<Rightarrow> bool" where
  "bi_inv b \<longleftrightarrow> (\<forall>a t. gget (forward b) a = Some t \<longleftrightarrow> gget (reverse b) t = Some a)"

lemma bi_inv_new: "bi_inv newBiDNATMap"
  by (simp add: bi_inv_def newBiDNATMap_def)

lemma bi_inv_set:
  "bi_inv b \<Longrightarrow> gget (forward b) a = None \<Longrightarrow> gget (reverse b) t = None \<Longrightarrow> bi_inv (bi_set a t b)"
  unfolding bi_inv_def bi_set_def by auto (metis option.distinct(1))

lemma bi_inv_delete: "bi_inv b \<Longrightarrow> bi_inv (bi_delete a b)"
  unfolding bi_inv_def bi_delete_def by (auto split: option.splits) (metis option.inject)

text \<open>The switches follow the tables, and the two tables of the forward direction agree.\<close>

definition nat_inv :: "'m nat_state_scheme \<Rightarrow> bool" where
  "nat_inv m \<longleftrightarrow>
     (dnatEnabled m \<longleftrightarrow> dnatMappings m \<noteq> []) \<and> gwf (dnatMappings m) \<and>
     (case dnatBiMap m of None \<Rightarrow> dnatMappings m = [] | Some b \<Rightarrow> map_of (forward b) = map_of (dnatMappings m)) \<and>
     (portDNATEnabled m \<longleftrightarrow> portDNATRules m \<noteq> [])"

lemma gput_ne: "gput k v m \<noteq> []"
  by (cases m) auto

lemma nat_inv_add:
  assumes "nat_inv m" "AddInternalDNATMapping a t m = Inr m'"
  shows "nat_inv m' \<and> (\<exists>b. dnatBiMap m' = Some b \<and> gget (forward b) a = Some t)"
proof -
  define m1 where "m1 = (if dnatBiMap m = None then m\<lparr> dnatMappings := [], dnatBiMap := Some newBiDNATMap \<rparr> else m)"
  define m2 where "m2 = m1\<lparr> dnatMappings := gput a t (dnatMappings m1), dnatBiMap := map_option (bi_set a t) (dnatBiMap m1) \<rparr>"
  have m': "m' = (if length (dnatMappings m2) = 1 then m2\<lparr> dnatEnabled := True \<rparr> else m2)"
    using assms(2) by (auto simp: AddInternalDNATMapping_def m1_def m2_def Let_def split: if_splits)
  have 1: "nat_inv m1" "dnatBiMap m1 \<noteq> None"
    using assms(1) by (auto simp: m1_def nat_inv_def newBiDNATMap_def split: option.splits)
  then obtain b where b: "dnatBiMap m1 = Some b" "map_of (forward b) = map_of (dnatMappings m1)"
    by (auto simp: nat_inv_def)
  have "length (dnatMappings m2) = 1 \<or> dnatMappings m1 \<noteq> []"
    by (cases "dnatMappings m1") (auto simp: m2_def)
  then show ?thesis using 1 b
    by (auto simp: m' m2_def nat_inv_def bi_set_def gput_ne update_conv)
qed

lemma nat_inv_remove:
  assumes "nat_inv m" "RemoveInternalDNATMapping a m = r"
  shows "\<exists>e. r = Some (Inl e) \<and> gget (dnatMappings m) a = None \<or>
    (\<exists>m'. r = Some (Inr m') \<and> nat_inv m' \<and> gget (dnatMappings m') a = None)"
proof (cases "gget (dnatMappings m) a")
  case None
  then show ?thesis using assms(2) by (auto simp: RemoveInternalDNATMapping_def)
next
  case (Some t)
  then obtain b where b: "dnatBiMap m = Some b" "map_of (forward b) = map_of (dnatMappings m)"
    using assms(1) by (cases "dnatBiMap m") (auto simp: nat_inv_def)
  let ?m = "m\<lparr> dnatMappings := gdel a (dnatMappings m), dnatBiMap := Some (bi_delete a b) \<rparr>"
  let ?m' = "if dnatMappings ?m = [] then ?m\<lparr> dnatEnabled := False \<rparr> else ?m"
  have "r = Some (Inr ?m')"
    using assms(2) b(1) Some by (simp add: RemoveInternalDNATMapping_def Let_def)
  moreover have "map_of (forward (bi_delete a b)) = map_of (gdel a (dnatMappings m))"
    using b(2) Some by (intro ext) (simp add: bi_delete_def)
  then have "nat_inv ?m'"
    using assms(1) b Some by (cases "gdel a (dnatMappings m) = []") (auto simp: nat_inv_def)
  moreover have "gget (dnatMappings ?m') a = None" by simp
  ultimately show ?thesis by blast
qed


section \<open>MSS clamping keeps the checksum\<close>

lemma fold_loop_value: "unat (fold_loop s) = carry_fold (unat s)"
proof (induction s rule: fold_loop.induct)
  case (1 s)
  show ?case
  proof (cases "s > 0xFFFF")
    case True
    then have "\<not> unat s \<le> 65535" by (simp add: word_less_nat_alt)
    then show ?thesis using 1 [OF True] True
      by (subst fold_loop.simps, subst carry_fold.simps) (simp only: fold_step_unat if_True if_False)
  next
    case False
    then have "unat s \<le> 65535" by (simp add: word_less_nat_alt)
    with False show ?thesis by (subst fold_loop.simps, subst carry_fold.simps) simp
  qed
qed

text \<open>The decoded header fields are those of the packet.\<close>

definition faithful :: "layers \<Rightarrow> bytes \<Rightarrow> bool" where
  "faithful l p =
     (case decoded l of
        LayerTypeIPv4 # _ \<Rightarrow> ip4_SrcIP (ip4 l) = take 4 (drop 12 p) \<and> ip4_DstIP (ip4 l) = take 4 (drop 16 p) \<and>
          ip4_Protocol (ip4 l) = p ! 9
      | LayerTypeIPv6 # _ \<Rightarrow> ip6_SrcIP (ip6 l) = take 16 (drop 8 p) \<and> ip6_DstIP (ip6 l) = take 16 (drop 24 p) \<and> p ! 6 = 6
      | _ \<Rightarrow> False)"

lemma word_sum_split: "even a \<Longrightarrow> a \<le> length p - n \<Longrightarrow> word_sum (take (a + b) (drop n p)) = word_sum (take a (drop n p)) + word_sum (take b (drop (a + n) p))"
  by (simp add: take_add word_sum_append)

lemma zero_two: "off + 2 \<le> length p \<Longrightarrow> (set_at off 0 p \<bind> set_at (off + 1) 0) = put16_at off 0 p"
  by (auto simp: set_at_def put16_at_def put_at_def put16_def intro!: nth_equalityI simp: nth_append nth_list_update)
    (rule arg_cong [where f = "(!) p"], linarith)

lemma recalculate_pseudo:
  assumes "faithful l p" "decoded l = n # ls" "n = LayerTypeIPv4 \<or> n = LayerTypeIPv6"
    "(if n = LayerTypeIPv6 then 40 else 20) \<le> length p" "hl \<le> length p"
  shows "(case idx (decoded l) 0 of
        None \<Rightarrow> None
      | Some LayerTypeIPv4 \<Rightarrow> do {
          s \<leftarrow> slice (ip4_SrcIP (ip4 l)) 0 4; d \<leftarrow> slice (ip4_DstIP (ip4 l)) 0 4;
          Some (add_words (add_words 0 s) d + ucast (ip4_Protocol (ip4 l)) + of_nat (length p - hl)) }
      | Some LayerTypeIPv6 \<Rightarrow> do {
          s \<leftarrow> slice (ip6_SrcIP (ip6 l)) 0 16; d \<leftarrow> slice (ip6_DstIP (ip6 l)) 0 16;
          Some (add_words (add_words 0 s) d + of_nat (length p - hl) + 6) }
      | Some _ \<Rightarrow> Some 0) = Some (of_nat (pseudo_sum (n = LayerTypeIPv6) hl p))"
proof (cases "n = LayerTypeIPv4")
  case True
  then show ?thesis using assms word_sum_split [of 4 p 12 4]
    by (simp add: faithful_def idx_def slice_simps add_words_value pseudo_sum_def)
next
  case False
  then show ?thesis using assms word_sum_split [of 16 p 8 16]
    by (simp add: faithful_def idx_def slice_simps add_words_value pseudo_sum_def)
qed

lemma pseudo_sum_le:
  assumes "length p < 65536"
  shows "pseudo_sum v6 hl p \<le> 65535 * 17 + 255 + 65535"
proof -
  have b: "unat x < 256" for x :: byte using unsigned_less [of x] by simp
  have "2 * word_sum (take 32 (drop 8 p)) \<le> 65535 * 33" "2 * word_sum (take 8 (drop 12 p)) \<le> 65535 * 33"
    using word_sum_le [of "take 32 (drop 8 p)"] word_sum_le [of "take 8 (drop 12 p)"] by auto
  then show ?thesis using assms b [of "p ! 6"] b [of "p ! 9"] by (cases v6) (auto simp: pseudo_sum_def)
qed

lemma faithful_cong:
  assumes "take hl q = take hl p" "decoded l = n # ls" "n = LayerTypeIPv4 \<or> n = LayerTypeIPv6"
    "(if n = LayerTypeIPv6 then 40 else 20) \<le> hl"
  shows "faithful l q = faithful l p"
proof -
  have nth: "q ! i = p ! i" if "i < hl" for i using assms(1) nth_take [OF that, of q] nth_take [OF that, of p] by simp
  have td: "take m (drop a q) = take m (drop a p)" if "a + m \<le> hl" for a m by (rule take_drop_cong [OF assms(1) that])
  show ?thesis using assms(2-4) nth [of 9] nth [of 6] td [of 12 4] td [of 16 4] td [of 8 16] td [of 24 16]
    by (auto simp: faithful_def)
qed

lemma recalculateTCPChecksum_ok:
  assumes "recalculateTCPChecksum p l hl = Some p'" "faithful l p" "decoded l = n # ls"
    "n = LayerTypeIPv4 \<or> n = LayerTypeIPv6" "(if n = LayerTypeIPv6 then 40 else 20) \<le> hl" "even hl"
    "length p < 65536"
  shows "segment_ok True (n = LayerTypeIPv6) hl p' \<and> take (hl + 16) p' = take (hl + 16) p \<and> length p' = length p \<and>
    drop (hl + 18) p' = drop (hl + 18) p"
proof -
  let ?v6 = "n = LayerTypeIPv6"
  from assms(1) have le: "hl + 18 \<le> length p"
    by (auto simp: recalculateTCPChecksum_def set_at_def split: bind_splits if_splits)
  obtain q where q: "put16_at (hl + 16) 0 p = Some q" using le by (auto simp: put16_at_def put_at_def)
  then have len: "length q = length p" "take hl q = take hl p"
    using put_at_length put_at_take_above [of "hl + 16"] by (auto simp: put16_at_def)
  have fq: "faithful l q" using assms(2-5) faithful_cong [OF len(2)] by simp
  let ?s = "pseudo_sum ?v6 hl q + word_sum (drop hl q)"
  let ?c = "NOT (of_nat (carry_fold ?s)) :: u16"
  have "pseudo_sum ?v6 hl q \<le> 65535 * 17 + 255 + 65535" by (rule pseudo_sum_le) (use len assms(7) in simp)
  moreover have "2 * word_sum (drop hl q) \<le> 65535 * 65536"
  proof -
    have "length (drop hl q) \<le> 65535" using len assms(7) by simp
    then show ?thesis using word_sum_le [of "drop hl q"] by simp
  qed
  ultimately have "unat (of_nat ?s :: u32) = ?s" by (intro unat_small) simp
  then have "(ucast (fold_loop (of_nat ?s)) :: u16) = of_nat (carry_fold ?s)"
    using fold_loop_value [of "of_nat ?s"] by (metis of_nat_unat)
  moreover have "recalculateTCPChecksum p l hl =
      put16_at (hl + 16) (NOT (ucast (fold_loop (add_words (of_nat (pseudo_sum ?v6 hl q)) (drop hl q))))) q"
  proof -
    have "set_at (hl + 16) 0 p = Some (p[hl + 16 := 0])" using le by (simp add: set_at_Some)
    moreover have "set_at (hl + 17) 0 (p[hl + 16 := 0]) = Some q"
      using zero_two [of "hl + 16" p] q le calculation by (simp add: add.commute)
    ultimately show ?thesis
      using recalculate_pseudo [OF fq assms(3,4), of hl] assms(5) le len
      by (simp add: recalculateTCPChecksum_def slice_from_Some)
  qed
  ultimately have put: "put16_at (hl + 16) ?c q = Some p'" using assms(1) by (simp add: add_words_value)
  then have "put16_at 16 ?c (drop hl q) = Some (drop hl p')"
    using put_at_drop [of "hl + 16" "put16 ?c" q p' hl] by (simp add: put16_at_def)
  moreover have "get16_at 16 (drop hl q) = Some 0"
    using get16_zero [OF q] len by (auto simp: get16_at_def slice_def add.commute add.left_commute split: bind_splits if_splits)
  ultimately have "word_sum (drop hl p') = word_sum (drop hl q) + unat ?c"
    using put16_at_word_sum [of 16 ?c "drop hl q" "drop hl p'" 0] by simp
  moreover have tk: "take hl p' = take hl q" "length p' = length q"
    using put put_at_take_above [of "hl + 16"] put_at_length by (auto simp: put16_at_def)
  moreover have "pseudo_sum ?v6 hl p' = pseudo_sum ?v6 hl q"
    by (rule pseudo_sum_cong) (use tk assms(5) le len in auto)
  ultimately have "segment_ok True ?v6 hl p'" using own_checksum_ok [of ?s] by (simp add: segment_ok_def add_ac)
  moreover have "drop (hl + 18) p' = drop (hl + 18) p"
    using put q put_at_drop_below [of "hl + 16" _ _ _ "hl + 18"] by (simp add: put16_at_def)
  moreover have "take (hl + 16) p' = take (hl + 16) p"
    using put q put_at_take_above [of "hl + 16" _ _ _ "hl + 16"] by (simp add: put16_at_def)
  ultimately show ?thesis using tk len by simp
qed

text \<open>The encoding of TCP options (RFC 9293): the kinds 0 and 1 are single bytes, the others have a length and data.\<close>

definition option_bytes :: "TCPOption \<Rightarrow> bytes" where
  "option_bytes t =
     (if OptionType t = 0 \<or> OptionType t = 1 then [OptionType t]
      else OptionType t # of_nat (2 + length (OptionData t)) # OptionData t)"

definition options_bytes :: "TCPOption list \<Rightarrow> bytes" where
  "options_bytes opts = concat (map option_bytes opts)"

lemma option_offset_bytes:
  "option_offset opts i a = Some off \<Longrightarrow> off = a + length (options_bytes (take i opts))"
  by (induction opts i a rule: option_offset.induct) (auto simp: options_bytes_def option_bytes_def split: if_splits)

lemma put_mss_option:
  assumes "put16_at (a + length (options_bytes os1) + 2) w p = Some p1"
    "drop a p = options_bytes (os1 @ t # os2) @ rest" "OptionType t = 2" "length (OptionData t) = 2"
  shows "drop a p1 = options_bytes (os1 @ t\<lparr> OptionData := put16 w \<rparr> # os2) @ rest"
proof -
  have "put_at (length (options_bytes os1) + 2) (put16 w) (drop a p) = Some (drop a p1)"
    using put_at_drop [of "a + length (options_bytes os1) + 2" "put16 w" p p1 a] assms(1) by (simp add: put16_at_def add.assoc)
  then show ?thesis
    using assms(3,4) unfolding assms(2)
    by (auto simp: put_at_def options_bytes_def option_bytes_def split: if_splits)
qed

lemma put16_get: "put16_at off w p = Some p' \<Longrightarrow> get16_at off p' = Some w"
  using be16_put16 [of w "[]"] put_at_read [of off "put16 w" p p']
  by (auto simp: get16_at_def slice_def put16_at_def put_at_def split: if_splits)

lemma find_mss_Some: "find_mss opts k clamp = Some j \<Longrightarrow>
   k \<le> j \<and> j < k + length opts \<and> OptionType (opts ! (j - k)) = 2 \<and> length (OptionData (opts ! (j - k))) = 2 \<and>
   (\<exists>v. be16 (OptionData (opts ! (j - k))) = Some v \<and> v > clamp) \<and> find_mss (take (j - k) opts) i clamp = None"
proof (induction opts k clamp arbitrary: i rule: find_mss.induct)
  case (2 t ts k clamp)
  let ?good = "OptionType t = 2 \<and> length (OptionData t) = 2 \<and>
    (case be16 (OptionData t) of Some v \<Rightarrow> v > clamp | None \<Rightarrow> False)"
  show ?case
  proof (cases ?good)
    case True
    then have "j = k" using 2(2) by simp
    then show ?thesis using True by (auto split: option.splits)
  next
    case False
    then have "find_mss ts (Suc k) clamp = Some j" using 2(2) by (simp only: find_mss.simps if_False)
    from 2(1) [OF False this, of "Suc i"]
    have ih: "Suc k \<le> j" "j < Suc k + length ts" "OptionType (ts ! (j - Suc k)) = 2" "length (OptionData (ts ! (j - Suc k))) = 2"
      "\<exists>v. be16 (OptionData (ts ! (j - Suc k))) = Some v \<and> v > clamp" "find_mss (take (j - Suc k) ts) (Suc i) clamp = None" by blast+
    then have "j - k = Suc (j - Suc k)" by simp
    then show ?thesis using ih False by (simp only: nth_Cons_Suc take_Suc_Cons find_mss.simps if_False) simp
  qed
qed simp

lemma find_mss_None:
  "find_mss opts i clamp = None \<longleftrightarrow> list_all (\<lambda>u. \<not> (OptionType u = 2 \<and> length (OptionData u) = 2 \<and>
     (\<exists>w. be16 (OptionData u) = Some w \<and> w > clamp))) opts"
  by (induction opts i clamp rule: find_mss.induct) (auto split: option.splits)

text \<open>
  C25. Clamping the MSS keeps the packet valid. Let the TCP options that the parser reported for a packet
  be encoded in its bytes after the fixed TCP header. When the packet is clamped, its first MSS option
  with a value above the clamp is found, and the options of the new packet are encoded in its bytes with
  that value replaced by the clamp and all others as before; apart from the TCP checksum, every other
  byte of the packet is kept, and the recomputed TCP checksum is correct, whatever the old one was. The
  loop that folds the carries of the checksum terminates (\<open>fold_loop\<close> is total).
\<close>

theorem mss_clamp_valid:
  assumes "clampTCPMSS cfg p l = Some (p', True)" and "faithful l p" and "decoded l = n # ls"
    and "ipHeaderLen l = Some (Inr hl)" and "hl < length p" and "length p < 65536"
    and "drop (hl + 20) p = options_bytes (Options (tcp l)) @ rest"
    and "clamp = (if n = LayerTypeIPv6 then mssClampValueIPv6 cfg else mssClampValueIPv4 cfg)"
  shows "\<exists>os1 t os2 v. Options (tcp l) = os1 @ t # os2 \<and>
    OptionType t = 2 \<and> length (OptionData t) = 2 \<and> be16 (OptionData t) = Some v \<and> v > clamp \<and>
    list_all (\<lambda>u. \<not> (OptionType u = 2 \<and> length (OptionData u) = 2 \<and> (\<exists>w. be16 (OptionData u) = Some w \<and> w > clamp))) os1 \<and>
    drop (hl + 20) p' = options_bytes (os1 @ t\<lparr> OptionData := put16 clamp \<rparr> # os2) @ rest \<and>
    take (hl + 16) p' = take (hl + 16) p \<and> take 2 (drop (hl + 18) p') = take 2 (drop (hl + 18) p) \<and>
    length p' = length p \<and> segment_ok True (n = LayerTypeIPv6) hl p'"
proof -
  have n: "n = LayerTypeIPv4 \<or> n = LayerTypeIPv6" using assms(2,3) by (auto simp: faithful_def split: LayerType.splits)
  have hl: "(if n = LayerTypeIPv6 then 40 else 20) \<le> hl" "even hl"
    using n assms(3,4) by (auto simp: ipHeaderLen_def idx_def Let_def split: if_splits)
  have ihl: "n = LayerTypeIPv4 \<Longrightarrow> unat (IHL (ip4 l)) * 4 = hl" "n = LayerTypeIPv6 \<Longrightarrow> hl = 40"
    using assms(3,4) by (auto simp: ipHeaderLen_def idx_def Let_def split: if_splits)
  from assms(1) n obtain i where i: "find_mss (Options (tcp l)) 0 clamp = Some i" "updateMSSOption p l i clamp hl = Some p'"
    using assms(3) ihl unfolding assms(8) by (auto simp: clampTCPMSS_def idx_def split: if_splits option.splits)
  define os1 t os2 where os: "os1 = take i (Options (tcp l))" "t = Options (tcp l) ! i" "os2 = drop (Suc i) (Options (tcp l))"
  have opts: "Options (tcp l) = os1 @ t # os2" "list_all (\<lambda>u. \<not> (OptionType u = 2 \<and> length (OptionData u) = 2 \<and>
      (\<exists>w. be16 (OptionData u) = Some w \<and> w > clamp))) os1"
    and t: "OptionType t = 2" "length (OptionData t) = 2" "\<exists>v. be16 (OptionData t) = Some v \<and> v > clamp"
    using find_mss_Some [OF i(1)] id_take_nth_drop [of i] unfolding os by (auto simp: find_mss_None)
  from i(2) obtain p1 where p1: "put16_at (hl + 20 + length (options_bytes os1) + 2) clamp p = Some p1"
    "recalculateTCPChecksum p1 l hl = Some p'"
    using option_offset_bytes [of "Options (tcp l)" i "hl + 20"] by (auto simp: updateMSSOption_def os split: bind_splits)
  have "take (hl + 20) p1 = take (hl + 20) p" and len: "length p1 = length p"
    using p1(1) put_at_take_above [of "hl + 20 + length (options_bytes os1) + 2" _ p p1 "hl + 20"] put_at_length
    by (auto simp: put16_at_def)
  then have pre: "take k p1 = take k p" if "k \<le> hl + 20" for k
    by (metis that take_take min.absorb1)
  have "faithful l p1" using faithful_cong [OF pre assms(3) n hl(1)] assms(2) by simp
  from recalculateTCPChecksum_ok [OF p1(2) this assms(3) n hl] assms(6) len
  have r: "segment_ok True (n = LayerTypeIPv6) hl p'" "take (hl + 16) p' = take (hl + 16) p1" "length p' = length p1"
    "drop (hl + 18) p' = drop (hl + 18) p1" by auto
  have "drop (hl + 20) p' = drop (hl + 20) p1"
    using arg_cong [OF r(4), of "drop 2"] by (simp add: add.commute add.left_commute)
  then have "drop (hl + 20) p' = options_bytes (os1 @ t\<lparr> OptionData := put16 clamp \<rparr> # os2) @ rest"
    using put_mss_option [OF p1(1) _ t(1,2)] assms(7) opts(1) by simp
  moreover have "take 2 (drop (hl + 18) p1) = take 2 (drop (hl + 18) p)"
    by (rule take_drop_cong [OF pre [OF order_refl]]) simp
  ultimately show ?thesis using opts t r len pre [of "hl + 16"] by auto
qed

definition sample_syn :: bytes where
  "sample_syn =
     [0x45, 0, 0, 44, 0, 1, 0, 0, 64, 6, 102, 201, 10, 0, 0, 1, 10, 0, 0, 2, 3, 232, 1, 187, 0, 0, 0, 1,
      0, 0, 0, 0, 96, 2, 4, 0, 122, 128, 0, 0, 2, 4, 5, 180]"

definition sample_syn_layers :: layers where
  "sample_syn_layers = zero_layers\<lparr> decoded := [LayerTypeIPv4, LayerTypeTCP],
     ip4 := (ip4 zero_layers)\<lparr> IHL := 5, ip4_SrcIP := [10, 0, 0, 1], ip4_DstIP := [10, 0, 0, 2], ip4_Protocol := 6 \<rparr>,
     tcp := (tcp zero_layers)\<lparr> SYN := True, Options := [\<lparr> OptionType = 2, OptionData = [5, 180] \<rparr>] \<rparr> \<rparr>"

definition sample_mss :: mss_config where
  "sample_mss = \<lparr> mssClampValueIPv4 = 1240, mssClampValueIPv6 = 1220, mssClampEnabled = True \<rparr>"

lemma sample_clamped:
  "clampTCPMSS sample_mss sample_syn sample_syn_layers = Some (sample_syn[36 := 123, 37 := 92, 42 := 4, 43 := 216], True)"
  by code_simp

theorem mss_clamp_valid_witness:
  "drop 40 (sample_syn[36 := 123, 37 := 92, 42 := 4, 43 := 216]) =
     options_bytes [\<lparr> OptionType = 2, OptionData = put16 1240 \<rparr>] \<and>
   segment_ok True False 20 (sample_syn[36 := 123, 37 := 92, 42 := 4, 43 := 216])"
proof -
  have "faithful sample_syn_layers sample_syn" "decoded sample_syn_layers = [LayerTypeIPv4, LayerTypeTCP]"
    "ipHeaderLen sample_syn_layers = Some (Inr 20)" "20 < length sample_syn" "length sample_syn < 65536"
    "drop (20 + 20) sample_syn = options_bytes (Options (tcp sample_syn_layers)) @ []" by code_simp+
  from mss_clamp_valid [OF sample_clamped this refl]
  have "\<exists>os1 t os2. [\<lparr> OptionType = 2, OptionData = [5, 180] \<rparr>] = os1 @ t # os2 \<and>
      drop 40 (sample_syn[36 := 123, 37 := 92, 42 := 4, 43 := 216]) =
        options_bytes (os1 @ t\<lparr> OptionData := put16 1240 \<rparr> # os2) \<and>
      segment_ok True False 20 (sample_syn[36 := 123, 37 := 92, 42 := 4, 43 := 216])"
    by (auto simp: sample_mss_def sample_syn_layers_def)
  then show ?thesis by (auto simp: Cons_eq_append_conv)
qed

end
