(* ===== verification/UspFilter.thy ===== *)
theory UspFilter
  imports UspNat
begin

text \<open>
  The userspace firewall manager (\<open>client/firewall/uspfilter/filter.go\<close>, \<open>rule.go\<close>): its rule tables and
  the operations on them, the access decisions for local and for routed packets, and the inbound and
  outbound packet filters with the connection trackers and address translation they drive.

  \<^item> \<open>Manager\<close> is the struct, without locks, logger and packet capture. A nil tracker, forwarder or
    native firewall is \<open>None\<close> or \<open>False\<close>. The interface address is a field. The packets given to the
    forwarder and the drop events stored are accumulated in \<open>injected\<close> and \<open>dropEvents\<close>.
  \<^item> The slice and the map of route rules hold the same pointers: an update through one is made in both.
  \<^item> Where the code hands the call to a native firewall, the result is \<open>ToNative\<close>.
  \<^item> What a packet meets from outside is \<open>penv\<close>: the clock, a fresh flow id, the orders in which Go
    iterates over the maps. The drop verdict is \<open>True\<close>; \<open>None\<close> is a panic.
\<close>

section \<open>Rules and state\<close>

record PeerRule =
  pr_id :: string
  pr_mgmtId :: bytes
  pr_ip :: addr
  ipLayer :: LayerType
  matchByIP :: bool
  protoLayer :: LayerType
  sPort :: "FwPort option"
  dPort :: "FwPort option"
  pr_drop :: bool

record RouteRule =
  rr_id :: string
  rr_mgmtId :: bytes
  sources :: "prefix list"
  dstSet :: fwset
  destinations :: "prefix list"
  rr_protoLayer :: LayerType
  srcPort :: "FwPort option"
  dstPort :: "FwPort option"
  action :: Action

type_synonym RuleSet = "(string, PeerRule) gmap"

record Manager = nat_state +
  incomingDenyRules :: "(addr, RuleSet) gmap"
  incomingRules :: "(addr, RuleSet) gmap"
  routeRules :: "RouteRule list"
  routeRulesMap :: "(string, RouteRule) gmap"
  wgAddress :: wg_address
  nativeFirewall :: bool
  disableServerRoutes :: bool
  routingEnabled :: bool
  nativeRouter :: bool
  stateful :: bool
  netstack :: bool
  localForwarding :: bool
  udpTracker :: "udp_tracker option"
  icmpTracker :: "icmp_tracker option"
  tcpTracker :: "tcp_tracker option"
  forwarder :: bool
  blockRules :: "string list"
  netstackServices :: "(LayerType \<times> u16) list"
  mss :: mss_config
  udpHookOut :: "PacketHook option"
  tcpHookOut :: "PacketHook option"
  injected :: "bytes list"
  dropEvents :: "EventFields list"

datatype 'a outcome = ToNative | Here 'a

section \<open>Route rules\<close>

fun bytes_less :: "string \<Rightarrow> string \<Rightarrow> bool" where
  "bytes_less _ [] = False"
| "bytes_less [] (_ # _) = True"
| "bytes_less (a # as) (b # bs) = (code_of a < code_of b \<or> a = b \<and> bytes_less as bs)"

definition rule_less :: "RouteRule \<Rightarrow> RouteRule \<Rightarrow> bool" where
  "rule_less a b =
     (if action a = ActionDrop \<and> action b \<noteq> ActionDrop then True
      else if action a \<noteq> ActionDrop \<and> action b = ActionDrop then False
      else bytes_less (rr_id a) (rr_id b))"

text \<open>The stable sort of \<open>slices.SortStableFunc\<close>: insertion before the first greater element.\<close>

fun insert_stable :: "('a \<Rightarrow> 'a \<Rightarrow> bool) \<Rightarrow> 'a \<Rightarrow> 'a list \<Rightarrow> 'a list" where
  "insert_stable lt x [] = [x]"
| "insert_stable lt x (y # ys) = (if lt x y then x # y # ys else y # insert_stable lt x ys)"

definition sort_stable :: "('a \<Rightarrow> 'a \<Rightarrow> bool) \<Rightarrow> 'a list \<Rightarrow> 'a list" where
  "sort_stable lt xs = foldl (\<lambda>acc x. insert_stable lt x acc) [] xs"

definition RouteRules_Sort :: "RouteRule list \<Rightarrow> RouteRule list" where
  "RouteRules_Sort rs = sort_stable rule_less rs"

definition delegates :: "Manager \<Rightarrow> bool" where
  "delegates m = (nativeRouter m \<and> nativeFirewall m)"

definition addRouteFiltering ::
    "(string \<Rightarrow> string) \<Rightarrow> bytes \<Rightarrow> prefix list \<Rightarrow> Network \<Rightarrow> Protocol \<Rightarrow> FwPort option \<Rightarrow> FwPort option \<Rightarrow> Action \<Rightarrow>
     Manager \<Rightarrow> (Manager \<times> RouteRule) outcome" where
  "addRouteFiltering sha256hex mgmt srcs destination proto sp dp act m =
     (if delegates m then ToNative
      else let (ruleKey, srcs) = GenerateRouteRuleKey sha256hex srcs destination proto sp dp act
           in case gget (routeRulesMap m) ruleKey of
                Some existingRule \<Rightarrow> Here (m, existingRule)
              | None \<Rightarrow>
                  (let rule = \<lparr> rr_id = ruleKey, rr_mgmtId = mgmt, sources = srcs, dstSet = net_Set destination,
                         destinations = (if IsPrefix destination then [net_Prefix destination] else []),
                         rr_protoLayer = protoToLayer proto (ipLayerFromPrefix (net_Prefix destination)),
                         srcPort = sp, dstPort = dp, action = act \<rparr>
                   in Here (m\<lparr> routeRules := RouteRules_Sort (routeRules m @ [rule]),
                               routeRulesMap := gput ruleKey rule (routeRulesMap m) \<rparr>, rule)))"

fun index_where :: "('a \<Rightarrow> bool) \<Rightarrow> 'a list \<Rightarrow> nat option" where
  "index_where p [] = None"
| "index_where p (x # xs) = (if p x then Some 0 else map_option Suc (index_where p xs))"

definition deleteRouteRule :: "string \<Rightarrow> Manager \<Rightarrow> (fw_err + Manager) outcome" where
  "deleteRouteRule ruleKey m =
     (if delegates m then ToNative
      else if gget (routeRulesMap m) ruleKey = None then Here (Inl RuleNotFound)
      else case index_where (\<lambda>r. rr_id r = ruleKey) (routeRules m) of
             None \<Rightarrow> Here (Inl RuleNotFound)
           | Some i \<Rightarrow>
               Here (Inr (m\<lparr> routeRules := take i (routeRules m) @ drop (i + 1) (routeRules m),
                             routeRulesMap := gdel ruleKey (routeRulesMap m) \<rparr>)))"

definition set_prefix_less :: "prefix \<Rightarrow> prefix \<Rightarrow> bool" where
  "set_prefix_less p q =
     (let c = addr_compare (pfx_addr p) (pfx_addr q)
      in if c \<noteq> 0 then c < 0 else pfx_bits p < pfx_bits q)"

fun Compact :: "'a list \<Rightarrow> 'a list" where
  "Compact (x # y # ys) = (if x = y then Compact (y # ys) else x # Compact (y # ys))"
| "Compact xs = xs"

definition UpdateSet :: "fwset \<Rightarrow> prefix list \<Rightarrow> Manager \<Rightarrow> (fw_err + Manager) outcome" where
  "UpdateSet s prefixes m =
     (if delegates m then ToNative
      else case filter (\<lambda>r. dstSet r = s) (routeRules m) of
             [] \<Rightarrow> Here (Inl NoRuleForSet)
           | first # _ \<Rightarrow>
               (let ds = Compact (sort_by set_prefix_less (destinations first @ prefixes));
                    upd = (\<lambda>r. if dstSet r = s then r\<lparr> destinations := ds \<rparr> else r)
                in Here (Inr (m\<lparr> routeRules := map upd (routeRules m),
                                 routeRulesMap := map (\<lambda>(k, r). (k, upd r)) (routeRulesMap m) \<rparr>))))"

section \<open>Peer rules\<close>

definition AddPeerFiltering ::
    "string \<Rightarrow> bytes \<Rightarrow> bytes \<Rightarrow> Protocol \<Rightarrow> FwPort option \<Rightarrow> FwPort option \<Rightarrow> Action \<Rightarrow> Manager \<Rightarrow>
     fw_err + (Manager \<times> PeerRule)" where
  "AddPeerFiltering uuid mgmt ip proto sp dp act m =
     (case addr_from_slice ip of
        None \<Rightarrow> Inl InvalidIP
      | Some i \<Rightarrow>
          (let i = unmap i;
               layer = (if is4 i then LayerTypeIPv4 else LayerTypeIPv6);
               s = addr_String i;
               r = \<lparr> pr_id = uuid, pr_mgmtId = mgmt, pr_ip = i, ipLayer = layer,
                     matchByIP = \<not> (s = ''0.0.0.0'' \<or> s = ''::''),
                     protoLayer = protoToLayer proto layer, sPort = sp, dPort = dp,
                     pr_drop = (act = ActionDrop) \<rparr>;
               add = (\<lambda>t. gput i (gput uuid r (case gget t i of Some rs \<Rightarrow> rs | None \<Rightarrow> [])) t)
           in Inr (if pr_drop r then m\<lparr> incomingDenyRules := add (incomingDenyRules m) \<rparr>
                   else m\<lparr> incomingRules := add (incomingRules m) \<rparr>, r)))"

definition delete_peer_rule :: "PeerRule \<Rightarrow> (addr, RuleSet) gmap \<Rightarrow> fw_err + (addr, RuleSet) gmap" where
  "delete_peer_rule r t =
     (case gget t (pr_ip r) of
        None \<Rightarrow> Inl RuleNotFound
      | Some rs \<Rightarrow>
          if gget rs (pr_id r) = None then Inl RuleNotFound
          else let rs' = gdel (pr_id r) rs
               in Inr (if length rs' = 0 then gdel (pr_ip r) t else gput (pr_ip r) rs' t))"

definition DeletePeerRule :: "PeerRule \<Rightarrow> Manager \<Rightarrow> fw_err + Manager" where
  "DeletePeerRule r m =
     (if pr_drop r
      then map_sum id (\<lambda>t. m\<lparr> incomingDenyRules := t \<rparr>) (delete_peer_rule r (incomingDenyRules m))
      else map_sum id (\<lambda>t. m\<lparr> incomingRules := t \<rparr>) (delete_peer_rule r (incomingRules m)))"


section \<open>Access decisions\<close>

definition portsMatch :: "FwPort option \<Rightarrow> u16 \<Rightarrow> bool option" where
  "portsMatch rulePort packetPort =
     (case rulePort of
        None \<Rightarrow> Some True
      | Some p \<Rightarrow>
          if IsRange p
          then (case idx (Values p) 0 of
                  None \<Rightarrow> None
                | Some lo \<Rightarrow>
                    if packetPort \<ge> lo then map_option (\<lambda>hi. packetPort \<le> hi) (idx (Values p) 1) else Some False)
          else Some (packetPort \<in> set (Values p)))"

text \<open>Whether the ports of a rule match; the second port is looked at only if the first matches.\<close>

definition both_ports :: "FwPort option \<Rightarrow> FwPort option \<Rightarrow> u16 \<times> u16 \<Rightarrow> bool option" where
  "both_ports sp dp ports =
     (case portsMatch sp (fst ports) of
        None \<Rightarrow> None
      | Some False \<Rightarrow> Some False
      | Some True \<Rightarrow> portsMatch dp (snd ports))"

definition peer_rule_applies :: "addr \<Rightarrow> layers \<Rightarrow> LayerType \<Rightarrow> PeerRule \<Rightarrow> bool option" where
  "peer_rule_applies ip l payloadLayer rule =
     (if matchByIP rule \<and> addr_compare ip (pr_ip rule) \<noteq> 0 then Some False
      else if protoLayer rule = layerTypeAll then Some True
      else if \<not> protoLayerMatches (protoLayer rule) payloadLayer then Some False
      else if payloadLayer = LayerTypeTCP \<or> payloadLayer = LayerTypeUDP
           then both_ports (sPort rule) (dPort rule) (layer_ports l payloadLayer)
      else Some (payloadLayer = LayerTypeICMPv4 \<or> payloadLayer = LayerTypeICMPv6))"

text \<open>The first rule, in the order of the iteration, that applies: its management id and its verdict.\<close>

fun validate_loop :: "addr \<Rightarrow> layers \<Rightarrow> LayerType \<Rightarrow> PeerRule list \<Rightarrow> (bytes \<times> bool) option option" where
  "validate_loop ip l t [] = Some None"
| "validate_loop ip l t (rule # rules) =
     (case peer_rule_applies ip l t rule of
        None \<Rightarrow> None
      | Some True \<Rightarrow> Some (Some (pr_mgmtId rule, pr_drop rule))
      | Some False \<Rightarrow> validate_loop ip l t rules)"

type_synonym rule_order = "RuleSet \<Rightarrow> PeerRule list"

definition validateRule :: "rule_order \<Rightarrow> addr \<Rightarrow> RuleSet option \<Rightarrow> layers \<Rightarrow> (bytes \<times> bool) option option" where
  "validateRule ord ip rules l =
     (case idx (decoded l) 1 of
        None \<Rightarrow> None
      | Some t \<Rightarrow> validate_loop ip l t (case rules of None \<Rightarrow> [] | Some rs \<Rightarrow> ord rs))"

fun special_icmp :: "layers \<Rightarrow> LayerType \<Rightarrow> bool" where
  "special_icmp l LayerTypeICMPv4 =
     (let t = icmp_type (icmp4_TypeCode (icmp4 l)) in t = 3 \<or> t = 11)"
| "special_icmp l LayerTypeICMPv6 =
     (let t = icmp_type (icmp6_TypeCode (icmp6 l)) in t = 1 \<or> t = 2 \<or> t = 3 \<or> t = 4)"
| "special_icmp l _ = False"

definition isSpecialICMP :: "layers \<Rightarrow> bool option" where
  "isSpecialICMP l = map_option (special_icmp l) (idx (decoded l) 1)"

text \<open>The management id of the rule that decided, and whether the packet is blocked.\<close>

definition peerACLsBlock :: "rule_order \<Rightarrow> Manager \<Rightarrow> addr \<Rightarrow> layers \<Rightarrow> (bytes \<times> bool) option" where
  "peerACLsBlock ord m srcIP l =
     (case isSpecialICMP l of
        None \<Rightarrow> None
      | Some True \<Rightarrow> Some ([], False)
      | Some False \<Rightarrow>
          (case validateRule ord srcIP (gget (incomingDenyRules m) srcIP) l of
             None \<Rightarrow> None
           | Some (Some r) \<Rightarrow> Some r
           | Some None \<Rightarrow>
          (case validateRule ord srcIP (gget (incomingRules m) srcIP) l of
             None \<Rightarrow> None
           | Some (Some r) \<Rightarrow> Some r
           | Some None \<Rightarrow>
          (case validateRule ord srcIP (gget (incomingRules m) (Addr4 0)) l of
             None \<Rightarrow> None
           | Some (Some r) \<Rightarrow> Some r
           | Some None \<Rightarrow>
          (case validateRule ord srcIP (gget (incomingRules m) (Addr6 0)) l of
             None \<Rightarrow> None
           | Some (Some r) \<Rightarrow> Some r
           | Some None \<Rightarrow> Some ([], True))))))"

definition ruleMatches :: "RouteRule \<Rightarrow> addr \<Rightarrow> addr \<Rightarrow> LayerType \<Rightarrow> u16 \<Rightarrow> u16 \<Rightarrow> bool option" where
  "ruleMatches rule srcAddr dstAddr proto sp dp =
     (if rr_protoLayer rule \<noteq> layerTypeAll \<and> \<not> protoLayerMatches (rr_protoLayer rule) proto then Some False
      else case (if proto = LayerTypeTCP \<or> proto = LayerTypeUDP
                 then both_ports (srcPort rule) (dstPort rule) (sp, dp) else Some True) of
             None \<Rightarrow> None
           | Some False \<Rightarrow> Some False
           | Some True \<Rightarrow>
               Some (list_ex (\<lambda>d. prefix_contains d dstAddr) (destinations rule) \<and>
                     list_ex (\<lambda>s. prefix_contains s srcAddr) (sources rule)))"

fun route_pass :: "RouteRule list \<Rightarrow> addr \<Rightarrow> addr \<Rightarrow> LayerType \<Rightarrow> u16 \<Rightarrow> u16 \<Rightarrow> (bytes \<times> bool) option" where
  "route_pass [] srcIP dstIP proto sp dp = Some ([], False)"
| "route_pass (rule # rules) srcIP dstIP proto sp dp =
     (case ruleMatches rule srcIP dstIP proto sp dp of
        None \<Rightarrow> None
      | Some True \<Rightarrow> Some (rr_mgmtId rule, action rule = ActionAccept)
      | Some False \<Rightarrow> route_pass rules srcIP dstIP proto sp dp)"

definition routeACLsPass :: "Manager \<Rightarrow> addr \<Rightarrow> addr \<Rightarrow> LayerType \<Rightarrow> u16 \<Rightarrow> u16 \<Rightarrow> (bytes \<times> bool) option" where
  "routeACLsPass m srcIP dstIP proto sp dp = route_pass (routeRules m) srcIP dstIP proto sp dp"

section \<open>Netstack services and forwarding\<close>

fun protocolToLayerType :: "byte \<Rightarrow> LayerType" where
  "protocolToLayerType p =
     (if p = proto_TCP then LayerTypeTCP else if p = proto_UDP then LayerTypeUDP
      else if p = proto_ICMP then LayerTypeICMPv4 else LayerTypeZero)"

definition RegisterNetstackService :: "byte \<Rightarrow> u16 \<Rightarrow> Manager \<Rightarrow> Manager" where
  "RegisterNetstackService proto port m =
     m\<lparr> netstackServices := List.insert (protocolToLayerType proto, port) (netstackServices m) \<rparr>"

definition UnregisterNetstackService :: "byte \<Rightarrow> u16 \<Rightarrow> Manager \<Rightarrow> Manager" where
  "UnregisterNetstackService proto port m =
     m\<lparr> netstackServices := removeAll (protocolToLayerType proto, port) (netstackServices m) \<rparr>"

definition hasMatchingNetstackService :: "Manager \<Rightarrow> layers \<Rightarrow> bool" where
  "hasMatchingNetstackService m l =
     (case idx (decoded l) 1 of
        Some LayerTypeTCP \<Rightarrow> (LayerTypeTCP, tcp_DstPort (tcp l)) \<in> set (netstackServices m)
      | Some LayerTypeUDP \<Rightarrow> (LayerTypeUDP, udp_DstPort (udp l)) \<in> set (netstackServices m)
      | _ \<Rightarrow> False)"

definition shouldForward :: "Manager \<Rightarrow> layers \<Rightarrow> addr \<Rightarrow> bool" where
  "shouldForward m l dstIP =
     (if \<not> localForwarding m then False
      else if netstack m then \<not> hasMatchingNetstackService m l
      else dstIP \<noteq> wg_IP (wgAddress m) \<and> (\<not> is_valid (wg_IPv6 (wgAddress m)) \<or> dstIP \<noteq> wg_IPv6 (wgAddress m)))"

section \<open>Connection tracking\<close>

record penv =
  pe_now :: int
  pe_flow :: uuid
  pe_conns :: "ConnKey list"
  pe_icmps :: "ICMPConnKey list"
  pe_rules :: rule_order
  pe_size :: int

definition conn_key :: "addr \<Rightarrow> addr \<Rightarrow> u16 \<times> u16 \<Rightarrow> ConnKey" where
  "conn_key srcIP dstIP ports = \<lparr> SrcIP = srcIP, DstIP = dstIP, SrcPort = fst ports, DstPort = snd ports \<rparr>"

definition icmp_key :: "addr \<Rightarrow> addr \<Rightarrow> u16 \<Rightarrow> ICMPConnKey" where
  "icmp_key srcIP dstIP i = \<lparr> icmp_src = srcIP, icmp_dst = dstIP, icmp_id = i \<rparr>"

text \<open>The manager and the packet, whose source port the tracker may ask to restore.\<close>

definition trackOutbound :: "penv \<Rightarrow> Manager \<Rightarrow> layers \<Rightarrow> addr \<Rightarrow> addr \<Rightarrow> bytes \<Rightarrow> (Manager \<times> bytes) option" where
  "trackOutbound e m l srcIP dstIP p =
     (case idx (decoded l) 1 of
        None \<Rightarrow> None
      | Some LayerTypeUDP \<Rightarrow>
          (case udpTracker m of
             None \<Rightarrow> None
           | Some t \<Rightarrow>
               (case udp_TrackOutbound (pe_now e) (pe_flow e) (pe_conns e)
                       (conn_key srcIP dstIP (udp_SrcPort (udp l), udp_DstPort (udp l))) (pe_size e) t of
                  None \<Rightarrow> None
                | Some (t', orig) \<Rightarrow>
                    (let m = m\<lparr> udpTracker := Some t' \<rparr>
                     in if orig = 0 then Some (m, p)
                        else map_option (\<lambda>r. (m, case r of Inl _ \<Rightarrow> p | Inr p' \<Rightarrow> p')) (rewriteUDPPort p l orig 0))))
      | Some LayerTypeTCP \<Rightarrow>
          (case tcpTracker m of
             None \<Rightarrow> None
           | Some t \<Rightarrow>
               (case tcp_TrackOutbound (pe_now e) (pe_flow e) (pe_conns e)
                       (conn_key srcIP dstIP (tcp_SrcPort (tcp l), tcp_DstPort (tcp l))) (getTCPFlags (tcp l)) (pe_size e) t of
                  None \<Rightarrow> None
                | Some (t', orig) \<Rightarrow>
                    (let m = m\<lparr> tcpTracker := Some t' \<rparr>
                     in if orig = 0 then Some (m, p)
                        else map_option (\<lambda>r. (m, case r of Inl _ \<Rightarrow> p | Inr p' \<Rightarrow> p')) (rewriteTCPPort p l orig 0))))
      | Some LayerTypeICMPv4 \<Rightarrow>
          (case icmpTracker m of
             None \<Rightarrow> None
           | Some t \<Rightarrow>
               map_option (\<lambda>t'. (m\<lparr> icmpTracker := Some t' \<rparr>, p))
                 (icmp_TrackOutbound (pe_now e) (pe_flow e) (pe_icmps e)
                    (icmp_key srcIP dstIP (icmp4_Id (icmp4 l))) (icmp4_TypeCode (icmp4 l)) (pe_size e) t))
      | Some LayerTypeICMPv6 \<Rightarrow>
          (case icmpTracker m of
             None \<Rightarrow> None
           | Some t \<Rightarrow>
               (let (i, tc) = icmpv6EchoFields l
                in map_option (\<lambda>t'. (m\<lparr> icmpTracker := Some t' \<rparr>, p))
                     (icmp_TrackOutbound (pe_now e) (pe_flow e) (pe_icmps e)
                        (icmp_key srcIP dstIP i) tc (pe_size e) t)))
      | Some _ \<Rightarrow> Some (m, p))"


definition trackInbound :: "penv \<Rightarrow> Manager \<Rightarrow> decoder \<Rightarrow> addr \<Rightarrow> addr \<Rightarrow> bytes \<Rightarrow> (Manager \<times> decoder) option" where
  "trackInbound e m d srcIP dstIP ruleID =
     (let l = lay d; d' = d\<lparr> dnatOrigPort := 0 \<rparr>
      in case idx (decoded l) 1 of
           None \<Rightarrow> None
         | Some LayerTypeUDP \<Rightarrow>
             (case udpTracker m of
                None \<Rightarrow> None
              | Some t \<Rightarrow>
                  map_option (\<lambda>t'. (m\<lparr> udpTracker := Some t' \<rparr>, d'))
                    (udp_TrackInbound (pe_now e) (pe_flow e) (pe_conns e)
                       (conn_key srcIP dstIP (udp_SrcPort (udp l), udp_DstPort (udp l))) ruleID (pe_size e) (dnatOrigPort d) t))
         | Some LayerTypeTCP \<Rightarrow>
             (case tcpTracker m of
                None \<Rightarrow> None
              | Some t \<Rightarrow>
                  map_option (\<lambda>t'. (m\<lparr> tcpTracker := Some t' \<rparr>, d'))
                    (tcp_TrackInbound (pe_now e) (pe_flow e) (pe_conns e)
                       (conn_key srcIP dstIP (tcp_SrcPort (tcp l), tcp_DstPort (tcp l))) (getTCPFlags (tcp l)) ruleID
                       (pe_size e) (dnatOrigPort d) t))
         | Some LayerTypeICMPv4 \<Rightarrow>
             (case icmpTracker m of
                None \<Rightarrow> None
              | Some t \<Rightarrow>
                  map_option (\<lambda>t'. (m\<lparr> icmpTracker := Some t' \<rparr>, d'))
                    (icmp_TrackInbound (pe_now e) (pe_flow e) (pe_icmps e)
                       (icmp_key srcIP dstIP (icmp4_Id (icmp4 l))) (icmp4_TypeCode (icmp4 l)) ruleID (pe_size e) t))
         | Some LayerTypeICMPv6 \<Rightarrow>
             (case icmpTracker m of
                None \<Rightarrow> None
              | Some t \<Rightarrow>
                  (let (i, tc) = icmpv6EchoFields l
                   in map_option (\<lambda>t'. (m\<lparr> icmpTracker := Some t' \<rparr>, d'))
                        (icmp_TrackInbound (pe_now e) (pe_flow e) (pe_icmps e)
                           (icmp_key srcIP dstIP i) tc ruleID (pe_size e) t)))
         | Some _ \<Rightarrow> Some (m, d'))"

definition isValidTrackedConnection ::
    "penv \<Rightarrow> Manager \<Rightarrow> layers \<Rightarrow> addr \<Rightarrow> addr \<Rightarrow> (Manager \<times> bool) option" where
  "isValidTrackedConnection e m l srcIP dstIP =
     (case idx (decoded l) 1 of
        None \<Rightarrow> None
      | Some LayerTypeTCP \<Rightarrow>
          map_option (\<lambda>t. let (t', ok) = tcp_IsValidInbound (pe_now e)
                (conn_key srcIP dstIP (tcp_SrcPort (tcp l), tcp_DstPort (tcp l))) (getTCPFlags (tcp l)) (pe_size e) t
              in (m\<lparr> tcpTracker := Some t' \<rparr>, ok)) (tcpTracker m)
      | Some LayerTypeUDP \<Rightarrow>
          map_option (\<lambda>t. let (t', ok) = udp_IsValidInbound (pe_now e)
                (conn_key srcIP dstIP (udp_SrcPort (udp l), udp_DstPort (udp l))) (pe_size e) t
              in (m\<lparr> udpTracker := Some t' \<rparr>, ok)) (udpTracker m)
      | Some LayerTypeICMPv4 \<Rightarrow>
          map_option (\<lambda>t. let (t', ok) = icmp_IsValidInbound (pe_now e)
                (icmp_key srcIP dstIP (icmp4_Id (icmp4 l))) (icmp_type (icmp4_TypeCode (icmp4 l))) (pe_size e) t
              in (m\<lparr> icmpTracker := Some t' \<rparr>, ok)) (icmpTracker m)
      | Some LayerTypeICMPv6 \<Rightarrow>
          map_option (\<lambda>t. let (t', ok) = icmp_IsValidInbound (pe_now e)
                (icmp_key srcIP dstIP (fst (icmpv6EchoFields l))) (icmp_type (icmp6_TypeCode (icmp6 l))) (pe_size e) t
              in (m\<lparr> icmpTracker := Some t' \<rparr>, ok)) (icmpTracker m)
      | Some _ \<Rightarrow> Some (m, False))"

section \<open>The packet filters\<close>

text \<open>The results: the manager, the decoder, the packet as left in the buffer, and whether it is dropped.\<close>

type_synonym verdict = "(Manager \<times> decoder \<times> bytes \<times> bool) option"

definition filterOutbound :: "parser \<Rightarrow> penv \<Rightarrow> Manager \<Rightarrow> decoder \<Rightarrow> bytes \<Rightarrow> verdict" where
  "filterOutbound P e m d p =
     (let (d, ok) = decodePacket P p d; l = lay d
      in if \<not> ok then Some (m, d, p, False)
         else if length (decoded l) < 2 then Some (m, d, p, False)
         else case extractIPs l of
                None \<Rightarrow> None
              | Some (srcIP, dstIP) \<Rightarrow>
                  if \<not> is_valid srcIP then Some (m, d, p, False)
                  else if decoded l ! 1 = LayerTypeUDP \<and> HookMatches (udpHookOut m) dstIP (udp_DstPort (udp l)) p
                       then Some (m, d, p, True)
                  else if decoded l ! 1 = LayerTypeTCP \<and> HookMatches (tcpHookOut m) dstIP (tcp_DstPort (tcp l)) p
                       then Some (m, d, p, True)
                  else case (if decoded l ! 1 = LayerTypeTCP \<and> mssClampEnabled (mss m)
                             then map_option fst (clampTCPMSS (mss m) p l) else Some p) of
                         None \<Rightarrow> None
                       | Some p \<Rightarrow>
                           (case trackOutbound e m l srcIP dstIP p of
                              None \<Rightarrow> None
                            | Some (m, p) \<Rightarrow>
                                map_option (\<lambda>(p, _). (m, d, p, False)) (translateOutboundDNAT m p l)))"

definition drop_event :: "penv \<Rightarrow> bytes \<Rightarrow> layers \<Rightarrow> addr \<Rightarrow> addr \<Rightarrow> LayerType \<Rightarrow> EventFields" where
  "drop_event e ruleID l srcIP dstIP t =
     \<lparr> FlowID = pe_flow e, EventType = TypeDrop, RuleID = ruleID, ev_dir = Ingress, Protocol = layer_protocol t,
       ev_src = srcIP, ev_dst = dstIP, ev_sport = fst (layer_ports l t), ev_dport = snd (layer_ports l t),
       ev_icmp_type = 0, ev_icmp_code = 0, RxPackets = 1, TxPackets = 0, RxBytes = word_of_int (pe_size e), TxBytes = 0 \<rparr>"

definition handleForwardedLocalTraffic :: "Manager \<Rightarrow> bytes \<Rightarrow> Manager \<times> bool" where
  "handleForwardedLocalTraffic m p =
     (if \<not> forwarder m then (m, True) else (m\<lparr> injected := injected m @ [p] \<rparr>, True))"

definition handleLocalTraffic :: "penv \<Rightarrow> Manager \<Rightarrow> decoder \<Rightarrow> addr \<Rightarrow> addr \<Rightarrow> bytes \<Rightarrow> (Manager \<times> decoder \<times> bool) option" where
  "handleLocalTraffic e m d srcIP dstIP p =
     (let l = lay d
      in case peerACLsBlock (pe_rules e) m srcIP l of
           None \<Rightarrow> None
         | Some (ruleID, True) \<Rightarrow>
             map_option (\<lambda>t. (m\<lparr> dropEvents := dropEvents m @ [drop_event e ruleID l srcIP dstIP t] \<rparr>, d, True))
               (idx (decoded l) 1)
         | Some (ruleID, False) \<Rightarrow>
             if shouldForward m l dstIP
             then (let (m, v) = handleForwardedLocalTraffic m p in Some (m, d, v))
             else map_option (\<lambda>(m, d). (m, d, False)) (trackInbound e m d srcIP dstIP ruleID))"

definition handleRoutedTraffic :: "penv \<Rightarrow> Manager \<Rightarrow> decoder \<Rightarrow> addr \<Rightarrow> addr \<Rightarrow> bytes \<Rightarrow> (Manager \<times> decoder \<times> bool) option" where
  "handleRoutedTraffic e m d srcIP dstIP p =
     (let l = lay d
      in if \<not> routingEnabled m then Some (m, d, True)
         else if nativeRouter m then map_option (\<lambda>(m, d). (m, d, False)) (trackInbound e m d srcIP dstIP [])
         else case idx (decoded l) 1 of
                None \<Rightarrow> None
              | Some t \<Rightarrow>
                  (case routeACLsPass m srcIP dstIP t (fst (layer_ports l t)) (snd (layer_ports l t)) of
                     None \<Rightarrow> None
                   | Some (ruleID, False) \<Rightarrow>
                       Some (m\<lparr> dropEvents := dropEvents m @ [drop_event e ruleID l srcIP dstIP t] \<rparr>, d, True)
                   | Some (ruleID, True) \<Rightarrow>
                       Some (if forwarder m then m\<lparr> injected := injected m @ [p] \<rparr> else m, d, True)))"

text \<open>The steps after address translation, on the current packet.\<close>

definition filter_translated :: "penv \<Rightarrow> Manager \<Rightarrow> decoder \<Rightarrow> addr \<Rightarrow> addr \<Rightarrow> bytes \<Rightarrow> verdict" where
  "filter_translated e m d srcIP dstIP p =
     (case (if stateful m then isValidTrackedConnection e m (lay d) srcIP dstIP else Some (m, False)) of
        None \<Rightarrow> None
      | Some (m, True) \<Rightarrow> Some (m, d, p, False)
      | Some (m, False) \<Rightarrow>
          map_option (\<lambda>(m, d, v). (m, d, p, v))
            (if IsLocalIP (localIPs m) dstIP then handleLocalTraffic e m d srcIP dstIP p
             else handleRoutedTraffic e m d srcIP dstIP p))"

text \<open>Decoding again after a translation: an error drops the packet.\<close>

definition redecode ::
    "parser \<Rightarrow> bool \<Rightarrow> Manager \<Rightarrow> decoder \<Rightarrow> addr \<times> addr \<Rightarrow> bytes \<Rightarrow> (decoder \<Rightarrow> addr \<times> addr \<Rightarrow> verdict) \<Rightarrow> verdict" where
  "redecode P translated m d ips p k =
     (if \<not> translated then k d ips
      else let (d, ok) = decodePacket P p d
           in if \<not> ok then Some (m, d, p, True)
              else case extractIPs (lay d) of None \<Rightarrow> None | Some ips \<Rightarrow> k d ips)"

definition filterInbound :: "parser \<Rightarrow> penv \<Rightarrow> Manager \<Rightarrow> decoder \<Rightarrow> bytes \<Rightarrow> verdict" where
  "filterInbound P e m d p =
     (let (d, valid, fragment) = isValidPacket P p d
      in if \<not> valid then Some (m, d, p, True)
         else case extractIPs (lay d) of
                None \<Rightarrow> None
              | Some (srcIP, dstIP) \<Rightarrow>
                  if \<not> is_valid srcIP then Some (m, d, p, True)
                  else if fragment then Some (m, d, p, False)
                  else case translateInboundPortDNAT m p d srcIP dstIP of
                         None \<Rightarrow> None
                       | Some (p, d, translated) \<Rightarrow>
                           redecode P translated m d (srcIP, dstIP) p (\<lambda>d ips.
                             case translateInboundReverse m p (lay d) of
                               None \<Rightarrow> None
                             | Some (p, translated) \<Rightarrow>
                                 redecode P translated m d ips p
                                   (\<lambda>d (srcIP, dstIP). filter_translated e m d srcIP dstIP p)))"


section \<open>Routing, creation, reset\<close>

text \<open>\<open>strconv.ParseBool\<close> and a boolean environment variable, false when it does not parse.\<close>

definition ParseBool :: "string \<Rightarrow> bool option" where
  "ParseBool s =
     (if s \<in> {''1'', ''t'', ''T'', ''TRUE'', ''true'', ''True''} then Some True
      else if s \<in> {''0'', ''f'', ''F'', ''FALSE'', ''false'', ''False''} then Some False else None)"

definition env_flag :: "(string \<Rightarrow> string) \<Rightarrow> string \<Rightarrow> bool" where
  "env_flag getenv name =
     (let v = getenv name in if v \<noteq> [] then (case ParseBool v of Some b \<Rightarrow> b | None \<Rightarrow> False) else False)"

definition EnvDisableConntrack :: string where "EnvDisableConntrack = ''NB_DISABLE_CONNTRACK''"
definition EnvDisableUserspaceRouting :: string where "EnvDisableUserspaceRouting = ''NB_DISABLE_USERSPACE_ROUTING''"
definition EnvDisableMSSClamping :: string where "EnvDisableMSSClamping = ''NB_DISABLE_MSS_CLAMPING''"
definition EnvForceUserspaceRouter :: string where "EnvForceUserspaceRouter = ''NB_FORCE_USERSPACE_ROUTER''"
definition EnvEnableLocalForwarding :: string where "EnvEnableLocalForwarding = ''NB_ENABLE_LOCAL_FORWARDING''"
definition EnvEnableNetstackLocalForwarding :: string where
  "EnvEnableNetstackLocalForwarding = ''NB_ENABLE_NETSTACK_LOCAL_FORWARDING''"

definition parseCreateEnv :: "(string \<Rightarrow> string) \<Rightarrow> bool \<times> bool \<times> bool" where
  "parseCreateEnv getenv =
     (env_flag getenv EnvDisableConntrack,
      if getenv EnvEnableNetstackLocalForwarding \<noteq> [] then env_flag getenv EnvEnableNetstackLocalForwarding
      else env_flag getenv EnvEnableLocalForwarding,
      env_flag getenv EnvDisableMSSClamping)"

text \<open>The platform: the environment, whether there is a WireGuard device, whether a forwarder can be made.\<close>

record platform =
  getenv :: "string \<Rightarrow> string"
  wgDevice :: bool
  forwarderNew :: "string option"

text \<open>The manager and the error, if any.\<close>

definition initForwarder :: "platform \<Rightarrow> Manager \<Rightarrow> Manager \<times> fw_err option" where
  "initForwarder pf m =
     (if forwarder m then (m, None)
      else if \<not> wgDevice pf then (m\<lparr> routingEnabled := False \<rparr>, Some NotSupported)
      else case forwarderNew pf of
             Some e \<Rightarrow> (m\<lparr> routingEnabled := False \<rparr>, Some (ForwarderErr e))
           | None \<Rightarrow> (m\<lparr> forwarder := True \<rparr>, None))"

definition determineRouting :: "platform \<Rightarrow> Manager \<Rightarrow> Manager \<times> fw_err option" where
  "determineRouting pf m =
     (let disableUspRouting = env_flag (getenv pf) EnvDisableUserspaceRouting;
          forceUserspaceRouter = env_flag (getenv pf) EnvForceUserspaceRouter;
          m = (if disableUspRouting then m\<lparr> routingEnabled := False, nativeRouter := False \<rparr>
               else if disableServerRoutes m then m\<lparr> routingEnabled := True, nativeRouter := True \<rparr>
               else if forceUserspaceRouter then m\<lparr> routingEnabled := True, nativeRouter := False \<rparr>
               else if \<not> netstack m \<and> nativeFirewall m then m\<lparr> routingEnabled := True, nativeRouter := True \<rparr>
               else m\<lparr> routingEnabled := True, nativeRouter := False \<rparr>)
      in if routingEnabled m \<and> \<not> nativeRouter m then initForwarder pf m else (m, None))"

definition any_prefix :: "addr \<Rightarrow> prefix" where "any_prefix a = \<lparr> pfx_addr = a, pfx_bits = 0 \<rparr>"

definition prefix_network :: "prefix \<Rightarrow> Network" where "prefix_network p = \<lparr> net_Set = zero_set, net_Prefix = p \<rparr>"

text \<open>
  The identifiers of the installed block rules. A call handed to the native firewall installs a rule
  there: its identifier is the argument \<open>native\<close> (\<open>Inl\<close> an error).
\<close>

definition block_rule ::
    "(string \<Rightarrow> string) \<Rightarrow> (prefix \<Rightarrow> fw_err + string) \<Rightarrow> prefix list \<Rightarrow> prefix \<Rightarrow> Manager \<Rightarrow> fw_err + (Manager \<times> string)" where
  "block_rule sha256hex native srcs dst m =
     (case addRouteFiltering sha256hex [] srcs (prefix_network dst) ProtocolALL None None ActionDrop m of
        ToNative \<Rightarrow> map_sum id (\<lambda>i. (m, i)) (native dst)
      | Here (m, r) \<Rightarrow> Inr (m, rr_id r))"

definition blockInvalidRouted ::
    "(string \<Rightarrow> string) \<Rightarrow> (prefix \<Rightarrow> fw_err + string) \<Rightarrow> Manager \<Rightarrow> Manager \<times> string list \<times> fw_err option" where
  "blockInvalidRouted sha256hex native m =
     (let v6Net = wg_IPv6Net (wgAddress m);
          srcs = any_prefix (Addr4 0) # (if prefix_valid v6Net then [any_prefix (Addr6 0)] else [])
      in case block_rule sha256hex native srcs (wg_Network (wgAddress m)) m of
           Inl e \<Rightarrow> (m, [], Some e)
         | Inr (m, i4) \<Rightarrow>
             if prefix_valid v6Net
             then (case block_rule sha256hex native (SortPrefixes srcs) v6Net m of
                     Inl e \<Rightarrow> (m, [i4], Some e)
                   | Inr (m, i6) \<Rightarrow> (m, [i4, i6], None))
             else (m, [i4], None))"

definition EnableRouting ::
    "(string \<Rightarrow> string) \<Rightarrow> (prefix \<Rightarrow> fw_err + string) \<Rightarrow> platform \<Rightarrow> Manager \<Rightarrow> Manager \<times> fw_err option" where
  "EnableRouting sha256hex native pf m =
     (case determineRouting pf m of
        (m, Some e) \<Rightarrow> (m, Some e)
      | (m, None) \<Rightarrow>
          if \<not> forwarder m then (m, None)
          else let (m, rules, e) = blockInvalidRouted sha256hex native m
               in (m\<lparr> blockRules := rules \<rparr>, e))"

fun delete_block_rules :: "string list \<Rightarrow> Manager \<Rightarrow> Manager \<times> fw_err list" where
  "delete_block_rules [] m = (m, [])"
| "delete_block_rules (r # rs) m =
     (case deleteRouteRule r m of
        ToNative \<Rightarrow> delete_block_rules rs m
      | Here (Inr m) \<Rightarrow> delete_block_rules rs m
      | Here (Inl e) \<Rightarrow> (let (m, es) = delete_block_rules rs m in (m, e # es)))"

definition DisableRouting :: "Manager \<Rightarrow> Manager \<times> fw_err list" where
  "DisableRouting m =
     (if \<not> forwarder m then (m, [])
      else let (m, es) = delete_block_rules (blockRules m) (m\<lparr> routingEnabled := False, nativeRouter := False \<rparr>);
               m = m\<lparr> blockRules := [] \<rparr>
           in if netstack m \<and> localForwarding m then (m, es) else (m\<lparr> forwarder := False \<rparr>, es))"

definition mss_values :: "bool \<Rightarrow> u16 \<Rightarrow> mss_config" where
  "mss_values disabled mtu =
     (if disabled then \<lparr> mssClampValueIPv4 = 0, mssClampValueIPv6 = 0, mssClampEnabled = False \<rparr>
      else \<lparr> mssClampValueIPv4 = (if mtu > 40 then mtu - 40 else 0),
             mssClampValueIPv6 = (if mtu > 60 then mtu - 60 else 0), mssClampEnabled = True \<rparr>)"

definition create ::
    "platform \<Rightarrow> wg_address \<Rightarrow> bytes list option list option \<Rightarrow> bool \<Rightarrow> bool \<Rightarrow> bool \<Rightarrow> u16 \<Rightarrow>
     udp_tracker \<Rightarrow> icmp_tracker \<Rightarrow> tcp_tracker \<Rightarrow> Manager" where
  "create pf wg interfaces native disableServer netst mtu ut it tt =
     (let (disableConntrack, enableLocalForwarding, disableMSSClamping) = parseCreateEnv (getenv pf);
          m = \<lparr> localIPs = UpdateLocalIPs (Some wg) interfaces, dnatEnabled = False, dnatMappings = [], dnatBiMap = None,
                portDNATEnabled = False, portDNATRules = [], incomingDenyRules = [], incomingRules = [],
                routeRules = [], routeRulesMap = [], wgAddress = wg, nativeFirewall = native,
                disableServerRoutes = disableServer, routingEnabled = False, nativeRouter = False,
                stateful = \<not> disableConntrack, netstack = netst, localForwarding = enableLocalForwarding,
                udpTracker = (if disableConntrack then None else Some ut),
                icmpTracker = (if disableConntrack then None else Some it),
                tcpTracker = (if disableConntrack then None else Some tt),
                forwarder = False, blockRules = [], netstackServices = [], mss = mss_values disableMSSClamping mtu,
                udpHookOut = None, tcpHookOut = None, injected = [], dropEvents = [] \<rparr>
      in if netstack m \<and> localForwarding m then fst (initForwarder pf m) else m)"

definition resetState :: "Manager \<Rightarrow> Manager" where
  "resetState m =
     m\<lparr> incomingDenyRules := [], incomingRules := [], routeRulesMap := [], routeRules := [],
        udpHookOut := None, tcpHookOut := None,
        udpTracker := map_option udp_Close (udpTracker m),
        icmpTracker := map_option icmp_Close (icmpTracker m),
        tcpTracker := map_option tcp_Close (tcpTracker m) \<rparr>"

text \<open>\<open>Manager.UpdateLocalIPs\<close>: the local addresses are read again, from the interfaces there are now.\<close>

definition Manager_UpdateLocalIPs :: "bytes list option list option \<Rightarrow> Manager \<Rightarrow> Manager" where
  "Manager_UpdateLocalIPs interfaces m = m\<lparr> localIPs := UpdateLocalIPs (Some (wgAddress m)) interfaces \<rparr>"

definition SetUDPPacketHook :: "addr \<Rightarrow> u16 \<Rightarrow> (bytes \<Rightarrow> bool) option \<Rightarrow> Manager \<Rightarrow> Manager" where
  "SetUDPPacketHook ip dport hook m = m\<lparr> udpHookOut := SetHook ip dport hook \<rparr>"

definition SetTCPPacketHook :: "addr \<Rightarrow> u16 \<Rightarrow> (bytes \<Rightarrow> bool) option \<Rightarrow> Manager \<Rightarrow> Manager" where
  "SetTCPPacketHook ip dport hook m = m\<lparr> tcpHookOut := SetHook ip dport hook \<rparr>"

end
