(* ===== verification/UspRules.thy ===== *)
theory UspRules
  imports UspFilter
begin

text \<open>
  The rule tables of the userspace firewall: the invariant that the rule operations keep, and what the
  two access decisions compute. The ordered list of route rules refines a deny-overrides decision on
  the set of installed rules; the peer rules are decided independently of the order in which Go
  iterates over its maps.
\<close>

section \<open>The sort\<close>

lemma set_insert_stable [simp]: "set (insert_stable lt x ys) = insert x (set ys)"
  by (induction ys) auto

lemma foldl_insert_stable_set: "set (foldl (\<lambda>acc x. insert_stable lt x acc) acc xs) = set acc \<union> set xs"
  by (induction xs arbitrary: acc) auto

lemma set_sort_stable [simp]: "set (sort_stable lt xs) = set xs"
  by (simp add: sort_stable_def foldl_insert_stable_set)

definition rank :: "RouteRule \<Rightarrow> nat" where "rank r = (if action r = ActionDrop then 0 else 1)"

definition deny_first :: "RouteRule list \<Rightarrow> bool" where
  "deny_first rs = sorted (map rank rs)"

lemma rule_less_rank: "rule_less a b \<Longrightarrow> rank a \<le> rank b" "\<not> rule_less a b \<Longrightarrow> rank b \<le> rank a"
  by (auto simp: rule_less_def rank_def split: if_splits)

lemma deny_first_insert: "deny_first rs \<Longrightarrow> deny_first (insert_stable rule_less r rs)"
  unfolding deny_first_def
proof (induction rs)
  case (Cons a rs)
  then show ?case
    using rule_less_rank [of r a] by (cases "rule_less r a") (auto dest: order_trans)
qed simp

lemma deny_first_sort: "deny_first (RouteRules_Sort rs)"
proof -
  have "deny_first (foldl (\<lambda>acc x. insert_stable rule_less x acc) acc xs)" if "deny_first acc" for acc xs
    using that by (induction xs arbitrary: acc) (auto intro: deny_first_insert)
  then show ?thesis by (simp add: RouteRules_Sort_def sort_stable_def deny_first_def)
qed

lemma distinct_insert_stable: "distinct (map f (insert_stable lt x ys)) \<longleftrightarrow> distinct (map f (x # ys))"
  by (induction ys) auto

lemma distinct_sort_stable: "distinct (map f (sort_stable lt xs)) \<longleftrightarrow> distinct (map f xs)"
proof -
  have "distinct (map f (foldl (\<lambda>acc x. insert_stable lt x acc) acc xs)) \<longleftrightarrow> distinct (map f (acc @ xs))" for acc
  proof (induction xs arbitrary: acc)
    case (Cons x xs)
    then show ?case by (auto simp: distinct_insert_stable)
  qed simp
  then show ?thesis by (simp add: sort_stable_def)
qed

section \<open>Ports\<close>

definition port_ok :: "FwPort option \<Rightarrow> bool" where
  "port_ok p = (case p of None \<Rightarrow> True | Some p \<Rightarrow> IsRange p \<longrightarrow> 2 \<le> length (Values p))"

lemma portsMatch_Some: "port_ok p \<Longrightarrow> portsMatch p x \<noteq> None"
  by (auto simp: port_ok_def portsMatch_def idx_def split: option.splits)

lemma both_ports_Some: "port_ok sp \<Longrightarrow> port_ok dp \<Longrightarrow> both_ports sp dp ports \<noteq> None"
  using portsMatch_Some by (auto simp: both_ports_def split: option.splits bool.splits)

lemma NewPort_ok: "NewPort ports = Inr p \<Longrightarrow> port_ok (Some p)"
  by (auto simp: NewPort_def port_ok_def split: if_splits option.splits)

section \<open>The invariant\<close>

definition rule_ok :: "RouteRule \<Rightarrow> bool" where
  "rule_ok r = (port_ok (srcPort r) \<and> port_ok (dstPort r) \<and> (action r = ActionAccept \<or> action r = ActionDrop))"

definition route_inv :: "Manager \<Rightarrow> bool" where
  "route_inv m \<longleftrightarrow>
     deny_first (routeRules m) \<and> distinct (map rr_id (routeRules m)) \<and>
     (\<forall>k r. gget (routeRulesMap m) k = Some r \<longleftrightarrow> r \<in> set (routeRules m) \<and> rr_id r = k) \<and>
     (\<forall>r\<in>set (routeRules m). rule_ok r)"

definition peer_rule_ok :: "bool \<Rightarrow> addr \<Rightarrow> string \<Rightarrow> PeerRule \<Rightarrow> bool" where
  "peer_rule_ok deny ip k r \<longleftrightarrow>
     pr_id r = k \<and> pr_ip r = ip \<and> pr_drop r = deny \<and> (matchByIP r \<longleftrightarrow> ip \<noteq> Addr4 0 \<and> ip \<noteq> Addr6 0) \<and>
     port_ok (sPort r) \<and> port_ok (dPort r)"

definition ruleset_inv :: "bool \<Rightarrow> addr \<Rightarrow> RuleSet \<Rightarrow> bool" where
  "ruleset_inv deny ip rs \<longleftrightarrow> rs \<noteq> [] \<and> gwf rs \<and> (\<forall>k r. gget rs k = Some r \<longrightarrow> peer_rule_ok deny ip k r)"

definition table_inv :: "bool \<Rightarrow> (addr, RuleSet) gmap \<Rightarrow> bool" where
  "table_inv deny t \<longleftrightarrow> (\<forall>ip rs. gget t ip = Some rs \<longrightarrow> ruleset_inv deny ip rs)"

definition rules_inv :: "Manager \<Rightarrow> bool" where
  "rules_inv m \<longleftrightarrow> route_inv m \<and> table_inv True (incomingDenyRules m) \<and> table_inv False (incomingRules m)"

lemma route_inv_add:
  assumes "route_inv m" "addRouteFiltering h mgmt srcs dst proto sp dp act m = Here (m', r)"
    "port_ok sp" "port_ok dp" "act = ActionAccept \<or> act = ActionDrop"
  shows "route_inv m' \<and> r \<in> set (routeRules m')"
proof -
  obtain k srcs' where key: "GenerateRouteRuleKey h srcs dst proto sp dp act = (k, srcs')" by (cases "GenerateRouteRuleKey h srcs dst proto sp dp act")
  show ?thesis
  proof (cases "gget (routeRulesMap m) k")
    case (Some r0)
    then have "m' = m \<and> r = r0"
      using assms(2) key by (auto simp: addRouteFiltering_def Let_def split: if_splits)
    then show ?thesis using Some assms(1) by (auto simp: route_inv_def)
  next
    case None
    let ?rs = "RouteRules_Sort (routeRules m @ [r])"
    from None assms(2) key have m': "m' = m\<lparr> routeRules := ?rs, routeRulesMap := gput k r (routeRulesMap m) \<rparr>"
      and r: "rr_id r = k" "srcPort r = sp" "dstPort r = dp" "action r = act"
      by (auto simp: addRouteFiltering_def Let_def split: if_splits)
    have fresh: "\<forall>x\<in>set (routeRules m). rr_id x \<noteq> k"
      using None assms(1) by (metis (no_types, lifting) option.distinct(1) route_inv_def)
    have "distinct (map rr_id ?rs)"
      using fresh assms(1) r by (auto simp: RouteRules_Sort_def distinct_sort_stable route_inv_def)
    moreover have set: "set ?rs = insert r (set (routeRules m))" by (simp add: RouteRules_Sort_def)
    moreover have "gget (routeRulesMap m') j = Some x \<longleftrightarrow> x \<in> set ?rs \<and> rr_id x = j" for j x
      using assms(1) fresh r(1) unfolding set by (simp add: m' route_inv_def) metis
    moreover have "rule_ok r" using assms(3-5) r by (simp add: rule_ok_def)
    ultimately show ?thesis using assms(1) deny_first_sort by (simp add: m' route_inv_def)
  qed
qed

lemma index_where_Some: "index_where P xs = Some i \<Longrightarrow> i < length xs \<and> P (xs ! i)"
  by (induction xs arbitrary: i) (auto split: if_splits)

lemma index_where_None: "index_where P xs = None \<longleftrightarrow> (\<forall>x\<in>set xs. \<not> P x)"
  by (induction xs) auto

lemma route_inv_remove:
  assumes "route_inv m" "routeRules m = xs @ r # ys"
  shows "route_inv (m\<lparr> routeRules := xs @ ys, routeRulesMap := gdel (rr_id r) (routeRulesMap m) \<rparr>)"
    and "set (xs @ ys) = {x \<in> set (routeRules m). rr_id x \<noteq> rr_id r}"
    and "gget (routeRulesMap m) (rr_id r) = Some r"
proof -
  have "distinct (map rr_id (xs @ r # ys))" "sorted (map rank (xs @ r # ys))"
    and all: "\<forall>r\<in>set (routeRules m). rule_ok r"
    and eq: "gget (routeRulesMap m) k = Some x \<longleftrightarrow> x \<in> set (routeRules m) \<and> rr_id x = k" for k x
    using assms unfolding route_inv_def deny_first_def by (metis, metis, metis, metis)
  then have d: "distinct (map rr_id (xs @ ys))" "sorted (map rank (xs @ ys))" and "\<forall>x\<in>set (xs @ ys). rr_id x \<noteq> rr_id r"
    by (auto simp: sorted_append image_iff)
  then show rest: "set (xs @ ys) = {x \<in> set (routeRules m). rr_id x \<noteq> rr_id r}"
    unfolding assms(2) by auto
  show "gget (routeRulesMap m) (rr_id r) = Some r" unfolding eq by (simp add: assms(2))
  show "route_inv (m\<lparr> routeRules := xs @ ys, routeRulesMap := gdel (rr_id r) (routeRulesMap m) \<rparr>)"
    unfolding route_inv_def deny_first_def using d all by (simp del: set_append map_append add: rest eq) blast
qed

lemma route_inv_delete:
  assumes "route_inv m" "\<not> delegates m"
  shows "(\<exists>m'. deleteRouteRule k m = Here (Inr m') \<and> route_inv m' \<and>
      k \<in> rr_id ` set (routeRules m) \<and> set (routeRules m') = {r \<in> set (routeRules m). rr_id r \<noteq> k}) \<or>
    deleteRouteRule k m = Here (Inl RuleNotFound) \<and> k \<notin> rr_id ` set (routeRules m)"
proof (cases "index_where (\<lambda>r. rr_id r = k) (routeRules m)")
  case None
  then have "k \<notin> rr_id ` set (routeRules m)" by (auto simp: index_where_None)
  moreover from this have "gget (routeRulesMap m) k = None"
    using assms(1) by (cases "gget (routeRulesMap m) k") (auto simp: route_inv_def)
  ultimately show ?thesis using assms(2) by (simp add: deleteRouteRule_def)
next
  case (Some i)
  then have i: "i < length (routeRules m)" "rr_id (routeRules m ! i) = k" using index_where_Some by fast+
  have split: "routeRules m = take i (routeRules m) @ routeRules m ! i # drop (i + 1) (routeRules m)"
    using i(1) by (simp add: id_take_nth_drop)
  note rem = route_inv_remove [OF assms(1) split]
  have "deleteRouteRule k m = Here (Inr (m\<lparr> routeRules := take i (routeRules m) @ drop (i + 1) (routeRules m),
      routeRulesMap := gdel k (routeRulesMap m) \<rparr>))"
    using assms(2) Some i(2) rem(3) by (simp add: deleteRouteRule_def)
  moreover have "k \<in> rr_id ` set (routeRules m)" using i by force
  ultimately show ?thesis using rem(1,2) i(2) by simp
qed

lemma route_inv_UpdateSet:
  assumes "route_inv m" "UpdateSet s ps m = Here (Inr m')"
  shows "route_inv m'"
proof -
  from assms(2) obtain ds where m': "m' = m\<lparr> routeRules := map (\<lambda>r. if dstSet r = s then r\<lparr> destinations := ds \<rparr> else r) (routeRules m),
      routeRulesMap := map (\<lambda>(k, r). (k, if dstSet r = s then r\<lparr> destinations := ds \<rparr> else r)) (routeRulesMap m) \<rparr>"
    by (auto simp: UpdateSet_def Let_def split: if_splits list.splits)
  define f :: "RouteRule \<Rightarrow> RouteRule" where "f = (\<lambda>r. if dstSet r = s then r\<lparr> destinations := ds \<rparr> else r)"
  have m'': "m' = m\<lparr> routeRules := map f (routeRules m), routeRulesMap := map (\<lambda>(k, r). (k, f r)) (routeRulesMap m) \<rparr>"
    unfolding m' f_def ..
  have f: "rr_id (f r) = rr_id r" "rank (f r) = rank r" "rule_ok (f r) = rule_ok r" for r :: RouteRule
    by (auto simp: f_def rank_def rule_ok_def)
  then have comp: "map rr_id (map f rs) = map rr_id rs" "map rank (map f rs) = map rank rs" for rs by auto
  have "gget (map (\<lambda>(k, r). (k, f r)) (routeRulesMap m)) k = Some r \<longleftrightarrow> r \<in> f ` set (routeRules m) \<and> rr_id r = k" for k r
    using assms(1) f(1) by (auto simp: map_of_map route_inv_def)
  then show ?thesis
    using assms(1) f(3) unfolding m''
    by (simp add: route_inv_def deny_first_def comp del: map_map)
qed

section \<open>Peer rules\<close>

lemma ruleset_inv_put:
  assumes "rs = [] \<or> ruleset_inv deny i rs" "peer_rule_ok deny i k r"
  shows "ruleset_inv deny i (gput k r rs)"
proof -
  have "gget (gput k r rs) k = Some r" by simp
  then have "gput k r rs \<noteq> []" by (metis map_of.simps(1) option.distinct(1))
  with assms show ?thesis unfolding ruleset_inv_def by (metis gget_gput gwf_gput distinct.simps(1) list.simps(8) map_of.simps(1) option.inject option.distinct(1))
qed

lemma ruleset_inv_del: "ruleset_inv deny i rs \<Longrightarrow> gdel k rs \<noteq> [] \<Longrightarrow> ruleset_inv deny i (gdel k rs)"
  unfolding ruleset_inv_def by auto

lemma table_inv_add:
  assumes "table_inv deny t" "peer_rule_ok deny i k r"
  shows "table_inv deny (gput i (gput k r (case gget t i of Some rs \<Rightarrow> rs | None \<Rightarrow> [])) t)"
  using assms ruleset_inv_put unfolding table_inv_def by (intro gmap_all_gput) (auto split: option.splits)

lemma table_inv_delete:
  assumes "table_inv deny t" "delete_peer_rule r t = Inr t'"
  shows "table_inv deny t'"
  using assms ruleset_inv_del unfolding table_inv_def
  by (auto simp: delete_peer_rule_def Let_def split: option.splits if_splits)

lemma AddPeerFiltering_cases:
  assumes "AddPeerFiltering uuid mgmt ip proto sp dp act m = Inr (m', r)"
  obtains i where "addr_from_slice ip = Some i" "pr_ip r = unmap i" "pr_id r = uuid" "sPort r = sp" "dPort r = dp"
    "pr_drop r = (act = ActionDrop)" "matchByIP r \<longleftrightarrow> unmap i \<noteq> Addr4 0 \<and> unmap i \<noteq> Addr6 0"
    "m' = (let add = (\<lambda>t. gput (unmap i) (gput uuid r (case gget t (unmap i) of Some rs \<Rightarrow> rs | None \<Rightarrow> [])) t)
           in if act = ActionDrop then m\<lparr> incomingDenyRules := add (incomingDenyRules m) \<rparr>
              else m\<lparr> incomingRules := add (incomingRules m) \<rparr>)"
proof (cases "addr_from_slice ip")
  case None
  then show ?thesis using assms by (simp add: AddPeerFiltering_def)
next
  case (Some i)
  show ?thesis
    by (rule that [of i]) (use Some assms unspecified_String [of "unmap i"] in
        \<open>auto simp: AddPeerFiltering_def Let_def simp del: addr_String.simps\<close>)
qed

lemma rules_inv_AddPeer:
  assumes "rules_inv m" "AddPeerFiltering uuid mgmt ip proto sp dp act m = Inr (m', r)" "port_ok sp" "port_ok dp"
  shows "rules_inv m'"
  using assms(2)
proof (cases rule: AddPeerFiltering_cases)
  case (1 i)
  then have "peer_rule_ok (act = ActionDrop) (unmap i) uuid r" using assms(3,4) by (simp add: peer_rule_ok_def)
  then show ?thesis
    using assms(1) unfolding 1(8) Let_def rules_inv_def
    by (cases "act = ActionDrop") (simp_all add: route_inv_def table_inv_add)
qed

lemma rules_inv_DeletePeer:
  assumes "rules_inv m" "DeletePeerRule r m = Inr m'"
  shows "rules_inv m'"
  using assms
  by (auto simp: rules_inv_def route_inv_def DeletePeerRule_def map_sum_Inr_iff table_inv_delete split: if_splits)

lemma rules_inv_cong:
  assumes "routeRules m' = routeRules m" "routeRulesMap m' = routeRulesMap m"
    "incomingDenyRules m' = incomingDenyRules m" "incomingRules m' = incomingRules m"
  shows "rules_inv m' = rules_inv m" "route_inv m' = route_inv m"
  using assms by (auto simp: rules_inv_def route_inv_def)

section \<open>Routing\<close>

lemma add_keeps_tables:
  "addRouteFiltering h mgmt srcs dst proto sp dp act m = Here (m', r) \<Longrightarrow>
   incomingDenyRules m' = incomingDenyRules m \<and> incomingRules m' = incomingRules m"
  by (auto simp: addRouteFiltering_def Let_def split: if_splits option.splits prod.splits)

lemma delete_keeps_tables:
  "deleteRouteRule k m = Here (Inr m') \<Longrightarrow>
   incomingDenyRules m' = incomingDenyRules m \<and> incomingRules m' = incomingRules m"
  by (auto simp: deleteRouteRule_def split: if_splits option.splits)

lemma rules_inv_add:
  assumes "rules_inv m" "addRouteFiltering h mgmt srcs dst proto sp dp act m = Here (m', r)"
    "port_ok sp" "port_ok dp" "act = ActionAccept \<or> act = ActionDrop"
  shows "rules_inv m'"
  using assms route_inv_add add_keeps_tables unfolding rules_inv_def by metis

lemma rules_inv_delete:
  assumes "rules_inv m" "deleteRouteRule k m = Here (Inr m')"
  shows "rules_inv m'"
proof -
  have "\<not> delegates m" using assms(2) by (auto simp: deleteRouteRule_def)
  then show ?thesis using assms route_inv_delete [of m k] delete_keeps_tables [of k m m'] by (auto simp: rules_inv_def)
qed

lemma rules_inv_UpdateSet:
  assumes "rules_inv m" "UpdateSet s ps m = Here (Inr m')"
  shows "rules_inv m'"
proof -
  have "incomingDenyRules m' = incomingDenyRules m \<and> incomingRules m' = incomingRules m"
    using assms(2) by (auto simp: UpdateSet_def Let_def split: if_splits list.splits)
  then show ?thesis using assms route_inv_UpdateSet by (auto simp: rules_inv_def)
qed

lemma rules_inv_block_rule:
  assumes "rules_inv m" "block_rule h native srcs dst m = Inr (m', i)"
  shows "rules_inv m'"
proof (cases "addRouteFiltering h [] srcs (prefix_network dst) ProtocolALL None None ActionDrop m")
  case ToNative
  then show ?thesis using assms by (simp add: block_rule_def map_sum_Inr_iff)
next
  case (Here x)
  obtain m1 r where x: "x = (m1, r)" by (cases x)
  then have "rules_inv m1" using Here rules_inv_add [OF assms(1)] by (simp add: port_ok_def)
  then show ?thesis using assms(2) Here x by (simp add: block_rule_def)
qed

lemma rules_inv_blockInvalidRouted:
  "rules_inv m \<Longrightarrow> blockInvalidRouted h native m = (m', ids, e) \<Longrightarrow> rules_inv m'"
  by (auto simp: blockInvalidRouted_def Let_def split: sum.splits if_splits) (metis rules_inv_block_rule)+

lemma determineRouting_tables:
  "determineRouting pf m = (m', e) \<Longrightarrow>
   routeRules m' = routeRules m \<and> routeRulesMap m' = routeRulesMap m \<and>
   incomingDenyRules m' = incomingDenyRules m \<and> incomingRules m' = incomingRules m \<and> wgAddress m' = wgAddress m"
  by (auto simp: determineRouting_def initForwarder_def Let_def split: if_splits option.splits)

lemma rules_inv_EnableRouting:
  assumes "rules_inv m" "EnableRouting h native pf m = (m', e)"
  shows "rules_inv m'"
proof -
  obtain m1 e1 where det: "determineRouting pf m = (m1, e1)" by (cases "determineRouting pf m")
  have "rules_inv m1"
    using assms(1) determineRouting_tables [OF det] rules_inv_cong [of m1 m] by simp
  moreover obtain m2 ids e2 where blk: "blockInvalidRouted h native m1 = (m2, ids, e2)"
    by (cases "blockInvalidRouted h native m1")
  ultimately have "rules_inv m2" by (rule rules_inv_blockInvalidRouted)
  then have "rules_inv (m2\<lparr> blockRules := ids \<rparr>)" by (subst rules_inv_cong [of _ m2]) simp_all
  with \<open>rules_inv m1\<close> show ?thesis
    using assms(2) det blk by (auto simp: EnableRouting_def split: option.splits if_splits)
qed

lemma rules_inv_delete_block: "rules_inv m \<Longrightarrow> rules_inv (fst (delete_block_rules rs m))"
proof (induction rs arbitrary: m)
  case (Cons r rs)
  show ?case
  proof (cases "deleteRouteRule r m")
    case (Here x)
    then show ?thesis using Cons rules_inv_delete [of m r] by (cases x) (auto simp: case_prod_beta Let_def)
  qed (use Cons in simp)
qed simp

lemma rules_inv_DisableRouting:
  assumes "rules_inv m" "DisableRouting m = (m', es)"
  shows "rules_inv m'"
proof (cases "forwarder m")
  case True
  let ?m = "m\<lparr> routingEnabled := False, nativeRouter := False \<rparr>"
  obtain m1 es1 where del: "delete_block_rules (blockRules m) ?m = (m1, es1)"
    by (cases "delete_block_rules (blockRules m) ?m")
  have "rules_inv ?m" using assms(1) by (subst rules_inv_cong [of _ m]) simp_all
  then have "rules_inv m1" using rules_inv_delete_block [of ?m "blockRules m"] del by simp
  then show ?thesis
    using assms(2) True del rules_inv_cong [of m' m1] by (auto simp: DisableRouting_def Let_def split: if_splits)
qed (use assms in \<open>simp add: DisableRouting_def\<close>)

section \<open>What the decisions compute\<close>

definition port_in :: "FwPort option \<Rightarrow> u16 \<Rightarrow> bool" where
  "port_in p x =
     (case p of None \<Rightarrow> True
      | Some p \<Rightarrow> if IsRange p then Values p ! 0 \<le> x \<and> x \<le> Values p ! 1 else x \<in> set (Values p))"

definition layer_in :: "LayerType \<Rightarrow> LayerType \<Rightarrow> bool" where
  "layer_in ruleLayer t = (ruleLayer = layerTypeAll \<or> protoLayerMatches ruleLayer t)"

definition has_ports :: "LayerType \<Rightarrow> bool" where
  "has_ports t = (t = LayerTypeTCP \<or> t = LayerTypeUDP)"

text \<open>A route rule covers a packet: protocol, ports, destination and source.\<close>

definition route_covers :: "RouteRule \<Rightarrow> addr \<Rightarrow> addr \<Rightarrow> LayerType \<Rightarrow> u16 \<Rightarrow> u16 \<Rightarrow> bool" where
  "route_covers r src dst t sp dp =
     (layer_in (rr_protoLayer r) t \<and> (has_ports t \<longrightarrow> port_in (srcPort r) sp \<and> port_in (dstPort r) dp) \<and>
      (\<exists>d\<in>set (destinations r). prefix_contains d dst) \<and> (\<exists>s\<in>set (sources r). prefix_contains s src))"

text \<open>A peer rule covers a packet: source address, protocol, ports. Rules with a protocol other than
  TCP, UDP and ICMP cover nothing.\<close>

definition peer_covers :: "PeerRule \<Rightarrow> addr \<Rightarrow> layers \<Rightarrow> LayerType \<Rightarrow> bool" where
  "peer_covers r src l t =
     ((matchByIP r \<longrightarrow> pr_ip r = src) \<and>
      (protoLayer r = layerTypeAll \<or>
       protoLayerMatches (protoLayer r) t \<and>
       (if has_ports t then port_in (sPort r) (fst (layer_ports l t)) \<and> port_in (dPort r) (snd (layer_ports l t))
        else t = LayerTypeICMPv4 \<or> t = LayerTypeICMPv6)))"

definition installed :: "(addr, RuleSet) gmap \<Rightarrow> PeerRule set" where
  "installed t = {r. \<exists>ip rs k. gget t ip = Some rs \<and> gget rs k = Some r}"

lemma portsMatch_eq: "port_ok p \<Longrightarrow> portsMatch p x = Some (port_in p x)"
  by (auto simp: port_ok_def portsMatch_def port_in_def idx_def split: option.splits)

lemma both_ports_eq:
  "port_ok sp \<Longrightarrow> port_ok dp \<Longrightarrow> both_ports sp dp ports = Some (port_in sp (fst ports) \<and> port_in dp (snd ports))"
  by (auto simp: both_ports_def portsMatch_eq split: bool.splits)

lemma ruleMatches_eq: "rule_ok r \<Longrightarrow> ruleMatches r src dst t sp dp = Some (route_covers r src dst t sp dp)"
  by (auto simp: ruleMatches_def route_covers_def rule_ok_def both_ports_eq layer_in_def has_ports_def list_ex_iff
      split: bool.splits)

lemma peer_rule_applies_eq:
  "peer_rule_ok deny ip k r \<Longrightarrow> peer_rule_applies src l t r = Some (peer_covers r src l t)"
  by (auto simp: peer_rule_applies_def peer_covers_def peer_rule_ok_def both_ports_eq has_ports_def addr_compare_zero)

lemma route_pass_eq:
  assumes "\<forall>r\<in>set rs. rule_ok r" "deny_first rs"
  shows "map_option snd (route_pass rs src dst t sp dp) =
     Some ((\<exists>r\<in>set rs. action r = ActionAccept \<and> route_covers r src dst t sp dp) \<and>
           (\<forall>r\<in>set rs. action r = ActionDrop \<longrightarrow> \<not> route_covers r src dst t sp dp))"
  using assms
proof (induction rs)
  case (Cons r rs)
  then have IH: "map_option snd (route_pass rs src dst t sp dp) =
     Some ((\<exists>r\<in>set rs. action r = ActionAccept \<and> route_covers r src dst t sp dp) \<and>
           (\<forall>r\<in>set rs. action r = ActionDrop \<longrightarrow> \<not> route_covers r src dst t sp dp))" by (simp add: deny_first_def)
  have r: "rule_ok r" using Cons.prems by simp
  have later: "\<forall>x\<in>set rs. action x \<noteq> ActionDrop" if "action r = ActionAccept"
    using Cons.prems(2) that by (auto simp: deny_first_def rank_def)
  show ?case
    using IH later r by (cases "route_covers r src dst t sp dp") (auto simp: ruleMatches_eq rule_ok_def)
qed simp

lemma validate_loop_eq:
  assumes "\<forall>r\<in>set rs. \<exists>ip k. peer_rule_ok deny ip k r"
  shows "\<exists>i. validate_loop src l t rs =
     Some (if \<exists>r\<in>set rs. peer_covers r src l t then Some (i, deny) else None)"
  using assms
proof (induction rs)
  case (Cons r rs)
  then obtain ip k where r: "peer_rule_ok deny ip k r" by auto
  then have "pr_drop r = deny" by (simp add: peer_rule_ok_def)
  with Cons r show ?case by (cases "peer_covers r src l t") (auto simp: peer_rule_applies_eq)
qed simp

text \<open>An iteration over a Go map visits every entry.\<close>

definition visits_all :: "rule_order \<Rightarrow> bool" where
  "visits_all ord \<longleftrightarrow> (\<forall>rs. set (ord rs) = snd ` set rs)"

lemma validateRule_eq:
  assumes "table_inv deny tab" "visits_all ord" "idx (decoded l) 1 = Some t"
  shows "\<exists>i. validateRule ord src (gget tab ip) l =
     Some (if \<exists>r\<in>installed tab. pr_ip r = ip \<and> peer_covers r src l t then Some (i, deny) else None)"
proof (cases "gget tab ip")
  case None
  then have "pr_ip r \<noteq> ip" if "r \<in> installed tab" for r
    using assms(1) that by (force simp: installed_def table_inv_def ruleset_inv_def peer_rule_ok_def)
  then show ?thesis using None assms(3) by (auto simp: validateRule_def)
next
  case (Some rs)
  with assms(1) have inv: "ruleset_inv deny ip rs" by (auto simp: table_inv_def)
  then have mem: "r \<in> snd ` set rs \<longleftrightarrow> (\<exists>k. gget rs k = Some r)" for r
    by (auto simp: ruleset_inv_def intro: rev_image_eqI)
  have "{r \<in> installed tab. pr_ip r = ip} = snd ` set rs" (is "?L = ?R")
  proof (intro set_eqI iffI)
    fix r assume "r \<in> ?L"
    then obtain ip' rs' k where g: "gget tab ip' = Some rs'" "gget rs' k = Some r" "pr_ip r = ip" by (auto simp: installed_def)
    then have "ip' = ip" using assms(1) by (force simp: table_inv_def ruleset_inv_def peer_rule_ok_def)
    with g Some show "r \<in> ?R" using mem by auto
  next
    fix r assume "r \<in> ?R"
    then obtain k where "gget rs k = Some r" using mem by auto
    then show "r \<in> ?L" unfolding installed_def using inv Some
      by (auto simp only: ruleset_inv_def peer_rule_ok_def mem_Collect_eq)
  qed
  then have "(\<exists>r\<in>installed tab. pr_ip r = ip \<and> peer_covers r src l t) \<longleftrightarrow> (\<exists>r\<in>set (ord rs). peer_covers r src l t)"
    using assms(2) unfolding visits_all_def by blast
  moreover have "\<forall>r\<in>set (ord rs). \<exists>ip k. peer_rule_ok deny ip k r"
    using assms(2) inv mem unfolding visits_all_def ruleset_inv_def by metis
  ultimately show ?thesis using validate_loop_eq [of "ord rs" deny src l t] Some assms(3) by (simp add: validateRule_def)
qed

lemma peer_decision:
  assumes "rules_inv m" "visits_all ord" "idx (decoded l) 1 = Some t" "\<not> special_icmp l t"
  shows "map_option snd (peerACLsBlock ord m src l) =
     Some ((\<exists>r\<in>installed (incomingDenyRules m). pr_ip r = src \<and> peer_covers r src l t) \<or>
           \<not> (\<exists>r\<in>installed (incomingRules m). peer_covers r src l t))"
proof -
  have D: "table_inv True (incomingDenyRules m)" and A: "table_inv False (incomingRules m)"
    using assms(1) by (auto simp: rules_inv_def)
  note v = validateRule_eq [OF _ assms(2,3)]
  have "(\<exists>r\<in>installed (incomingRules m). peer_covers r src l t) \<longleftrightarrow>
      (\<exists>r\<in>installed (incomingRules m). pr_ip r = src \<and> peer_covers r src l t) \<or>
      (\<exists>r\<in>installed (incomingRules m). pr_ip r = Addr4 0 \<and> peer_covers r src l t) \<or>
      (\<exists>r\<in>installed (incomingRules m). pr_ip r = Addr6 0 \<and> peer_covers r src l t)" (is "?L = ?R")
  proof
    assume ?L
    then obtain r where r: "r \<in> installed (incomingRules m)" "peer_covers r src l t" by auto
    then have "matchByIP r \<longleftrightarrow> pr_ip r \<noteq> Addr4 0 \<and> pr_ip r \<noteq> Addr6 0"
      using A by (force simp: installed_def table_inv_def ruleset_inv_def peer_rule_ok_def)
    with r show ?R by (auto simp: peer_covers_def)
  qed auto
  moreover obtain i1 i2 i3 i4 where
    "validateRule ord src (gget (incomingDenyRules m) src) l = Some (if \<exists>r\<in>installed (incomingDenyRules m). pr_ip r = src \<and> peer_covers r src l t then Some (i1, True) else None)"
    "validateRule ord src (gget (incomingRules m) src) l = Some (if \<exists>r\<in>installed (incomingRules m). pr_ip r = src \<and> peer_covers r src l t then Some (i2, False) else None)"
    "validateRule ord src (gget (incomingRules m) (Addr4 0)) l = Some (if \<exists>r\<in>installed (incomingRules m). pr_ip r = Addr4 0 \<and> peer_covers r src l t then Some (i3, False) else None)"
    "validateRule ord src (gget (incomingRules m) (Addr6 0)) l = Some (if \<exists>r\<in>installed (incomingRules m). pr_ip r = Addr6 0 \<and> peer_covers r src l t then Some (i4, False) else None)"
    using v [OF D, of src src] v [OF A, of src src] v [OF A, of src "Addr4 0"] v [OF A, of src "Addr6 0"] by (elim exE) blast
  ultimately show ?thesis using assms(3,4) by (simp add: peerACLsBlock_def isSpecialICMP_def)
qed

end
