(* ===== verification/UspInbound.thy ===== *)
theory UspInbound
  imports UspRules
begin

text \<open>
  What the packet filters of the userspace firewall do to its state and which packets they let through.
  \<open>fw_step\<close> is one operation of the firewall, by a packet or by the control plane; on every state that
  such operations reach from \<open>create\<close>, the rule tables satisfy their invariant, so that the decisions of
  \<open>UspRules\<close> are the ones taken for every packet.
\<close>

section \<open>The frame of the packet filters\<close>

text \<open>A packet changes only the trackers and what has been handed out.\<close>

definition frame :: "Manager \<Rightarrow> Manager \<Rightarrow> bool" where
  "frame m m' \<longleftrightarrow>
     m' = m\<lparr> udpTracker := udpTracker m', icmpTracker := icmpTracker m', tcpTracker := tcpTracker m',
             injected := injected m', dropEvents := dropEvents m' \<rparr>"

lemma frame_refl [simp]: "frame m m"
  by (simp add: frame_def)

lemma frame_trans: "frame m m' \<Longrightarrow> frame m' m'' \<Longrightarrow> frame m m''"
  by (cases m; cases m'; cases m'') (simp add: frame_def)

lemma frame_upd [simp]:
  "frame m (m\<lparr> udpTracker := u \<rparr>)" "frame m (m\<lparr> icmpTracker := i \<rparr>)" "frame m (m\<lparr> tcpTracker := t \<rparr>)"
  "frame m (m\<lparr> injected := j \<rparr>)" "frame m (m\<lparr> dropEvents := ev \<rparr>)"
  by (simp_all add: frame_def)

lemma frame_fields:
  assumes "frame m m'"
  shows "routeRules m' = routeRules m" "routeRulesMap m' = routeRulesMap m"
    "incomingDenyRules m' = incomingDenyRules m" "incomingRules m' = incomingRules m"
    "wgAddress m' = wgAddress m" "localIPs m' = localIPs m" "stateful m' = stateful m"
    "routingEnabled m' = routingEnabled m" "nativeRouter m' = nativeRouter m" "forwarder m' = forwarder m"
    "localForwarding m' = localForwarding m" "netstack m' = netstack m" "netstackServices m' = netstackServices m"
  using assms by (cases m; cases m'; simp add: frame_def)+

lemma trackInbound_frame:
  "trackInbound e m d src dst rid = Some (m', d') \<Longrightarrow> frame m m' \<and> lay d' = lay d \<and> injected m' = injected m"
  by (auto simp: trackInbound_def Let_def split: option.splits LayerType.splits prod.splits)

lemma trackOutbound_frame: "trackOutbound e m l src dst p = Some (m', p') \<Longrightarrow> frame m m' \<and> injected m' = injected m"
  by (auto simp: trackOutbound_def Let_def split: option.splits LayerType.splits prod.splits if_splits)

lemma isValidTracked_frame:
  "isValidTrackedConnection e m l src dst = Some (m', v) \<Longrightarrow> frame m m' \<and> injected m' = injected m"
  by (auto simp: isValidTrackedConnection_def Let_def case_prod_beta split: option.splits LayerType.splits)

lemma handleForwarded_frame: "handleForwardedLocalTraffic m p = (m', v) \<Longrightarrow> frame m m' \<and> v"
  by (auto simp: handleForwardedLocalTraffic_def split: if_splits)

lemma handleLocal_frame: "handleLocalTraffic e m d src dst p = Some (m', d', v) \<Longrightarrow> frame m m'"
  by (auto simp: handleLocalTraffic_def Let_def split: option.splits bool.splits if_splits prod.splits
      dest: trackInbound_frame handleForwarded_frame)

lemma handleRouted_frame: "handleRoutedTraffic e m d src dst p = Some (m', d', v) \<Longrightarrow> frame m m'"
  by (auto simp: handleRoutedTraffic_def Let_def split: option.splits bool.splits if_splits prod.splits
      dest: trackInbound_frame)

lemma filter_translated_frame:
  assumes "filter_translated e m d src dst p = Some (m', d', p', v)"
  shows "frame m m' \<and> p' = p"
proof -
  obtain m1 ok where t: "(if stateful m then isValidTrackedConnection e m (lay d) src dst else Some (m, False)) = Some (m1, ok)"
    using assms by (cases "if stateful m then isValidTrackedConnection e m (lay d) src dst else Some (m, False)")
      (auto simp: filter_translated_def)
  then have "frame m m1" using isValidTracked_frame by (auto split: if_splits)
  then show ?thesis
    using assms t handleLocal_frame [of e m1 d src dst p] handleRouted_frame [of e m1 d src dst p] frame_trans
    by (cases ok) (auto simp: filter_translated_def split: if_splits)
qed

section \<open>The packet that is decided on\<close>

lemma applyPortRule_lay:
  "applyPortRule rs p d src dst port proto f = Some (p', d', t) \<Longrightarrow> lay d' = lay d \<and> (\<not> t \<longrightarrow> p' = p \<and> d' = d)"
  by (induction rs) (auto split: if_splits option.splits sum.splits)

lemma portDNAT_lay:
  "translateInboundPortDNAT m p d src dst = Some (p', d', t) \<Longrightarrow> lay d' = lay d \<and> (\<not> t \<longrightarrow> p' = p \<and> d' = d)"
  by (auto simp: translateInboundPortDNAT_def split: if_splits option.splits LayerType.splits dest: applyPortRule_lay)

lemma reverse_same: "translateInboundReverse m p l = Some (p', False) \<Longrightarrow> p' = p"
  by (auto simp: translateInboundReverse_def split: if_splits bind_splits option.splits sum.splits)

definition decodes :: "parser \<Rightarrow> bytes \<Rightarrow> decoder \<Rightarrow> addr \<times> addr \<Rightarrow> bool" where
  "decodes P p d ips \<longleftrightarrow> (\<exists>d0. decodePacket P p d0 = (d, True)) \<and> extractIPs (lay d) = Some ips"

lemma redecode_cases:
  assumes "redecode P t m d ips p k = Some (m', d', p', v)"
  obtains (dropped) d2 where "t" "decodePacket P p d = (d2, False)" "v" "m' = m" "p' = p"
  | (continued) d1 ips1 where "if t then decodePacket P p d = (d1, True) \<and> extractIPs (lay d1) = Some ips1 else d1 = d \<and> ips1 = ips"
      "k d1 ips1 = Some (m', d', p', v)"
  using assms by (auto simp: redecode_def split: if_splits option.splits prod.splits)

lemma redecoded_decodes:
  assumes "if t then decodePacket P p d = (d1, True) \<and> extractIPs (lay d1) = Some ips1 else d1 = d \<and> ips1 = ips"
    "\<not> t \<Longrightarrow> decodes P p d ips"
  shows "decodes P p d1 ips1"
  using assms by (cases t) (auto simp: decodes_def)

lemma isValidPacket_decodes:
  "isValidPacket P p d = (d', True, f) \<Longrightarrow> extractIPs (lay d') = Some ips \<Longrightarrow> decodes P p d' ips"
  by (auto simp: isValidPacket_def decodes_def Let_def split: prod.splits if_splits)

text \<open>
  \<open>nat_translated\<close> says that the bytes \<open>p'\<close> are the packet \<open>p\<close> after the port redirection, or after the
  reverse address translation that follows it.
\<close>

definition nat_translated :: "parser \<Rightarrow> Manager \<Rightarrow> bytes \<Rightarrow> decoder \<Rightarrow> addr \<Rightarrow> addr \<Rightarrow> bytes \<Rightarrow> bool" where
  "nat_translated P m p d src dst p' \<longleftrightarrow>
     (\<exists>p1 d1 t. translateInboundPortDNAT m p d src dst = Some (p1, d1, t) \<and>
        (t \<and> p' = p1 \<or>
         (\<exists>d2. (if t then decodePacket P p1 d1 = (d2, True) else d2 = d1) \<and>
            translateInboundReverse m p1 (lay d2) = Some (p', True))))"

text \<open>
  A packet is dropped as malformed, for an invalid source or because it no longer decodes after a
  translation, accepted as a fragment, or decided by \<open>filter_translated\<close> on the fields decoded from the
  packet as it leaves the filter.
\<close>

lemma filterInbound_exact_cases:
  assumes "filterInbound P e m d p = Some (m', d', p', v)"
  obtains (malformed) f where "isValidPacket P p d = (d', False, f)" "m' = m" "p' = p" "v"
  | (source) f src dst where "isValidPacket P p d = (d', True, f)" "extractIPs (lay d') = Some (src, dst)" "\<not> is_valid src"
      "m' = m" "p' = p" "v"
  | (fragment) src dst where "isValidPacket P p d = (d', True, True)" "extractIPs (lay d') = Some (src, dst)" "is_valid src"
      "m' = m" "p' = p" "\<not> v"
  | (garbled) d0 src dst d1 d2 where "isValidPacket P p d = (d0, True, False)" "extractIPs (lay d0) = Some (src, dst)"
      "is_valid src" "nat_translated P m p d0 src dst p'" "decodePacket P p' d1 = (d2, False)" "m' = m" "v"
  | (filtered) d0 src0 dst0 d1 src dst where "isValidPacket P p d = (d0, True, False)"
      "extractIPs (lay d0) = Some (src0, dst0)" "is_valid src0" "p' = p \<or> nat_translated P m p d0 src0 dst0 p'"
      "decodes P p' d1 (src, dst)" "filter_translated e m d1 src dst p' = Some (m', d', p', v)"
proof -
  obtain d0 valid fragment where valid: "isValidPacket P p d = (d0, valid, fragment)" by (cases "isValidPacket P p d") auto
  show thesis
  proof (cases valid)
    case False
    then show thesis using that(1) assms valid by (simp add: filterInbound_def)
  next
    case True
    with assms valid obtain src dst where ips: "extractIPs (lay d0) = Some (src, dst)"
      by (auto simp: filterInbound_def split: option.splits)
    show thesis
    proof (cases "is_valid src \<and> \<not> fragment")
      case False
      then have "m' = m" "d' = d0" "p' = p" "v = (\<not> is_valid src)"
        using assms valid True ips by (auto simp: filterInbound_def split: if_splits)
      then show thesis using that(2) [of fragment src dst] that(3) [of src dst] valid True ips False
        by (cases "is_valid src") simp_all
    next
      case src: True
      with True valid have vp: "isValidPacket P p d = (d0, True, False)" by simp
      note head = vp ips conjunct1 [OF src]
      from assms vp ips src obtain p1 d1 t where dnat: "translateInboundPortDNAT m p d0 src dst = Some (p1, d1, t)"
        by (auto simp: filterInbound_def split: option.splits)
      have dec: "\<not> t \<Longrightarrow> decodes P p1 d1 (src, dst)"
        using portDNAT_lay [OF dnat] isValidPacket_decodes vp ips by auto
      have p1: "\<not> t \<Longrightarrow> p1 = p" using portDNAT_lay [OF dnat] by blast
      have "redecode P t m d1 (src, dst) p1 (\<lambda>d ips. case translateInboundReverse m p1 (lay d) of None \<Rightarrow> None
          | Some (p, t) \<Rightarrow> redecode P t m d ips p (\<lambda>d (src, dst). filter_translated e m d src dst p)) = Some (m', d', p', v)"
        using assms vp ips src dnat by (simp add: filterInbound_def)
      then show thesis
      proof (cases rule: redecode_cases)
        case (dropped d2)
        with dnat have "nat_translated P m p d0 src dst p'" unfolding nat_translated_def by blast
        then show thesis using that(4) [OF head _ _ dropped(4,3)] dropped(2,5) by simp
      next
        case (continued d2 ips2)
        then obtain p2 t2 where rev: "translateInboundReverse m p1 (lay d2) = Some (p2, t2)"
          by (auto split: option.splits)
        have tr: "nat_translated P m p d0 src dst p2" if "t2"
          unfolding nat_translated_def using \<open>t2\<close> continued(1) dnat rev
          by (intro exI [of _ p1] exI [of _ d1] exI [of _ t]) (cases t; auto)
        have same: "p2 = p \<or> nat_translated P m p d0 src dst p2"
        proof (cases t2)
          case False
          then have "p2 = p1" using reverse_same [of m p1 "lay d2" p2] rev by simp
          then show ?thesis
            using p1 dnat nat_translated_def [of P m p d0 src dst p2] by (cases t) (simp_all, blast)
        qed (simp add: tr)
        have dec2: "\<not> t2 \<Longrightarrow> decodes P p2 d2 ips2"
          using redecoded_decodes [OF continued(1) dec] reverse_same [of m p1 "lay d2" p2] rev by (cases t2) auto
        from continued rev have "redecode P t2 m d2 ips2 p2 (\<lambda>d (src, dst). filter_translated e m d src dst p2) = Some (m', d', p', v)"
          by simp
        then show thesis
        proof (cases rule: redecode_cases)
          case (dropped d3)
          then show thesis using that(4) [OF head _ _ dropped(4,3)] tr by simp
        next
          case again: (continued d3 ips3)
          obtain a b where ips3: "ips3 = (a, b)" by (cases ips3)
          with again(2) have "p' = p2" using filter_translated_frame by auto
          then show thesis
            using that(5) [OF head, of d3 a b] redecoded_decodes [OF again(1) dec2] same again(2) unfolding ips3 by simp
        qed
      qed
    qed
  qed
qed

lemma filterInbound_cases:
  assumes "filterInbound P e m d p = Some (m', d', p', v)"
  obtains (dropped) "v" "m' = m"
  | (fragment) src dst where "isValidPacket P p d = (d', True, True)" "m' = m" "p' = p" "\<not> v"
      "extractIPs (lay d') = Some (src, dst)" "is_valid src"
  | (filtered) d1 src dst where "decodes P p' d1 (src, dst)" "filter_translated e m d1 src dst p' = Some (m', d', p', v)"
  using assms by (cases rule: filterInbound_exact_cases) blast+

lemma filterInbound_frame: "filterInbound P e m d p = Some (m', d', p', v) \<Longrightarrow> frame m m'"
  by (erule filterInbound_cases) (auto dest: filter_translated_frame)

lemma filterOutbound_frame:
  assumes "filterOutbound P e m d p = Some (m', d', p', v)"
  shows "frame m m' \<and> injected m' = injected m"
  using assms
  by (auto simp: filterOutbound_def Let_def split: prod.splits option.splits if_splits dest: trackOutbound_frame)

section \<open>Operations of the firewall\<close>

text \<open>
  A call of the control plane, or a tracker's clean-up. The ports of a rule come from \<open>NewPort\<close> or are
  absent, its action is one of the two the callers use. One operation of the firewall is such a call or a
  packet in either direction.
\<close>

inductive control_step :: "Manager \<Rightarrow> Manager \<Rightarrow> bool" where
  step_add_route: "addRouteFiltering h mgmt srcs dst proto sp dp act m = Here (m', r) \<Longrightarrow> port_ok sp \<Longrightarrow> port_ok dp \<Longrightarrow>
    act = ActionAccept \<or> act = ActionDrop \<Longrightarrow> control_step m m'"
| step_delete_route: "deleteRouteRule k m = Here (Inr m') \<Longrightarrow> control_step m m'"
| step_update_set: "UpdateSet s ps m = Here (Inr m') \<Longrightarrow> control_step m m'"
| step_add_peer: "AddPeerFiltering uuid mgmt ip proto sp dp act m = Inr (m', r') \<Longrightarrow> port_ok sp \<Longrightarrow> port_ok dp \<Longrightarrow> control_step m m'"
| step_delete_peer: "DeletePeerRule pr m = Inr m' \<Longrightarrow> control_step m m'"
| step_enable: "EnableRouting h native pf m = (m', e') \<Longrightarrow> control_step m m'"
| step_disable: "DisableRouting m = (m', es) \<Longrightarrow> control_step m m'"
| step_add_dnat: "AddInternalDNATMapping a b m = Inr m' \<Longrightarrow> control_step m m'"
| step_remove_dnat: "RemoveInternalDNATMapping a m = Some (Inr m') \<Longrightarrow> control_step m m'"
| step_add_inbound_dnat: "AddInboundDNAT a proto' op tp m = Inr m' \<Longrightarrow> control_step m m'"
| step_remove_inbound_dnat: "RemoveInboundDNAT a proto' op tp m = Inr m' \<Longrightarrow> control_step m m'"
| step_register: "control_step m (RegisterNetstackService proto'' port m)"
| step_unregister: "control_step m (UnregisterNetstackService proto'' port m)"
| step_udp_hook: "control_step m (SetUDPPacketHook a dport hook m)"
| step_tcp_hook: "control_step m (SetTCPPacketHook a dport hook m)"
| step_udp_cleanup: "udpTracker m = Some ut \<Longrightarrow> control_step m (m\<lparr> udpTracker := Some (udp_cleanup now ks ut) \<rparr>)"
| step_icmp_cleanup: "icmpTracker m = Some it \<Longrightarrow> control_step m (m\<lparr> icmpTracker := Some (icmp_cleanup now iks it) \<rparr>)"
| step_tcp_cleanup: "tcpTracker m = Some tt \<Longrightarrow> control_step m (m\<lparr> tcpTracker := Some (tcp_cleanup now ks tt) \<rparr>)"
| step_reset: "control_step m (resetState m)"
| step_update_local: "control_step m (Manager_UpdateLocalIPs ifs m)"

inductive fw_step :: "Manager \<Rightarrow> Manager \<Rightarrow> bool" where
  step_control: "control_step m m' \<Longrightarrow> fw_step m m'"
| step_inbound: "filterInbound P e m d p = Some (m', d', p', v) \<Longrightarrow> fw_step m m'"
| step_outbound: "filterOutbound P e m d p = Some (m', d', p', v) \<Longrightarrow> fw_step m m'"

definition fw_start :: "Manager \<Rightarrow> bool" where
  "fw_start m \<longleftrightarrow> (\<exists>pf wg ifs native srv net mtu ut it tt.
     udp_start ut \<and> icmp_start it \<and> tcp_start tt \<and> m = create pf wg ifs native srv net mtu ut it tt)"

abbreviation fw_reachable :: "Manager \<Rightarrow> bool" where
  "fw_reachable \<equiv> reach fw_start fw_step"

lemma initForwarder_tables:
  "routeRules (fst (initForwarder pf m)) = routeRules m" "routeRulesMap (fst (initForwarder pf m)) = routeRulesMap m"
  "incomingDenyRules (fst (initForwarder pf m)) = incomingDenyRules m" "incomingRules (fst (initForwarder pf m)) = incomingRules m"
  by (simp_all add: initForwarder_def split: option.splits)

lemma create_tables:
  "routeRules (create pf wg ifs native srv net mtu ut it tt) = []"
  "routeRulesMap (create pf wg ifs native srv net mtu ut it tt) = []"
  "incomingDenyRules (create pf wg ifs native srv net mtu ut it tt) = []"
  "incomingRules (create pf wg ifs native srv net mtu ut it tt) = []"
  by (simp_all add: create_def initForwarder_tables Let_def split: prod.split)

lemma rules_inv_start: "fw_start m \<Longrightarrow> rules_inv m"
  by (auto simp: fw_start_def create_tables rules_inv_def route_inv_def table_inv_def deny_first_def)

lemma rules_inv_frame: "frame m m' \<Longrightarrow> rules_inv m \<Longrightarrow> rules_inv m'"
  using rules_inv_cong(1) [OF frame_fields(1-4)] by blast

lemma rules_inv_reset: "rules_inv (resetState m)"
  by (simp add: resetState_def rules_inv_def route_inv_def table_inv_def deny_first_def)

lemma nat_tables:
  "AddInternalDNATMapping a b m = Inr (m' :: Manager) \<Longrightarrow> rules_inv m' = rules_inv m"
  "RemoveInternalDNATMapping a m = Some (Inr m') \<Longrightarrow> rules_inv m' = rules_inv m"
  "AddInboundDNAT a proto op tp m = Inr m' \<Longrightarrow> rules_inv m' = rules_inv m"
  "RemoveInboundDNAT a proto op tp m = Inr m' \<Longrightarrow> rules_inv m' = rules_inv m"
  by (auto simp: AddInternalDNATMapping_def RemoveInternalDNATMapping_def AddInboundDNAT_def RemoveInboundDNAT_def
      addPortRedirection_def removePortRedirection_def Let_def rules_inv_def route_inv_def split: if_splits option.splits)

lemma rules_inv_control:
  assumes "rules_inv m" "control_step m m'"
  shows "rules_inv m'"
  using assms(2,1)
proof cases
  case step_add_route then show ?thesis using assms(1) rules_inv_add by blast
next
  case step_delete_route then show ?thesis using assms(1) rules_inv_delete by blast
next
  case step_update_set then show ?thesis using assms(1) rules_inv_UpdateSet by blast
next
  case step_add_peer then show ?thesis using assms(1) rules_inv_AddPeer by blast
next
  case step_delete_peer then show ?thesis using assms(1) rules_inv_DeletePeer by blast
next
  case step_enable then show ?thesis using assms(1) rules_inv_EnableRouting by blast
next
  case step_disable then show ?thesis using assms(1) rules_inv_DisableRouting by blast
next
  case step_add_dnat then show ?thesis using assms(1) nat_tables(1) by blast
next
  case step_remove_dnat then show ?thesis using assms(1) nat_tables(2) by blast
next
  case step_add_inbound_dnat then show ?thesis using assms(1) nat_tables(3) by blast
next
  case step_remove_inbound_dnat then show ?thesis using assms(1) nat_tables(4) by blast
next
  case step_reset then show ?thesis by (simp add: rules_inv_reset)
qed (simp_all add: rules_inv_cong(1) [of _ m] assms(1) RegisterNetstackService_def UnregisterNetstackService_def
        SetUDPPacketHook_def SetTCPPacketHook_def Manager_UpdateLocalIPs_def)

lemma rules_inv_step: "rules_inv m \<Longrightarrow> fw_step m m' \<Longrightarrow> rules_inv m'"
  using rules_inv_control filterInbound_frame filterOutbound_frame rules_inv_frame by (metis fw_step.cases)

interpretation fw_sys: invariant_system fw_start fw_step rules_inv
  by unfold_locales (auto intro: rules_inv_start rules_inv_step)

section \<open>Which packets pass\<close>

text \<open>The peer rules let the packet in: an ICMP error, or an allow rule covers it and no deny rule of its source does.\<close>

definition peer_allows :: "Manager \<Rightarrow> addr \<Rightarrow> layers \<Rightarrow> bool" where
  "peer_allows m src l \<longleftrightarrow>
     (\<exists>t. idx (decoded l) 1 = Some t \<and>
       (special_icmp l t \<or>
        (\<exists>r\<in>installed (incomingRules m). peer_covers r src l t) \<and>
        (\<nexists>r. r \<in> installed (incomingDenyRules m) \<and> pr_ip r = src \<and> peer_covers r src l t)))"

text \<open>The route rules let the packet through: an accept rule covers it and no drop rule does.\<close>

definition route_allows :: "Manager \<Rightarrow> addr \<Rightarrow> addr \<Rightarrow> layers \<Rightarrow> bool" where
  "route_allows m src dst l \<longleftrightarrow>
     (\<exists>t sp dp. idx (decoded l) 1 = Some t \<and> layer_ports l t = (sp, dp) \<and>
       (\<exists>r\<in>set (routeRules m). action r = ActionAccept \<and> route_covers r src dst t sp dp) \<and>
       (\<nexists>r. r \<in> set (routeRules m) \<and> action r = ActionDrop \<and> route_covers r src dst t sp dp))"

definition tracked_reply :: "penv \<Rightarrow> Manager \<Rightarrow> layers \<Rightarrow> addr \<Rightarrow> addr \<Rightarrow> bool" where
  "tracked_reply e m l src dst \<longleftrightarrow>
     stateful m \<and> (case isValidTrackedConnection e m l src dst of Some (_, ok) \<Rightarrow> ok | None \<Rightarrow> False)"

definition delivered :: "penv \<Rightarrow> Manager \<Rightarrow> layers \<Rightarrow> addr \<Rightarrow> addr \<Rightarrow> bool" where
  "delivered e m l src dst \<longleftrightarrow>
     tracked_reply e m l src dst \<or>
     (if IsLocalIP (localIPs m) dst then peer_allows m src l \<and> \<not> shouldForward m l dst
      else routingEnabled m \<and> nativeRouter m)"

definition forwarded :: "penv \<Rightarrow> Manager \<Rightarrow> layers \<Rightarrow> addr \<Rightarrow> addr \<Rightarrow> bool" where
  "forwarded e m l src dst \<longleftrightarrow>
     forwarder m \<and> \<not> tracked_reply e m l src dst \<and>
     (if IsLocalIP (localIPs m) dst then peer_allows m src l \<and> shouldForward m l dst
      else routingEnabled m \<and> \<not> nativeRouter m \<and> route_allows m src dst l)"

lemma peer_block_iff:
  assumes "rules_inv m" "visits_all ord" "peerACLsBlock ord m src l = Some (rid, b)"
  shows "b \<longleftrightarrow> \<not> peer_allows m src l"
proof -
  obtain t where t: "idx (decoded l) 1 = Some t"
    using assms(3) by (auto simp: peerACLsBlock_def isSpecialICMP_def split: option.splits)
  show ?thesis
  proof (cases "special_icmp l t")
    case True
    then show ?thesis using assms(3) t by (auto simp: peerACLsBlock_def isSpecialICMP_def peer_allows_def)
  next
    case False
    then show ?thesis using peer_decision [OF assms(1,2) t False, of src] assms(3) t by (auto simp: peer_allows_def)
  qed
qed

lemma route_pass_iff:
  assumes "rules_inv m" "idx (decoded l) 1 = Some t"
    "routeACLsPass m src dst t (fst (layer_ports l t)) (snd (layer_ports l t)) = Some (rid, b)"
  shows "b \<longleftrightarrow> route_allows m src dst l"
proof -
  have "\<forall>r\<in>set (routeRules m). rule_ok r" "deny_first (routeRules m)"
    using assms(1) by (auto simp: rules_inv_def route_inv_def)
  from route_pass_eq [OF this, of src dst t "fst (layer_ports l t)" "snd (layer_ports l t)"]
  show ?thesis using assms(2,3) by (cases "layer_ports l t") (auto simp: routeACLsPass_def route_allows_def)
qed

lemma allows_frame:
  assumes "frame m m'"
  shows "peer_allows m' src l = peer_allows m src l" "route_allows m' src dst l = route_allows m src dst l"
    "shouldForward m' l dst = shouldForward m l dst"
  unfolding peer_allows_def route_allows_def shouldForward_def hasMatchingNetstackService_def frame_fields [OF assms]
  by (rule refl)+

lemma handleLocal_exact:
  assumes "rules_inv m" "visits_all (pe_rules e)" "handleLocalTraffic e m d src dst p = Some (m', d', v)"
  shows "(v \<longleftrightarrow> \<not> (peer_allows m src (lay d) \<and> \<not> shouldForward m (lay d) dst)) \<and>
    injected m' = injected m @ (if forwarder m \<and> peer_allows m src (lay d) \<and> shouldForward m (lay d) dst then [p] else [])"
proof -
  obtain rid b where acl: "peerACLsBlock (pe_rules e) m src (lay d) = Some (rid, b)"
    using assms(3) by (auto simp: handleLocalTraffic_def Let_def split: option.splits)
  with peer_block_iff [OF assms(1,2)] have b: "b = (\<not> peer_allows m src (lay d))" by blast
  show ?thesis
    using assms(3) acl b
    by (cases b) (auto simp: handleLocalTraffic_def handleForwardedLocalTraffic_def Let_def split: if_splits
        dest: trackInbound_frame)
qed

lemma handleRouted_exact:
  assumes "rules_inv m" "handleRoutedTraffic e m d src dst p = Some (m', d', v)"
  shows "(v \<longleftrightarrow> \<not> (routingEnabled m \<and> nativeRouter m)) \<and>
    injected m' = injected m @
      (if forwarder m \<and> routingEnabled m \<and> \<not> nativeRouter m \<and> route_allows m src dst (lay d) then [p] else [])"
proof (cases "routingEnabled m \<and> \<not> nativeRouter m")
  case True
  with assms(2) obtain t rid b where t: "idx (decoded (lay d)) 1 = Some t"
    and acl: "routeACLsPass m src dst t (fst (layer_ports (lay d) t)) (snd (layer_ports (lay d) t)) = Some (rid, b)"
    by (auto simp: handleRoutedTraffic_def Let_def split: option.splits)
  from route_pass_iff [OF assms(1) this] have "b = route_allows m src dst (lay d)" .
  then show ?thesis using assms(2) True t acl by (cases b) (auto simp: handleRoutedTraffic_def Let_def)
next
  case False
  then show ?thesis using assms(2)
    by (auto simp: handleRoutedTraffic_def Let_def split: if_splits dest: trackInbound_frame)
qed

lemma filter_translated_exact:
  assumes "rules_inv m" "visits_all (pe_rules e)" "filter_translated e m d src dst p = Some (m', d', p', v)"
  shows "(v \<longleftrightarrow> \<not> delivered e m (lay d) src dst) \<and>
    injected m' = injected m @ (if forwarded e m (lay d) src dst then [p] else [])"
proof -
  obtain m1 ok where t: "(if stateful m then isValidTrackedConnection e m (lay d) src dst else Some (m, False)) = Some (m1, ok)"
    using assms(3) by (cases "if stateful m then isValidTrackedConnection e m (lay d) src dst else Some (m, False)")
      (auto simp: filter_translated_def)
  then have fr: "frame m m1" "injected m1 = injected m" and ok: "ok = tracked_reply e m (lay d) src dst"
    using isValidTracked_frame by (auto simp: tracked_reply_def split: if_splits)
  show ?thesis
  proof (cases ok)
    case True
    then show ?thesis using assms(3) t ok fr by (simp add: filter_translated_def delivered_def forwarded_def)
  next
    case False
    have inv: "rules_inv m1" using rules_inv_frame [OF fr(1) assms(1)] .
    from False assms(3) t have "(if IsLocalIP (localIPs m1) dst then handleLocalTraffic e m1 d src dst p
        else handleRoutedTraffic e m1 d src dst p) = Some (m', d', v)"
      by (auto simp: filter_translated_def split: if_splits)
    then show ?thesis
      using handleLocal_exact [OF inv assms(2), of d src dst p m' d' v] handleRouted_exact [OF inv, of e d src dst p m' d' v]
        False ok fr frame_fields [OF fr(1)] allows_frame [OF fr(1)]
      by (cases "IsLocalIP (localIPs m) dst") (simp_all add: delivered_def forwarded_def)
  qed
qed

text \<open>
  C2. The inbound filter lets through exactly what policy authorises. In every reachable state, whatever
  order Go iterates over the rule maps in, a packet that is malformed or has an invalid source is dropped
  without effect; a fragment passes unchanged. Any other packet is, possibly after an address translation
  that the firewall's mappings prescribe, decided on the fields decoded from the very bytes that leave the
  filter (or dropped without effect if the translated bytes do not decode): it is delivered iff it belongs
  to a tracked connection, or is addressed to this host, admitted by the peer rules (an ICMP error, or
  covered by an allow rule and by no deny rule of its source) and not subject to local forwarding, or is
  addressed elsewhere and routing is left to the host; it is handed to the forwarder, once, iff there is one
  and the peer rules admit it for local forwarding, or userspace routing is on and an accept route rule
  covers it while no drop route rule does.
\<close>

theorem inbound_exact:
  assumes "fw_reachable m" "visits_all (pe_rules e)" "filterInbound P e m d p = Some (m', d', p', dropped)"
    "isValidPacket P p d = (d0, valid, fragment)"
  shows "if \<not> valid then dropped \<and> m' = m \<and> p' = p
    else \<exists>src0 dst0. extractIPs (lay d0) = Some (src0, dst0) \<and>
      (if \<not> is_valid src0 then dropped \<and> m' = m \<and> p' = p
       else if fragment then dropped = False \<and> m' = m \<and> p' = p
       else (p' = p \<or> nat_translated P m p d0 src0 dst0 p') \<and>
         (nat_translated P m p d0 src0 dst0 p' \<and> (\<exists>d1 d2. decodePacket P p' d1 = (d2, False)) \<and> dropped \<and> m' = m \<or>
          (\<exists>d1 src dst. decodes P p' d1 (src, dst) \<and>
            (dropped \<longleftrightarrow> \<not> delivered e m (lay d1) src dst) \<and>
            injected m' = injected m @ (if forwarded e m (lay d1) src dst then [p'] else []))))"
  using assms(3)
proof (cases rule: filterInbound_exact_cases)
  case (garbled d0' src dst d1 d2)
  then show ?thesis using assms(4) by auto
next
  case (filtered d0' src0 dst0 d1 src dst)
  then have "\<exists>d1 src dst. decodes P p' d1 (src, dst) \<and> (dropped \<longleftrightarrow> \<not> delivered e m (lay d1) src dst) \<and>
      injected m' = injected m @ (if forwarded e m (lay d1) src dst then [p'] else [])"
    using filter_translated_exact [OF fw_sys.reach_inv [OF assms(1)] assms(2)] by blast
  then show ?thesis using filtered(1-4) assms(4) by simp
qed (use assms(4) in auto)

section \<open>An example firewall\<close>

text \<open>A parser for IPv4 packets without options that carry TCP, enough for the examples.\<close>

definition sample_parser :: parser where
  "sample_parser t data l =
     (if t = LayerTypeIPv4 \<and> 40 \<le> length data \<and> data ! 9 = 6
      then (l\<lparr> decoded := [LayerTypeIPv4, LayerTypeTCP],
               ip4 := (ip4 l)\<lparr> IHL := 5, ip4_SrcIP := take 4 (drop 12 data), ip4_DstIP := take 4 (drop 16 data), ip4_Protocol := 6 \<rparr>,
               tcp := (tcp l)\<lparr> tcp_SrcPort := be_word (take 2 (drop 20 data)), tcp_DstPort := be_word (take 2 (drop 22 data)),
                 SYN := bit (data ! 33) 1, ACK := bit (data ! 33) 4, FIN := bit (data ! 33) 0, RST := bit (data ! 33) 2,
                 PSH := bit (data ! 33) 3, URG := bit (data ! 33) 5, Options := [] \<rparr> \<rparr>, True)
      else (l, False))"

definition sample_wg :: wg_address where
  "sample_wg = \<lparr> wg_IP = Addr4 0x0A000002, wg_Network = \<lparr> pfx_addr = Addr4 0x0A000000, pfx_bits = 24 \<rparr>,
     wg_IPv6 = NoAddr, wg_IPv6Net = \<lparr> pfx_addr = NoAddr, pfx_bits = -1 \<rparr> \<rparr>"

definition sample_platform :: platform where
  "sample_platform = \<lparr> getenv = (\<lambda>_. []), wgDevice = True, forwarderNew = None \<rparr>"

definition sample_created :: Manager where
  "sample_created = create sample_platform sample_wg (Some []) False False False 1280
     (NewUDPTracker 0 100) (NewICMPTracker 0 100) (NewTCPTracker 0 1 1 1 100)"

definition sample_add_peer :: "fw_err + (Manager \<times> PeerRule)" where
  "sample_add_peer = AddPeerFiltering ''r1'' [] [10, 0, 0, 1] ProtocolTCP None None ActionAccept sample_created"

definition sample_fw :: Manager where
  "sample_fw = (case sample_add_peer of Inr (m, _) \<Rightarrow> m | Inl _ \<Rightarrow> sample_created)"

definition fw_sample_env :: penv where
  "fw_sample_env = \<lparr> pe_now = 1, pe_flow = 7, pe_conns = [], pe_icmps = [], pe_rules = map snd, pe_size = 40 \<rparr>"

lemma sample_fw_reachable: "fw_reachable sample_fw"
proof -
  have "fw_start sample_created"
    unfolding fw_start_def sample_created_def udp_start_def icmp_start_def tcp_start_def by blast
  then have "fw_reachable sample_created" by (rule reach_start)
  moreover obtain m r where "sample_add_peer = Inr (m, r)"
    by (auto simp: sample_add_peer_def AddPeerFiltering_def addr_from_slice_def Let_def)
  ultimately show ?thesis
    using step_add_peer [of "''r1''" "[]" "[10, 0, 0, 1]" ProtocolTCP None None ActionAccept sample_created]
    by (auto simp: sample_fw_def sample_add_peer_def port_ok_def intro: reach_step step_control)
qed

lemma sample_visits: "visits_all (pe_rules fw_sample_env)"
  by (simp add: visits_all_def fw_sample_env_def)

lemma sample_accept:
  "\<exists>m' d'. filterInbound sample_parser fw_sample_env sample_fw new_decoder sample_packet = Some (m', d', sample_packet, False)"
proof -
  have "map_option (\<lambda>(_, _, p, v). (p, v)) (filterInbound sample_parser fw_sample_env sample_fw new_decoder sample_packet) = Some (sample_packet, False)"
    by code_simp
  then show ?thesis by auto
qed

theorem inbound_exact_witness:
  "\<exists>m' d' d1 src dst. filterInbound sample_parser fw_sample_env sample_fw new_decoder sample_packet = Some (m', d', sample_packet, False) \<and>
     decodes sample_parser sample_packet d1 (src, dst) \<and> delivered fw_sample_env sample_fw (lay d1) src dst"
proof -
  obtain m' d' where run: "filterInbound sample_parser fw_sample_env sample_fw new_decoder sample_packet = Some (m', d', sample_packet, False)"
    using sample_accept by blast
  obtain d0 valid fragment where v: "isValidPacket sample_parser sample_packet new_decoder = (d0, valid, fragment)"
    by (cases "isValidPacket sample_parser sample_packet new_decoder") auto
  have "snd (isValidPacket sample_parser sample_packet new_decoder) = (True, False)"
    "extractIPs (lay (fst (isValidPacket sample_parser sample_packet new_decoder))) = Some (Addr4 0x0A000001, Addr4 0x0A000002)"
    "is_valid (Addr4 0x0A000001)" by code_simp+
  then show ?thesis
    using inbound_exact [OF sample_fw_reachable sample_visits run v] run v by auto
qed

section \<open>Where the filter departs from its policy\<close>

definition sample_dnat_fw :: Manager where
  "sample_dnat_fw = (case AddInboundDNAT (Addr4 0x0A000002) ProtocolTCP 8080 22 sample_fw of Inr m \<Rightarrow> m | Inl _ \<Rightarrow> sample_fw)"

lemma sample_dnat_reachable: "fw_reachable sample_dnat_fw"
proof -
  have "AddInboundDNAT (Addr4 0x0A000002) ProtocolTCP 8080 22 sample_fw = Inr sample_dnat_fw"
    by (simp add: sample_dnat_fw_def AddInboundDNAT_def dnat_layer_def)
  then show ?thesis using reach_step [OF sample_fw_reachable] step_control step_add_inbound_dnat by blast
qed

text \<open>A SYN from 10.0.0.9, which no rule admits, to 10.0.0.2:8080, and the answer to \<open>sample_packet\<close>.\<close>

definition sample_stranger :: bytes where
  "sample_stranger =
     [0x45, 0, 0, 40, 0, 1, 0, 0, 64, 6, 102, 197, 10, 0, 0, 9, 10, 0, 0, 2,
      3, 232, 31, 144, 0, 0, 0, 1, 0, 0, 0, 0, 80, 2, 4, 0, 116, 95, 0, 0]"

definition sample_answer :: bytes where
  "sample_answer =
     [0x45, 0, 0, 40, 0, 1, 0, 0, 64, 6, 102, 205, 10, 0, 0, 2, 10, 0, 0, 1,
      1, 187, 3, 232, 0, 0, 0, 1, 0, 0, 0, 2, 80, 18, 4, 0, 146, 42, 0, 0]"

text \<open>The answer's source port after the packets \<open>ps\<close> came in, and the verdicts on them.\<close>

fun inbound_run :: "Manager \<Rightarrow> decoder \<Rightarrow> bytes list \<Rightarrow> (Manager \<times> decoder \<times> bool list) option" where
  "inbound_run m d [] = Some (m, d, [])"
| "inbound_run m d (p # ps) =
     (case filterInbound sample_parser fw_sample_env m d p of
        None \<Rightarrow> None
      | Some (m, d, _, v) \<Rightarrow> map_option (\<lambda>(m, d, vs). (m, d, v # vs)) (inbound_run m d ps))"

definition answer_after :: "Manager \<Rightarrow> bytes list \<Rightarrow> (bool list \<times> u16 option) option" where
  "answer_after m ps =
     (case inbound_run m new_decoder ps of
        None \<Rightarrow> None
      | Some (m, d, vs) \<Rightarrow>
          map_option (\<lambda>(_, _, p, _). (vs, get16_at 20 p)) (filterOutbound sample_parser fw_sample_env m d sample_answer))"

text \<open>
  C36. A dropped packet corrupts a later connection. The original port of a port redirection is kept in
  the pooled decoder until a packet is tracked inbound. On the reachable firewall \<open>sample_dnat_fw\<close>
  (peer 10.0.0.1 allowed, port 8080 redirected to 22), the connection that 10.0.0.1 opens to port 443 is
  answered from port 443; but if a packet to port 8080 from a peer that no rule admits was dropped just
  before by the same decoder, the connection is recorded with original port 8080 and its answer leaves
  with source port 8080.
\<close>

theorem stale_dnat_port:
  "fw_reachable sample_dnat_fw \<and>
   answer_after sample_dnat_fw [sample_packet] = Some ([False], Some 443) \<and>
   answer_after sample_dnat_fw [sample_stranger, sample_packet] = Some ([True, False], Some 8080)"
proof (intro conjI)
  show "answer_after sample_dnat_fw [sample_packet] = Some ([False], Some 443)" by code_simp
  show "answer_after sample_dnat_fw [sample_stranger, sample_packet] = Some ([True, False], Some 8080)" by code_simp
qed (rule sample_dnat_reachable)

end
