(* ===== verification/UspFlows.thy ===== *)
theory UspFlows
  imports UspInbound
begin

text \<open>
  The userspace firewall and its connection trackers together: which flows are known to the trackers
  after any sequence of operations, that only replies to known flows pass without a rule, that replies
  do pass, and that userspace routing does not reach into the overlay network.
\<close>

section \<open>Flows\<close>

datatype flow = TCPFlow ConnKey | UDPFlow ConnKey | ICMPFlow ICMPConnKey

fun reply_to :: "flow \<Rightarrow> flow" where
  "reply_to (TCPFlow k) = TCPFlow (swap_key k)"
| "reply_to (UDPFlow k) = UDPFlow (udp_swap k)"
| "reply_to (ICMPFlow k) = ICMPFlow (icmp_swap k)"

definition packet_flow :: "layers \<Rightarrow> addr \<Rightarrow> addr \<Rightarrow> flow option" where
  "packet_flow l src dst =
     (case idx (decoded l) 1 of
        Some LayerTypeTCP \<Rightarrow> Some (TCPFlow (conn_key src dst (tcp_SrcPort (tcp l), tcp_DstPort (tcp l))))
      | Some LayerTypeUDP \<Rightarrow> Some (UDPFlow (conn_key src dst (udp_SrcPort (udp l), udp_DstPort (udp l))))
      | Some LayerTypeICMPv4 \<Rightarrow> Some (ICMPFlow (icmp_key src dst (icmp4_Id (icmp4 l))))
      | Some LayerTypeICMPv6 \<Rightarrow> Some (ICMPFlow (icmp_key src dst (fst (icmpv6EchoFields l))))
      | _ \<Rightarrow> None)"

fun known :: "Manager \<Rightarrow> flow \<Rightarrow> bool" where
  "known m (TCPFlow k) = (case tcpTracker m of Some t \<Rightarrow> tracked t k | None \<Rightarrow> False)"
| "known m (UDPFlow k) = (case udpTracker m of Some t \<Rightarrow> tracked t k | None \<Rightarrow> False)"
| "known m (ICMPFlow k) = (case icmpTracker m of Some t \<Rightarrow> tracked t k | None \<Rightarrow> False)"

lemma known_cong:
  assumes "udpTracker m' = udpTracker m" "icmpTracker m' = icmpTracker m" "tcpTracker m' = tcpTracker m"
  shows "known m' f = known m f"
  using assms by (cases f) auto

lemma tcp_out_tracked:
  "tcp_TrackOutbound now fid order k flags sz t = Some (t', op) \<Longrightarrow> tracked t' x \<Longrightarrow> tracked t x \<or> x = k"
  using tracked_exec [of "TOut now fid order k flags sz" t t' x] by auto

lemma tcp_in_tracked:
  "tcp_TrackInbound now fid order k flags r sz op t = Some t' \<Longrightarrow> tracked t' x \<Longrightarrow> tracked t x \<or> x = k"
  using tracked_exec [of "TIn now fid order k flags r sz op" t t' x] by auto

lemma tcp_valid_tracked: "tracked (fst (tcp_IsValidInbound now k flags sz t)) x \<Longrightarrow> tracked t x"
  using tracked_exec [of "TValid now k flags sz" t _ x] by auto

lemma udp_out_tracked:
  "udp_TrackOutbound now fid order k sz t = Some (t', op) \<Longrightarrow> tracked t' x \<Longrightarrow> tracked t x \<or> x = k"
  using tracked_udp_exec [of "UOut now fid order k sz" t t' x] by auto

lemma udp_in_tracked:
  "udp_TrackInbound now fid order k r sz op t = Some t' \<Longrightarrow> tracked t' x \<Longrightarrow> tracked t x \<or> x = k"
  using tracked_udp_exec [of "UIn now fid order k r sz op" t t' x] by auto

lemma udp_valid_tracked: "tracked (fst (udp_IsValidInbound now k sz t)) x \<Longrightarrow> tracked t x"
  using tracked_udp_exec [of "UValid now k sz" t _ x] by auto

lemma icmp_out_tracked:
  "icmp_TrackOutbound now fid order k tc sz t = Some t' \<Longrightarrow> tracked t' x \<Longrightarrow> tracked t x \<or> x = k"
  using tracked_icmp_exec [of "IOut now fid order k tc sz" t t' x] by auto

lemma icmp_in_tracked:
  "icmp_TrackInbound now fid order k tc r sz t = Some t' \<Longrightarrow> tracked t' x \<Longrightarrow> tracked t x \<or> x = k"
  using tracked_icmp_exec [of "IIn now fid order k tc r sz" t t' x] by auto

lemma icmp_valid_tracked: "tracked (fst (icmp_IsValidInbound now k ty sz t)) x \<Longrightarrow> tracked t x"
  using tracked_icmp_exec [of "IValid now k ty sz" t _ x] by auto

lemmas tracked_rules = tcp_out_tracked tcp_in_tracked udp_out_tracked udp_in_tracked icmp_out_tracked icmp_in_tracked

lemma known_trackOutbound:
  assumes "trackOutbound e m l src dst p = Some (m', p')" "known m' f"
  shows "known m f \<or> packet_flow l src dst = Some f"
  using assms
  by (cases f)
    (auto simp: trackOutbound_def packet_flow_def Let_def case_prod_beta dest: tracked_rules
      split: option.splits LayerType.splits if_splits prod.splits)

lemma known_trackInbound:
  assumes "trackInbound e m d src dst r = Some (m', d')" "known m' f"
  shows "known m f \<or> packet_flow (lay d) src dst = Some f"
  using assms
  by (cases f)
    (auto simp: trackInbound_def packet_flow_def Let_def case_prod_beta dest: tracked_rules
      split: option.splits LayerType.splits if_splits prod.splits)

lemma known_validTracked:
  assumes "isValidTrackedConnection e m l src dst = Some (m', v)" "known m' f"
  shows "known m f"
  using assms
  by (cases f)
    (auto simp: isValidTrackedConnection_def Let_def case_prod_beta
      dest: tcp_valid_tracked udp_valid_tracked icmp_valid_tracked split: option.splits LayerType.splits)

lemma known_upd [simp]:
  "known (m\<lparr> dropEvents := ev \<rparr>) f = known m f" "known (m\<lparr> injected := j \<rparr>) f = known m f"
  by (rule known_cong; simp)+

lemma known_handleLocal:
  assumes "handleLocalTraffic e m d src dst p = Some (m', d', v)" "known m' f"
  shows "known m f \<or> \<not> v \<and> packet_flow (lay d) src dst = Some f"
  using assms
  by (auto simp: handleLocalTraffic_def handleForwardedLocalTraffic_def Let_def dest: known_trackInbound
      split: option.splits bool.splits if_splits prod.splits)

lemma known_handleRouted:
  assumes "handleRoutedTraffic e m d src dst p = Some (m', d', v)" "known m' f"
  shows "known m f \<or> \<not> v \<and> packet_flow (lay d) src dst = Some f"
  using assms
  by (auto simp: handleRoutedTraffic_def Let_def dest: known_trackInbound
      split: option.splits bool.splits if_splits prod.splits)

lemma known_filter_translated:
  assumes "filter_translated e m d src dst p = Some (m', d', p', v)" "known m' f"
  shows "known m f \<or> \<not> v \<and> packet_flow (lay d) src dst = Some f"
proof -
  obtain m1 ok where t: "(if stateful m then isValidTrackedConnection e m (lay d) src dst else Some (m, False)) = Some (m1, ok)"
    using assms by (cases "if stateful m then isValidTrackedConnection e m (lay d) src dst else Some (m, False)")
      (auto simp: filter_translated_def)
  then have older: "known m1 f \<Longrightarrow> known m f" using known_validTracked by (auto split: if_splits)
  show ?thesis
    using assms t older known_handleLocal [of e m1 d src dst p m' d' v f] known_handleRouted [of e m1 d src dst p m' d' v f]
    by (cases ok) (auto simp: filter_translated_def split: if_splits)
qed

lemma reply_known:
  assumes "tracked_reply e m l src dst"
  shows "\<exists>f. packet_flow l src dst = Some f \<and> known m (reply_to f)"
proof -
  from assms obtain m1 where "isValidTrackedConnection e m l src dst = Some (m1, True)"
    by (auto simp: tracked_reply_def split: option.splits prod.splits)
  then show ?thesis
    by (auto simp: isValidTrackedConnection_def packet_flow_def tracked_def Let_def
        tcp_IsValidInbound_def udp_IsValidInbound_def icmp_IsValidInbound_def
        split: option.splits LayerType.splits if_splits prod.splits)
qed

section \<open>Histories\<close>

text \<open>The packets a firewall has seen, latest first: those given to the outbound filter, and those that left
  the inbound filter with their verdict.\<close>

datatype packet_event = Sent parser bytes | Received parser bytes bool

inductive fw_history :: "packet_event list \<Rightarrow> Manager \<Rightarrow> bool" where
  hist_start: "fw_start m \<Longrightarrow> fw_history [] m"
| hist_control: "fw_history h m \<Longrightarrow> control_step m m' \<Longrightarrow> fw_history h m'"
| hist_sent: "fw_history h m \<Longrightarrow> filterOutbound P e m d p = Some (m', d', p', v) \<Longrightarrow> fw_history (Sent P p # h) m'"
| hist_received: "fw_history h m \<Longrightarrow> filterInbound P e m d p = Some (m', d', p', v) \<Longrightarrow> fw_history (Received P p' v # h) m'"

definition shows_flow :: "parser \<Rightarrow> bytes \<Rightarrow> flow \<Rightarrow> bool" where
  "shows_flow P p f \<longleftrightarrow> (\<exists>d src dst. decodes P p d (src, dst) \<and> packet_flow (lay d) src dst = Some f)"

fun carries :: "packet_event \<Rightarrow> flow \<Rightarrow> bool" where
  "carries (Sent P p) f = shows_flow P p f"
| "carries (Received P p dropped) f = (\<not> dropped \<and> shows_flow P p f)"

lemma history_reachable: "fw_history h m \<Longrightarrow> fw_reachable m"
  by (induction rule: fw_history.induct) (auto intro: reach_start reach_step step_control step_inbound step_outbound)

lemma known_filterInbound:
  assumes "filterInbound P e m d p = Some (m', d', p', v)" "known m' f"
  shows "known m f \<or> carries (Received P p' v) f"
  using assms(1)
proof (cases rule: filterInbound_cases)
  case (filtered d1 src dst)
  then show ?thesis using known_filter_translated [OF filtered(2) assms(2)] by (auto simp: shows_flow_def)
qed (use assms(2) in auto)

lemma known_filterOutbound:
  assumes "filterOutbound P e m d p = Some (m', d', p', v)" "known m' f"
  shows "known m f \<or> carries (Sent P p) f"
proof (cases "m' = m")
  case False
  with assms(1) obtain d1 src dst p1 p2 where dec: "decodePacket P p d = (d1, True)" "extractIPs (lay d1) = Some (src, dst)"
    "trackOutbound e m (lay d1) src dst p1 = Some (m', p2)"
    by (auto simp: filterOutbound_def Let_def split: prod.splits option.splits if_splits)
  then have "decodes P p d1 (src, dst)" by (auto simp: decodes_def)
  then show ?thesis using known_trackOutbound [OF dec(3) assms(2)] by (auto simp: shows_flow_def)
qed (use assms(2) in simp)

definition same_trackers :: "Manager \<Rightarrow> Manager \<Rightarrow> bool" where
  "same_trackers m m' \<longleftrightarrow> udpTracker m' = udpTracker m \<and> icmpTracker m' = icmpTracker m \<and> tcpTracker m' = tcpTracker m"

lemma local_trackers: "same_trackers m (Manager_UpdateLocalIPs ifs m)"
  by (simp add: same_trackers_def Manager_UpdateLocalIPs_def)

lemma same_trackers_known: "same_trackers m m' \<Longrightarrow> known m' f = known m f"
  unfolding same_trackers_def using known_cong by blast

lemma add_route_trackers: "addRouteFiltering h mgmt srcs dst proto sp dp act m = Here (m', r) \<Longrightarrow> same_trackers m m'"
  by (auto simp: addRouteFiltering_def same_trackers_def Let_def split: if_splits option.splits prod.splits)

lemma delete_route_trackers: "deleteRouteRule k m = Here (Inr m') \<Longrightarrow> same_trackers m m'"
  by (auto simp: deleteRouteRule_def same_trackers_def split: if_splits option.splits)

lemma update_set_trackers: "UpdateSet s ps m = Here (Inr m') \<Longrightarrow> same_trackers m m'"
  by (auto simp: UpdateSet_def same_trackers_def Let_def split: if_splits list.splits)

lemma add_peer_trackers: "AddPeerFiltering uuid mgmt ip proto sp dp act m = Inr (m', r) \<Longrightarrow> same_trackers m m'"
  by (erule AddPeerFiltering_cases) (simp add: same_trackers_def Let_def)

lemma delete_peer_trackers: "DeletePeerRule r m = Inr m' \<Longrightarrow> same_trackers m m'"
  by (auto simp: DeletePeerRule_def same_trackers_def map_sum_Inr_iff split: if_splits)

lemma same_trackers_trans: "same_trackers m m' \<Longrightarrow> same_trackers m' m'' \<Longrightarrow> same_trackers m m''"
  by (simp add: same_trackers_def)

lemma block_rule_trackers: "block_rule h native srcs dst m = Inr (m', i) \<Longrightarrow> same_trackers m m'"
proof (cases "addRouteFiltering h [] srcs (prefix_network dst) ProtocolALL None None ActionDrop m")
  case (Here x)
  moreover assume "block_rule h native srcs dst m = Inr (m', i)"
  ultimately show ?thesis using add_route_trackers by (cases x) (auto simp: block_rule_def)
qed (simp add: block_rule_def map_sum_Inr_iff same_trackers_def)

lemma blockInvalidRouted_trackers: "blockInvalidRouted h native m = (m', ids, e) \<Longrightarrow> same_trackers m m'"
  by (auto simp: blockInvalidRouted_def Let_def split: sum.splits if_splits)
    (auto simp: same_trackers_def dest!: block_rule_trackers)

lemma determineRouting_trackers: "determineRouting pf m = (m', e) \<Longrightarrow> same_trackers m m'"
  by (auto simp: determineRouting_def initForwarder_def same_trackers_def Let_def split: if_splits option.splits)

lemma EnableRouting_trackers:
  assumes "EnableRouting h native pf m = (m', e)"
  shows "same_trackers m m'"
proof -
  obtain m1 e1 where det: "determineRouting pf m = (m1, e1)" by (cases "determineRouting pf m")
  obtain m2 ids e2 where blk: "blockInvalidRouted h native m1 = (m2, ids, e2)" by (cases "blockInvalidRouted h native m1")
  show ?thesis
    using assms det blk determineRouting_trackers [OF det] blockInvalidRouted_trackers [OF blk]
    by (cases e1; cases "forwarder m1") (auto simp: EnableRouting_def same_trackers_def)
qed

lemma delete_block_trackers: "same_trackers m (fst (delete_block_rules rs m))"
proof (induction rs arbitrary: m)
  case (Cons r rs)
  show ?case
  proof (cases "deleteRouteRule r m")
    case (Here x)
    then show ?thesis using Cons delete_route_trackers [of r m] same_trackers_trans
      by (cases x) (auto simp: case_prod_beta Let_def)
  qed (use Cons in simp)
qed (simp add: same_trackers_def)

lemma DisableRouting_trackers: "DisableRouting m = (m', es) \<Longrightarrow> same_trackers m m'"
  using delete_block_trackers [of "m\<lparr> routingEnabled := False, nativeRouter := False \<rparr>" "blockRules m"]
  by (auto simp: DisableRouting_def Let_def case_prod_beta same_trackers_def split: if_splits)

lemma nat_trackers:
  "AddInternalDNATMapping a b m = Inr (m' :: Manager) \<Longrightarrow> same_trackers m m'"
  "RemoveInternalDNATMapping a m = Some (Inr m') \<Longrightarrow> same_trackers m m'"
  "AddInboundDNAT a proto op tp m = Inr m' \<Longrightarrow> same_trackers m m'"
  "RemoveInboundDNAT a proto op tp m = Inr m' \<Longrightarrow> same_trackers m m'"
  by (auto simp: AddInternalDNATMapping_def RemoveInternalDNATMapping_def AddInboundDNAT_def RemoveInboundDNAT_def
      addPortRedirection_def removePortRedirection_def Let_def same_trackers_def split: if_splits option.splits)

lemma service_trackers:
  "same_trackers m (RegisterNetstackService proto port m)" "same_trackers m (UnregisterNetstackService proto port m)"
  by (simp_all add: same_trackers_def RegisterNetstackService_def UnregisterNetstackService_def)

lemma hook_trackers:
  "same_trackers m (SetUDPPacketHook a dport hook m)" "same_trackers m (SetTCPPacketHook a dport hook m)"
  by (simp_all add: same_trackers_def SetUDPPacketHook_def SetTCPPacketHook_def)

lemma known_closed: "\<not> known (resetState m) f"
  by (cases f) (auto simp: resetState_def tracked_def udp_Close_def tcp_Close_def icmp_Close_def conns_def split: option.splits)

lemma known_control:
  assumes "control_step m m'" "known m' f"
  shows "known m f"
  using assms(1)
proof cases
  case (step_udp_cleanup ut now ks)
  then show ?thesis using assms(2) tracked_udp_exec [of "UClean now ks" ut] by (cases f) auto
next
  case (step_icmp_cleanup it now iks)
  then show ?thesis using assms(2) tracked_icmp_exec [of "IClean now iks" it] by (cases f) auto
next
  case (step_tcp_cleanup tt now ks)
  then show ?thesis using assms(2) tracked_exec [of "TClean now ks" tt] by (cases f) auto
next
  case step_reset
  then show ?thesis using assms(2) known_closed by blast
qed (use assms(2) same_trackers_known in \<open>metis add_route_trackers delete_route_trackers update_set_trackers
      add_peer_trackers delete_peer_trackers EnableRouting_trackers DisableRouting_trackers nat_trackers
      service_trackers hook_trackers local_trackers\<close>)+

lemma initForwarder_trackers:
  "udpTracker (fst (initForwarder pf m)) = udpTracker m" "icmpTracker (fst (initForwarder pf m)) = icmpTracker m"
  "tcpTracker (fst (initForwarder pf m)) = tcpTracker m"
  by (simp_all add: initForwarder_def split: option.splits)

lemma create_trackers:
  "udpTracker (create pf wg ifs native srv net mtu ut it tt) = (if env_flag (getenv pf) EnvDisableConntrack then None else Some ut)"
  "icmpTracker (create pf wg ifs native srv net mtu ut it tt) = (if env_flag (getenv pf) EnvDisableConntrack then None else Some it)"
  "tcpTracker (create pf wg ifs native srv net mtu ut it tt) = (if env_flag (getenv pf) EnvDisableConntrack then None else Some tt)"
  by (simp_all add: create_def initForwarder_trackers parseCreateEnv_def Let_def)

lemma start_unknown:
  assumes "fw_start m"
  shows "\<not> known m f"
proof -
  from assms obtain pf wg ifs native srv net mtu ut it tt where start: "udp_start ut" "icmp_start it" "tcp_start tt"
    and m: "m = create pf wg ifs native srv net mtu ut it tt" by (auto simp: fw_start_def)
  have "\<not> tracked ut k" "\<not> tracked tt k" "\<not> tracked it ik" for k ik
    using start by (auto simp: udp_start_def icmp_start_def tcp_start_def NewUDPTracker_def NewICMPTracker_def
        NewTCPTracker_def tracked_def conns_def)
  then show ?thesis unfolding m by (cases f) (simp_all add: create_trackers)
qed

lemma history_known: "fw_history h m \<Longrightarrow> known m f \<Longrightarrow> \<exists>ev\<in>set h. carries ev f"
proof (induction arbitrary: f rule: fw_history.induct)
  case (hist_start m)
  then show ?case using start_unknown by blast
next
  case (hist_control h m m')
  then show ?case using known_control by blast
next
  case (hist_sent h m P e d p m' d' p' v)
  then show ?case using known_filterOutbound [OF hist_sent(2)] by fastforce
next
  case (hist_received h m P e d p m' d' p' v)
  then show ?case using known_filterInbound [OF hist_received(2)] by fastforce
qed

text \<open>
  C3. Default deny, end to end. Whatever packets and control calls a firewall has processed since it was
  created, an inbound packet that is neither malformed nor a fragment is let in only if it is addressed
  to this host and the peer rules admit it, or it is addressed elsewhere and routing is left to the host,
  or it answers a flow of which an earlier packet was sent by this host or let in.
\<close>

theorem firewall_no_unsolicited:
  assumes "fw_history h m" "visits_all (pe_rules e)" "filterInbound P e m d p = Some (m', d', p', False)"
    "snd (isValidPacket P p d) = (True, False)"
  shows "\<exists>d1 src dst. decodes P p' d1 (src, dst) \<and>
    (IsLocalIP (localIPs m) dst \<and> peer_allows m src (lay d1) \<or>
     \<not> IsLocalIP (localIPs m) dst \<and> routingEnabled m \<and> nativeRouter m \<or>
     (\<exists>f. packet_flow (lay d1) src dst = Some f \<and> (\<exists>ev\<in>set h. carries ev (reply_to f))))"
  using assms(3)
proof (cases rule: filterInbound_cases)
  case (filtered d1 src dst)
  then have "delivered e m (lay d1) src dst"
    using filter_translated_exact [OF fw_sys.reach_inv [OF history_reachable [OF assms(1)]] assms(2)] by blast
  then show ?thesis
    using filtered(1) reply_known [of e m "lay d1" src dst] history_known [OF assms(1)]
    unfolding delivered_def by (metis (full_types))
qed (use assms(4) in auto)

definition sample_sent :: "(Manager \<times> decoder \<times> bytes \<times> bool) option" where
  "sample_sent = filterOutbound sample_parser fw_sample_env sample_created new_decoder sample_packet"

text \<open>The SYN \<open>sample_packet\<close> is sent, the answer comes back; no rule is installed.\<close>

theorem firewall_no_unsolicited_witness:
  "\<exists>m m' d'. filterInbound sample_parser fw_sample_env m new_decoder sample_answer = Some (m', d', sample_answer, False) \<and>
    fw_history [Sent sample_parser sample_packet] m \<and>
    (\<exists>d1 src dst. decodes sample_parser sample_answer d1 (src, dst) \<and>
    (IsLocalIP (localIPs m) dst \<and> peer_allows m src (lay d1) \<or>
     \<not> IsLocalIP (localIPs m) dst \<and> routingEnabled m \<and> nativeRouter m \<or>
     (\<exists>f. packet_flow (lay d1) src dst = Some f \<and>
       (\<exists>ev\<in>set [Sent sample_parser sample_packet]. carries ev (reply_to f)))))"
proof -
  have "case sample_sent of Some (m, d, p, v) \<Rightarrow>
      map_option (\<lambda>(_, _, p, v). (p, v)) (filterInbound sample_parser fw_sample_env m new_decoder sample_answer) = Some (sample_answer, False)
    | None \<Rightarrow> False" by code_simp
  then obtain m d p v m' d' where sent: "sample_sent = Some (m, d, p, v)"
    and run: "filterInbound sample_parser fw_sample_env m new_decoder sample_answer = Some (m', d', sample_answer, False)"
    by (auto split: option.splits)
  have start: "fw_start sample_created"
    unfolding fw_start_def sample_created_def udp_start_def icmp_start_def tcp_start_def by blast
  have hist: "fw_history [Sent sample_parser sample_packet] m"
    by (rule hist_sent [OF hist_start [OF start] sent [unfolded sample_sent_def]])
  have "snd (isValidPacket sample_parser sample_answer new_decoder) = (True, False)" by code_simp
  from firewall_no_unsolicited [OF hist sample_visits run this] hist run show ?thesis by blast
qed

section \<open>Answers come back\<close>

lemma swap_swap [simp]: "swap_key (swap_key k) = k" "udp_swap (udp_swap k) = k"
  by (simp_all add: swap_key_def udp_swap_def)

lemma insert_conn_gget: "insert_conn ev order k c t = Some t' \<Longrightarrow> gget (conns t') k = Some c"
  by (auto simp: insert_conn_def Let_def conns_def split: option.splits)

lemma conns_StoreEvents [simp]: "conns (StoreEvents es t) = conns t"
  by (simp add: StoreEvents_def conns_def)

lemma insert_conn_timeout:
  "insert_conn udp_evictOneLocked order k c t = Some t' \<Longrightarrow> udp_timeout t' = udp_timeout t"
  by (auto simp: insert_conn_def udp_evictOneLocked_def evict_sampled_def Let_def StoreEvents_def set_conns_def
      split: option.splits if_splits)

lemma udp_out_then_reply:
  assumes "udp_TrackOutbound now fid order k sz t = Some (t', op)" "\<not> tracked t (udp_swap k)" "\<not> tracked t k"
    "now' - now \<le> udp_timeout t"
  shows "snd (udp_IsValidInbound now' (udp_swap k) sz' t')"
proof -
  from assms(1-3) obtain t1 where t1: "insert_conn udp_evictOneLocked order k (new_udp_conn now fid Egress k 0 sz) t = Some t1"
    "t' = StoreEvents [udp_sendEvent TypeStart [] (new_udp_conn now fid Egress k 0 sz)] t1"
    by (auto simp: udp_TrackOutbound_def udp_track_def udp_updateIfExists_def tracked_def Let_def)
  then show ?thesis
    using insert_conn_gget [OF t1(1)] insert_conn_timeout [OF t1(1)] assms(4)
    by (auto simp: udp_IsValidInbound_def timeoutExceeded_def new_udp_conn_def UpdateLastSeen_def UpdateCounters_def StoreEvents_def
        conns_def)
qed

lemma tcp_syn_then_reply:
  assumes "tcp_TrackOutbound now fid order k TCPSyn sz t = Some (t', op)" "\<not> tracked t (swap_key k)" "\<not> tracked t k"
  shows "snd (tcp_IsValidInbound now' (swap_key k) (TCPSyn OR TCPAck) sz' t')"
proof -
  have fl: "has_flag TCPSyn TCPSyn" "isValidFlagCombination TCPSyn" "\<not> has_flag TCPSyn TCPAck"
    "has_flag (TCPSyn OR TCPAck) TCPSyn" "has_flag (TCPSyn OR TCPAck) TCPAck" "\<not> has_flag (TCPSyn OR TCPAck) TCPRst"
    "isValidFlagCombination (TCPSyn OR TCPAck)" by code_simp+
  obtain c es where up: "updateState now TCPSyn Egress sz (new_tcp_conn fid Egress k 0) = (c, es)"
    by (cases "updateState now TCPSyn Egress sz (new_tcp_conn fid Egress k 0)")
  note c = new_conn_spec [OF up fl(1,2)]
  from assms up fl obtain t1 where t1: "insert_conn tcp_evictOneLocked order k c (StoreEvents es t) = Some t1"
    "t' = StoreEvents [tcp_sendEvent TypeStart c []] t1"
    by (auto simp: tcp_TrackOutbound_def tcp_track_def tcp_updateIfExists_def tracked_def Let_def)
  have "\<not> tombstone c" using c(4) by (simp add: tcp_fin_def)
  then show ?thesis
    using insert_conn_gget [OF t1(1)] t1(2) c(7) fl
    by (simp add: tcp_IsValidInbound_def IsSupersededBy_def isValidStateForFlags_def Let_def)
qed

text \<open>A request and its answer: a TCP SYN and a SYN with ACK, or two datagrams within the UDP timeout.\<close>

definition request_answer :: "penv \<Rightarrow> penv \<Rightarrow> Manager \<Rightarrow> flow \<Rightarrow> layers \<Rightarrow> layers \<Rightarrow> bool" where
  "request_answer e e' m f l l' =
     (case f of
        TCPFlow _ \<Rightarrow> getTCPFlags (tcp l) = TCPSyn \<and> getTCPFlags (tcp l') = TCPSyn OR TCPAck
      | UDPFlow _ \<Rightarrow> (case udpTracker m of Some t \<Rightarrow> pe_now e' - pe_now e \<le> udp_timeout t | None \<Rightarrow> False)
      | ICMPFlow _ \<Rightarrow> False)"

lemma tracked_answer:
  assumes "trackOutbound e m l a b p = Some (m1, p1)" "packet_flow l a b = Some f" "packet_flow l' b a = Some (reply_to f)"
    "\<not> known m f" "\<not> known m (reply_to f)" "request_answer e e' m f l l'"
  shows "\<exists>m2. isValidTrackedConnection e' m1 l' b a = Some (m2, True)"
proof (cases f)
  case (TCPFlow k)
  then have l: "idx (decoded l) 1 = Some LayerTypeTCP" "k = conn_key a b (tcp_SrcPort (tcp l), tcp_DstPort (tcp l))"
    and l': "idx (decoded l') 1 = Some LayerTypeTCP" "swap_key k = conn_key b a (tcp_SrcPort (tcp l'), tcp_DstPort (tcp l'))"
    using assms(2,3) by (auto simp: packet_flow_def split: option.splits LayerType.splits)
  obtain t t1 op where t: "tcpTracker m = Some t" "tcpTracker m1 = Some t1"
    "tcp_TrackOutbound (pe_now e) (pe_flow e) (pe_conns e) k TCPSyn (pe_size e) t = Some (t1, op)"
    using assms(1,6) TCPFlow l by (auto simp: trackOutbound_def request_answer_def Let_def split: option.splits if_splits)
  from tcp_syn_then_reply [OF t(3), of "pe_now e'" "pe_size e'"] assms(4,5) TCPFlow t
  have "snd (tcp_IsValidInbound (pe_now e') (swap_key k) (TCPSyn OR TCPAck) (pe_size e') t1)" by simp
  then show ?thesis using l' t(2) assms(6) TCPFlow
    by (auto simp: isValidTrackedConnection_def request_answer_def case_prod_beta)
next
  case (UDPFlow k)
  then have l: "idx (decoded l) 1 = Some LayerTypeUDP" "k = conn_key a b (udp_SrcPort (udp l), udp_DstPort (udp l))"
    and l': "idx (decoded l') 1 = Some LayerTypeUDP" "udp_swap k = conn_key b a (udp_SrcPort (udp l'), udp_DstPort (udp l'))"
    using assms(2,3) by (auto simp: packet_flow_def split: option.splits LayerType.splits)
  obtain t t1 op where t: "udpTracker m = Some t" "udpTracker m1 = Some t1"
    "udp_TrackOutbound (pe_now e) (pe_flow e) (pe_conns e) k (pe_size e) t = Some (t1, op)"
    using assms(1) l by (auto simp: trackOutbound_def Let_def split: option.splits if_splits)
  from udp_out_then_reply [OF t(3), of "pe_now e'" "pe_size e'"] assms(4,5,6) UDPFlow t
  have "snd (udp_IsValidInbound (pe_now e') (udp_swap k) (pe_size e') t1)" by (simp add: request_answer_def)
  then show ?thesis using l' t(2) by (auto simp: isValidTrackedConnection_def case_prod_beta)
next
  case (ICMPFlow k)
  then show ?thesis using assms(6) by (simp add: request_answer_def)
qed

lemma frame_dnat: "frame m m' \<Longrightarrow> portDNATEnabled m' = portDNATEnabled m" "frame m m' \<Longrightarrow> dnatEnabled m' = dnatEnabled m"
  by (cases m; cases m'; simp add: frame_def)+

text \<open>
  C16. Answers come back. With connection tracking on and no address translation, once a TCP SYN or a UDP
  datagram has passed the outbound filter on a flow not tracked before, the SYN with ACK or the datagram
  that answers it (within the UDP timeout) on the reversed addresses and ports is delivered unchanged,
  whatever rules are installed: no allow rule is needed and no deny rule stops it.
\<close>

theorem answer_delivered:
  assumes "stateful m" "portDNATEnabled m = False" "dnatEnabled m = False"
    and "decodePacket P p d = (d1, True)" "filterOutbound P e m d p = Some (m1, d1, p1, False)"
    and "extractIPs (lay d1) = Some (a, b)" "is_valid a" "packet_flow (lay d1) a b = Some f"
    and "known m f = False" "known m (reply_to f) = False"
    and "isValidPacket P q d2 = (d3, True, False)" "extractIPs (lay d3) = Some (b, a)" "is_valid b"
    and "packet_flow (lay d3) b a = Some (reply_to f)" "request_answer e e' m f (lay d1) (lay d3)"
  shows "\<exists>m2. filterInbound P e' m1 d2 q = Some (m2, d3, q, False)"
proof -
  have two: "2 \<le> length (decoded (lay d1))"
    using assms(8) by (auto simp: packet_flow_def idx_def split: option.splits if_splits)
  with assms(4-7) obtain p0 p2 where track: "trackOutbound e m (lay d1) a b p0 = Some (m1, p2)"
    by (auto simp: filterOutbound_def Let_def split: option.splits if_splits)
  then have fr: "frame m m1" using trackOutbound_frame by blast
  from tracked_answer [OF track assms(8,14) _ _ assms(15)] assms(9,10)
  obtain m2 where "isValidTrackedConnection e' m1 (lay d3) b a = Some (m2, True)" by blast
  then have "filter_translated e' m1 d3 b a q = Some (m2, d3, q, False)"
    using assms(1) frame_fields(7) [OF fr] by (simp add: filter_translated_def)
  then show ?thesis
    using assms(2,3,11-13) frame_dnat [OF fr]
    by (simp add: filterInbound_def translateInboundPortDNAT_def translateInboundReverse_def redecode_def)
qed

theorem answer_delivered_witness:
  "\<exists>m1 d1 p1 m2 d3. sample_sent = Some (m1, d1, p1, False) \<and>
     filterInbound sample_parser fw_sample_env m1 new_decoder sample_answer = Some (m2, d3, sample_answer, False)"
proof -
  let ?f = "TCPFlow \<lparr> SrcIP = Addr4 0x0A000001, DstIP = Addr4 0x0A000002, SrcPort = 1000, DstPort = 443 \<rparr>"
  define d1 where "d1 = fst (decodePacket sample_parser sample_packet new_decoder)"
  define d3 where "d3 = fst (isValidPacket sample_parser sample_answer new_decoder)"
  have "map_option (\<lambda>(_, d, _, v). (d, v)) sample_sent = Some (d1, False)" unfolding d1_def by code_simp
  then obtain m1 p1 where sent: "sample_sent = Some (m1, d1, p1, False)" by auto
  have c: "decodePacket sample_parser sample_packet new_decoder = (d1, True)"
    "isValidPacket sample_parser sample_answer new_decoder = (d3, True, False)"
    "extractIPs (lay d1) = Some (Addr4 0x0A000001, Addr4 0x0A000002)" "extractIPs (lay d3) = Some (Addr4 0x0A000002, Addr4 0x0A000001)"
    "packet_flow (lay d1) (Addr4 0x0A000001) (Addr4 0x0A000002) = Some ?f"
    "packet_flow (lay d3) (Addr4 0x0A000002) (Addr4 0x0A000001) = Some (reply_to ?f)"
    "request_answer fw_sample_env fw_sample_env sample_created ?f (lay d1) (lay d3)"
    unfolding d1_def d3_def by code_simp+
  have r: "stateful sample_created" "portDNATEnabled sample_created = False" "dnatEnabled sample_created = False"
    "known sample_created ?f = False" "known sample_created (reply_to ?f) = False"
    "is_valid (Addr4 0x0A000001)" "is_valid (Addr4 0x0A000002)" by code_simp+
  show ?thesis
    using sent answer_delivered [OF r(1-3) c(1) sent [unfolded sample_sent_def] c(3) r(6) c(5) r(4,5) c(2,4) r(7) c(6,7)] by blast
qed

section \<open>The overlay is not routed\<close>

lemma set_insert_by [simp]: "set (insert_by lt x ys) = insert x (set ys)"
  by (induction ys) auto

lemma set_sort_by [simp]: "set (sort_by lt xs) = set xs"
  by (induction xs) (auto simp: sort_by_def)

lemma drop_bit_all: "drop_bit LENGTH('a) (w :: 'a::len word) = 0"
  by (rule bit_word_eqI) (auto simp: bit_simps dest: bit_imp_le_length)

lemma any_prefix_contains: "prefix_contains (any_prefix (Addr4 0)) (Addr4 x)" "prefix_contains (any_prefix (Addr6 0)) (Addr6 y)"
  using drop_bit_all [of x] drop_bit_all [of y]
  by (simp_all add: prefix_contains_def prefix_valid_def any_prefix_def)

definition add_route_step :: "Manager \<Rightarrow> Manager \<Rightarrow> bool" where
  "add_route_step m m' \<longleftrightarrow>
     (\<exists>h mgmt srcs dst proto sp dp act r. addRouteFiltering h mgmt srcs dst proto sp dp act m = Here (m', r) \<and>
        port_ok sp \<and> port_ok dp \<and> (act = ActionAccept \<or> act = ActionDrop))"

lemma add_route_keeps: "addRouteFiltering h mgmt srcs dst proto sp dp act m = Here (m', r) \<Longrightarrow> set (routeRules m) \<subseteq> set (routeRules m')"
  by (auto simp: addRouteFiltering_def RouteRules_Sort_def Let_def split: if_splits option.splits prod.splits)

lemma added_routes_keep: "add_route_step\<^sup>*\<^sup>* m m' \<Longrightarrow> set (routeRules m) \<subseteq> set (routeRules m')"
proof (induction rule: rtranclp_induct)
  case (step y z)
  then show ?case using add_route_keeps unfolding add_route_step_def by (meson subset_trans)
qed simp

text \<open>The rule that blocks routed traffic to the prefix \<open>dst\<close>.\<close>

definition blocks :: "prefix list \<Rightarrow> prefix \<Rightarrow> RouteRule \<Rightarrow> bool" where
  "blocks srcs dst r \<longleftrightarrow> action r = ActionDrop \<and> rr_protoLayer r = layerTypeAll \<and> srcPort r = None \<and> dstPort r = None \<and>
     destinations r = [dst] \<and> set (sources r) = set srcs"

lemma block_rule_installs:
  assumes "block_rule h native srcs dst m = Inr (m', i)" "\<not> delegates m" "prefix_valid dst"
    "gget (routeRulesMap m) (fst (GenerateRouteRuleKey h srcs (prefix_network dst) ProtocolALL None None ActionDrop)) = None"
  shows "\<exists>r\<in>set (routeRules m'). blocks srcs dst r"
proof -
  obtain k srcs' where key: "GenerateRouteRuleKey h srcs (prefix_network dst) ProtocolALL None None ActionDrop = (k, srcs')"
    by (cases "GenerateRouteRuleKey h srcs (prefix_network dst) ProtocolALL None None ActionDrop")
  then have "set srcs' = set srcs" by (auto simp: GenerateRouteRuleKey_def SortPrefixes_def Let_def)
  then show ?thesis
    using assms key
    by (auto simp: block_rule_def addRouteFiltering_def blocks_def RouteRules_Sort_def IsPrefix_def prefix_network_def
        protoToLayer_def ProtocolALL_def ProtocolTCP_def ProtocolUDP_def ProtocolICMP_def Let_def)
qed

lemma added_routes_inv: "add_route_step\<^sup>*\<^sup>* m m' \<Longrightarrow> rules_inv m \<Longrightarrow> rules_inv m'"
  by (induction rule: rtranclp_induct) (auto simp: add_route_step_def dest: rules_inv_add)

lemma blocked_not_allowed:
  assumes "r \<in> set (routeRules m)" "blocks srcs net r" "prefix_contains net dst" "s \<in> set srcs" "prefix_contains s src"
  shows "\<not> route_allows m src dst l"
proof -
  have "route_covers r src dst t sp dp" for t sp dp
    using assms(2-5) by (auto simp: blocks_def route_covers_def layer_in_def port_in_def)
  then show ?thesis using assms(1,2) unfolding route_allows_def blocks_def by blast
qed

lemma block_rule_keeps:
  assumes "block_rule h native srcs dst m = Inr (m', i)"
  shows "set (routeRules m) \<subseteq> set (routeRules m')" "delegates m' = delegates m"
proof -
  have "set (routeRules m) \<subseteq> set (routeRules m') \<and> delegates m' = delegates m"
  proof (cases "addRouteFiltering h [] srcs (prefix_network dst) ProtocolALL None None ActionDrop m")
    case ToNative
    then show ?thesis using assms by (auto simp: block_rule_def map_sum_Inr_iff)
  next
    case (Here x)
    then have "delegates (fst x) = delegates m"
      by (auto simp: addRouteFiltering_def delegates_def Let_def split: if_splits option.splits prod.splits)
    with Here show ?thesis using assms add_route_keeps by (cases x) (auto simp: block_rule_def)
  qed
  then show "set (routeRules m) \<subseteq> set (routeRules m')" "delegates m' = delegates m" by auto
qed

lemma blockInvalidRouted_delegates: "blockInvalidRouted h native m = (m', ids, e) \<Longrightarrow> delegates m' = delegates m"
  by (auto simp: blockInvalidRouted_def Let_def split: sum.splits if_splits) (metis block_rule_keeps(2))+

lemma EnableRouting_blocks:
  assumes "EnableRouting h native pf m = (m', None)" "forwarder m'" "delegates m' = False"
    "prefix_valid (wg_Network (wgAddress m))" "routeRulesMap m = []"
  shows "\<exists>srcs. any_prefix (Addr4 0) \<in> set srcs \<and> (\<exists>r\<in>set (routeRules m'). blocks srcs (wg_Network (wgAddress m)) r)"
proof -
  obtain m1 e1 where det: "determineRouting pf m = (m1, e1)" by (cases "determineRouting pf m")
  obtain m2 ids e2 where blk: "blockInvalidRouted h native m1 = (m2, ids, e2)" by (cases "blockInvalidRouted h native m1")
  show ?thesis
  proof (cases "e1 = None \<and> forwarder m1")
    case False
    then show ?thesis using assms(1,2) det by (auto simp: EnableRouting_def split: option.splits if_splits)
  next
    case True
    then have m': "m' = m2\<lparr> blockRules := ids \<rparr>" "e2 = None" using assms(1) det blk by (auto simp: EnableRouting_def)
    let ?srcs = "any_prefix (Addr4 0) # (if prefix_valid (wg_IPv6Net (wgAddress m1)) then [any_prefix (Addr6 0)] else [])"
    obtain m3 i where b4: "block_rule h native ?srcs (wg_Network (wgAddress m1)) m1 = Inr (m3, i)"
      using blk m'(2) by (cases "block_rule h native ?srcs (wg_Network (wgAddress m1)) m1") (auto simp: blockInvalidRouted_def Let_def)
    have "set (routeRules m3) \<subseteq> set (routeRules m2)"
      using blk b4 m'(2) by (auto simp: blockInvalidRouted_def Let_def split: if_splits sum.splits) (metis block_rule_keeps(1) subsetD)
    moreover have "\<not> delegates m1"
      using assms(3) m' blockInvalidRouted_delegates [OF blk] by (auto simp: delegates_def)
    moreover have "wgAddress m1 = wgAddress m" "routeRulesMap m1 = []" using determineRouting_tables [OF det] assms(5) by auto
    ultimately show ?thesis
      using block_rule_installs [OF b4] assms(4) m'(1) by (intro exI [of _ ?srcs]) fastforce
  qed
qed

text \<open>
  C17. Userspace routing does not lead into the overlay. When routing is enabled on a firewall without
  route rules and the userspace router is the one in charge, then, however many route rules are added
  afterwards, a routed IPv4 packet to an address of the WireGuard network is not handed to the forwarder,
  even if an accept rule covers it.
\<close>

theorem overlay_not_routed:
  assumes "fw_reachable m" "EnableRouting h native pf m = (m1, None)" "forwarder m1" "delegates m1 = False"
    "routeRulesMap m = []" "add_route_step\<^sup>*\<^sup>* m1 m2"
    "prefix_contains (wg_Network (wgAddress m)) dst" "handleRoutedTraffic e m2 d (Addr4 src) dst p = Some (m3, d3, v)"
  shows "injected m3 = injected m2"
proof -
  have "prefix_valid (wg_Network (wgAddress m))" using assms(7) by (simp add: prefix_contains_def)
  from EnableRouting_blocks [OF assms(2-4) this assms(5)] obtain srcs r where
    "any_prefix (Addr4 0) \<in> set srcs" "r \<in> set (routeRules m2)" "blocks srcs (wg_Network (wgAddress m)) r"
    using added_routes_keep [OF assms(6)] by blast
  then have "\<not> route_allows m2 (Addr4 src) dst (lay d)"
    using blocked_not_allowed assms(7) any_prefix_contains(1) by blast
  moreover have "rules_inv m2"
    using added_routes_inv [OF assms(6)] rules_inv_EnableRouting [OF fw_sys.reach_inv [OF assms(1)] assms(2)] by blast
  ultimately show ?thesis using handleRouted_exact [OF _ assms(8)] by simp
qed

text \<open>Routing is enabled on the new firewall, then a rule accepts everything from anywhere to anywhere.\<close>

definition sample_enabled :: "Manager \<times> fw_err option" where
  "sample_enabled = EnableRouting (\<lambda>s. s) (\<lambda>_. Inl NotSupported) sample_platform sample_created"

definition sample_open_route :: "(Manager \<times> RouteRule) outcome" where
  "sample_open_route = addRouteFiltering (\<lambda>s. s) [] [any_prefix (Addr4 0)] (prefix_network (any_prefix (Addr4 0)))
     ProtocolALL None None ActionAccept (fst sample_enabled)"

definition sample_routed :: "Manager \<Rightarrow> (Manager \<times> decoder \<times> bool) option" where
  "sample_routed m = handleRoutedTraffic fw_sample_env m (fst (decodePacket sample_parser sample_packet new_decoder))
     (Addr4 0x0A000001) (Addr4 0x0A000007) sample_packet"

theorem overlay_not_routed_witness:
  "\<exists>m2 r m3 d3 v. sample_open_route = Here (m2, r) \<and> sample_routed m2 = Some (m3, d3, v) \<and> injected m3 = injected m2"
proof -
  have en: "EnableRouting (\<lambda>s. s) (\<lambda>_. Inl NotSupported) sample_platform sample_created = (fst sample_enabled, None)"
    "forwarder (fst sample_enabled)" "delegates (fst sample_enabled) = False" "routeRulesMap sample_created = []"
    "prefix_contains (wg_Network (wgAddress sample_created)) (Addr4 0x0A000007)"
  proof -
    have "snd sample_enabled = None" by code_simp
    then show "EnableRouting (\<lambda>s. s) (\<lambda>_. Inl NotSupported) sample_platform sample_created = (fst sample_enabled, None)"
      by (cases sample_enabled) (simp add: sample_enabled_def)
  qed code_simp+
  have "case sample_open_route of Here (m2, r) \<Rightarrow> sample_routed m2 \<noteq> None | ToNative \<Rightarrow> False" by code_simp
  then obtain m2 r m3 d3 v where run: "sample_open_route = Here (m2, r)" "sample_routed m2 = Some (m3, d3, v)"
    by (auto split: outcome.splits)
  have "add_route_step (fst sample_enabled) m2"
    unfolding add_route_step_def using run(1) [unfolded sample_open_route_def] by (fastforce simp: port_ok_def)
  then have steps: "add_route_step\<^sup>*\<^sup>* (fst sample_enabled) m2" by blast
  have "fw_reachable sample_created"
    by (rule reach_start, unfold fw_start_def sample_created_def udp_start_def icmp_start_def tcp_start_def) blast
  from overlay_not_routed [OF this en(1-4) steps en(5) run(2) [unfolded sample_routed_def]] run show ?thesis by blast
qed

section \<open>Updating a set of destinations\<close>

text \<open>
  A set is resolved to 93.184.216.34 while an accept rule uses it; then a drop rule for the same set and
  another source is added, and the set is resolved to 93.184.216.35 as well.
\<close>

definition sample_set :: fwset where
  "sample_set = \<lparr> set_hash = [1, 2, 3, 4], set_comment = [] \<rparr>"

definition sample_set_rule :: "u32 \<Rightarrow> int \<Rightarrow> Action \<Rightarrow> Manager \<Rightarrow> Manager option" where
  "sample_set_rule src bits act m =
     (case addRouteFiltering (\<lambda>s. s) [] [\<lparr> pfx_addr = Addr4 src, pfx_bits = bits \<rparr>]
             \<lparr> net_Set = sample_set, net_Prefix = \<lparr> pfx_addr = NoAddr, pfx_bits = -1 \<rparr> \<rparr> ProtocolALL None None act m of
        Here (m, _) \<Rightarrow> Some m | ToNative \<Rightarrow> None)"

definition sample_set_update :: "u32 \<Rightarrow> Manager \<Rightarrow> Manager option" where
  "sample_set_update dst m =
     (case UpdateSet sample_set [\<lparr> pfx_addr = Addr4 dst, pfx_bits = 32 \<rparr>] m of Here (Inr m) \<Rightarrow> Some m | _ \<Rightarrow> None)"

definition sample_set_pass :: "u32 \<Rightarrow> Manager \<Rightarrow> bool option" where
  "sample_set_pass dst m = map_option snd (routeACLsPass m (Addr4 0x0A000009) (Addr4 dst) LayerTypeTCP 1000 443)"

text \<open>
  C35. Updating a set can forget destinations. After the set has been resolved to 93.184.216.34, the accept
  rule for source 10.0.0.0/8 passes a packet from 10.0.0.9 to that address. A drop rule for the same set
  and source 192.168.0.0/16 is added and the set is then also resolved to 93.184.216.35: the packet from
  10.0.0.9 to 93.184.216.34 no longer passes, although no rule or destination was removed and the drop
  rule does not cover it.
\<close>

theorem set_update_forgets:
  "\<exists>m1 m2 m3 m4. sample_set_rule 0x0A000000 8 ActionAccept (fst sample_enabled) = Some m1 \<and>
    sample_set_update 0x5DB8D822 m1 = Some m2 \<and> sample_set_pass 0x5DB8D822 m2 = Some True \<and>
    sample_set_rule 0xC0A80000 16 ActionDrop m2 = Some m3 \<and> sample_set_pass 0x5DB8D822 m3 = Some True \<and>
    sample_set_update 0x5DB8D823 m3 = Some m4 \<and> sample_set_pass 0x5DB8D822 m4 = Some False"
proof -
  let ?run = "do {
      m1 \<leftarrow> sample_set_rule 0x0A000000 8 ActionAccept (fst sample_enabled);
      m2 \<leftarrow> sample_set_update 0x5DB8D822 m1;
      m3 \<leftarrow> sample_set_rule 0xC0A80000 16 ActionDrop m2;
      m4 \<leftarrow> sample_set_update 0x5DB8D823 m3;
      Some (sample_set_pass 0x5DB8D822 m2, sample_set_pass 0x5DB8D822 m3, sample_set_pass 0x5DB8D822 m4) }"
  have "?run = Some (Some True, Some True, Some False)" by code_simp
  then show ?thesis by (auto simp: bind_eq_Some_conv)
qed

section \<open>Without connection tracking\<close>

definition untracked :: "Manager \<Rightarrow> bool" where
  "untracked m \<longleftrightarrow> udpTracker m = None \<and> icmpTracker m = None \<and> tcpTracker m = None"

definition stateless_start :: "platform \<Rightarrow> Manager \<Rightarrow> bool" where
  "stateless_start pf m \<longleftrightarrow> (\<exists>wg ifs native srv net mtu ut it tt. m = create pf wg ifs native srv net mtu ut it tt)"

lemma same_untracked: "same_trackers m m' \<Longrightarrow> untracked m' = untracked m"
  by (simp add: same_trackers_def untracked_def)

lemma untracked_control:
  assumes "control_step m m'" "untracked m"
  shows "untracked m'"
  using assms(1)
proof cases
  case step_reset
  then show ?thesis using assms(2) by (simp add: untracked_def resetState_def)
next
  case step_udp_cleanup
  then show ?thesis using assms(2) by (simp add: untracked_def)
next
  case step_icmp_cleanup
  then show ?thesis using assms(2) by (simp add: untracked_def)
next
  case step_tcp_cleanup
  then show ?thesis using assms(2) by (simp add: untracked_def)
qed (use assms(2) same_untracked in \<open>metis add_route_trackers delete_route_trackers update_set_trackers
      add_peer_trackers delete_peer_trackers EnableRouting_trackers DisableRouting_trackers nat_trackers
      service_trackers hook_trackers local_trackers\<close>)+

lemma untracked_trackers:
  "untracked m \<Longrightarrow> trackOutbound e m l src dst p = Some (m', p') \<Longrightarrow> m' = m"
  "untracked m \<Longrightarrow> trackInbound e m d src dst rid = Some (m', d') \<Longrightarrow> untracked m'"
  "untracked m \<Longrightarrow> isValidTrackedConnection e m l src dst = Some (m', v) \<Longrightarrow> m' = m"
  by (auto simp: untracked_def trackOutbound_def trackInbound_def isValidTrackedConnection_def Let_def
      split: option.splits LayerType.splits)

lemma untracked_upd [simp]:
  "untracked (m\<lparr> injected := j \<rparr>) = untracked m" "untracked (m\<lparr> dropEvents := ev \<rparr>) = untracked m"
  by (simp_all add: untracked_def)

lemma untracked_filterOutbound:
  "filterOutbound P e m d p = Some (m', d', p', v) \<Longrightarrow> untracked m \<Longrightarrow> untracked m'"
  by (auto simp: filterOutbound_def Let_def dest: untracked_trackers(1)
      split: prod.splits option.splits if_splits)

lemma untracked_filter_translated:
  assumes "filter_translated e m d src dst p = Some (m', d', p', v)" "untracked m"
  shows "untracked m'"
proof -
  obtain m1 ok where t: "(if stateful m then isValidTrackedConnection e m (lay d) src dst else Some (m, False)) = Some (m1, ok)"
    using assms(1) by (cases "if stateful m then isValidTrackedConnection e m (lay d) src dst else Some (m, False)")
      (auto simp: filter_translated_def)
  then have "m1 = m" using untracked_trackers(3) [OF assms(2)] by (auto split: if_splits)
  moreover have "handleLocalTraffic e m d src dst p = Some (m', d', v) \<Longrightarrow> untracked m'"
    using assms(2)
    by (auto simp: handleLocalTraffic_def handleForwardedLocalTraffic_def Let_def dest: untracked_trackers(2)
        split: option.splits bool.splits if_splits)
  moreover have "handleRoutedTraffic e m d src dst p = Some (m', d', v) \<Longrightarrow> untracked m'"
    using assms(2)
    by (auto simp: handleRoutedTraffic_def Let_def dest: untracked_trackers(2) split: option.splits bool.splits if_splits)
  ultimately show ?thesis
    using assms t by (cases ok) (auto simp: filter_translated_def split: if_splits)
qed

lemma untracked_filterInbound:
  assumes "filterInbound P e m d p = Some (m', d', p', v)" "untracked m"
  shows "untracked m'"
  using assms(1) by (cases rule: filterInbound_cases) (use assms(2) untracked_filter_translated in auto)

lemma untracked_step: "fw_step m m' \<Longrightarrow> untracked m \<Longrightarrow> untracked m'"
  by (erule fw_step.cases) (auto dest: untracked_control untracked_filterInbound untracked_filterOutbound)

lemma stateless_untracked:
  "env_flag (getenv pf) EnvDisableConntrack \<Longrightarrow> reach (stateless_start pf) fw_step m \<Longrightarrow> untracked m"
  by (rotate_tac 1) (induction rule: reach.induct,
      auto simp: stateless_start_def untracked_def [of "create _ _ _ _ _ _ _ _ _ _"] create_trackers intro: untracked_step)

text \<open>
  C37. Without connection tracking the firewall crashes on traffic. With \<open>NB_DISABLE_CONNTRACK\<close> the manager
  is created without trackers, but outbound packets are tracked all the same: whatever control calls and
  packets a firewall created that way has processed since, every TCP, UDP or ICMP packet with a valid
  source that is to be sent panics, unless a packet hook consumes it.
\<close>

theorem stateless_panics:
  assumes "env_flag (getenv pf) EnvDisableConntrack" "reach (stateless_start pf) fw_step m"
    "decodePacket P p d = (d', True)" "decoded (lay d') = [n, t]" "extractIPs (lay d') = Some (src, dst)" "is_valid src"
    "t = LayerTypeTCP \<or> t = LayerTypeUDP \<or> t = LayerTypeICMPv4 \<or> t = LayerTypeICMPv6"
    "\<not> (t = LayerTypeUDP \<and> HookMatches (udpHookOut m) dst (udp_DstPort (udp (lay d'))) p)"
    "\<not> (t = LayerTypeTCP \<and> HookMatches (tcpHookOut m) dst (tcp_DstPort (tcp (lay d'))) p)"
  shows "filterOutbound P e m d p = None"
proof -
  have "trackOutbound e m (lay d') src dst p1 = None" for p1
    using stateless_untracked [OF assms(1,2)] assms(4,7) by (auto simp: trackOutbound_def idx_def untracked_def)
  then show ?thesis
    using assms(3-6,8,9) by (auto simp: filterOutbound_def Let_def split: option.splits)
qed

definition stateless_platform :: platform where
  "stateless_platform = sample_platform\<lparr> getenv := (\<lambda>s. if s = ''NB_DISABLE_CONNTRACK'' then ''true'' else []) \<rparr>"

definition stateless_fw :: Manager where
  "stateless_fw = SetUDPPacketHook (Addr4 0x0A000001) 53 None (create stateless_platform sample_wg (Some []) False False False 1280
     (NewUDPTracker 0 100) (NewICMPTracker 0 100) (NewTCPTracker 0 1 1 1 100))"

theorem stateless_panics_witness:
  "reach (stateless_start stateless_platform) fw_step stateless_fw \<and>
   filterOutbound sample_parser fw_sample_env stateless_fw new_decoder sample_answer = None"
proof
  show reach: "reach (stateless_start stateless_platform) fw_step stateless_fw"
    unfolding stateless_fw_def
    by (rule reach_step [where step = fw_step, OF reach_start step_control [OF step_udp_hook]])
      (unfold stateless_start_def, blast)
  show "filterOutbound sample_parser fw_sample_env stateless_fw new_decoder sample_answer = None"
  proof (rule stateless_panics [OF _ reach])
    show "env_flag (getenv stateless_platform) EnvDisableConntrack" by code_simp
    show "decodePacket sample_parser sample_answer new_decoder = (fst (decodePacket sample_parser sample_answer new_decoder), True)"
      "decoded (lay (fst (decodePacket sample_parser sample_answer new_decoder))) = [LayerTypeIPv4, LayerTypeTCP]"
      "extractIPs (lay (fst (decodePacket sample_parser sample_answer new_decoder))) = Some (Addr4 0x0A000002, Addr4 0x0A000001)"
      "is_valid (Addr4 0x0A000002)"
      "\<not> (LayerTypeTCP = LayerTypeTCP \<and> HookMatches (tcpHookOut stateless_fw) (Addr4 0x0A000001)
         (tcp_DstPort (tcp (lay (fst (decodePacket sample_parser sample_answer new_decoder))))) sample_answer)" by code_simp+
  qed simp_all
qed

end
