(* ===== verification/RefCounter.thy ===== *)
theory RefCounter
  imports Prelude "HOL-Library.Monad_Syntax" "HOL-Library.Multiset"
begin

text \<open>
  Reference counting of routes, allowed addresses and address sets
  (\<open>client/internal/routemanager/refcounter/refcounter.go\<close>) and of IP forwarding
  (\<open>client/internal/routemanager/ipfwdstate/ipfwdstate.go\<close>).

  \<^item> The two functions a counter is created with act on the system. They are the record \<open>hooks\<close>; what they
    answer may depend on everything that was called before, which the counter's field \<open>calls\<close> records.
  \<^item> A nil map is \<open>None\<close>: it reads as empty, and writing to it is a panic, the result \<open>None\<close>.
  \<^item> \<open>holds\<close> is what the calls have left in the system. The lemmas show that it is what the counter
    counts, and that the counts are the references taken under the identifiers.
\<close>

section \<open>The counter\<close>

datatype 'o add_result = Added 'o | ErrIgnore | AddFailed string

datatype ('k, 'o) call = AddOK 'k 'o | AddRefused 'k | RemoveOK 'k 'o | RemoveFailed 'k

record 'o Ref =
  Count :: int
  Out :: 'o

record ('k, 'o) Counter =
  refCountMap :: "('k, 'o Ref) gmap option"
  idMap :: "(string, 'k list) gmap option"
  calls :: "('k, 'o) call list"

record ('k, 'i, 'o) hooks =
  add_fn :: "'k \<Rightarrow> 'i \<Rightarrow> ('k, 'o) call list \<Rightarrow> 'o add_result"
  remove_fn :: "'k \<Rightarrow> 'o \<Rightarrow> ('k, 'o) call list \<Rightarrow> string option"
  zero_out :: 'o

abbreviation entries :: "('k, 'v) gmap option \<Rightarrow> ('k, 'v) gmap" where
  "entries m \<equiv> (case m of None \<Rightarrow> [] | Some m \<Rightarrow> m)"

definition NewCounter :: "('k, 'o) Counter" where
  "NewCounter = \<lparr> refCountMap = Some [], idMap = Some [], calls = [] \<rparr>"

definition LoadData :: "('k, 'o) Counter \<Rightarrow> ('k, 'o) Counter \<Rightarrow> ('k, 'o) Counter" where
  "LoadData existingCounter c = c\<lparr> refCountMap := refCountMap existingCounter, idMap := idMap existingCounter \<rparr>"

definition Counter_Get :: "'k \<Rightarrow> ('k, 'o) Counter \<Rightarrow> 'o Ref option" where
  "Counter_Get key c = gget (entries (refCountMap c)) key"

definition store_ref :: "'k \<Rightarrow> 'o Ref \<Rightarrow> ('k, 'o) Counter \<Rightarrow> ('k, 'o) Counter option" where
  "store_ref key ref c = map_option (\<lambda>m. c\<lparr> refCountMap := Some (gput key ref m) \<rparr>) (refCountMap c)"

text \<open>The counter and the reference returned, or the error of the function called.\<close>

definition increment ::
    "('k, 'i, 'o) hooks \<Rightarrow> 'k \<Rightarrow> 'i \<Rightarrow> ('k, 'o) Counter \<Rightarrow> (('k, 'o) Counter \<times> (string + 'o Ref)) option" where
  "increment H key inp c =
     (let ref = (case Counter_Get key c of Some r \<Rightarrow> r | None \<Rightarrow> \<lparr> Count = 0, Out = zero_out H \<rparr>)
      in if Count ref = 0
         then case add_fn H key inp (calls c) of
                ErrIgnore \<Rightarrow> Some (c\<lparr> calls := calls c @ [AddRefused key] \<rparr>, Inr ref)
              | AddFailed e \<Rightarrow> Some (c\<lparr> calls := calls c @ [AddRefused key] \<rparr>, Inl e)
              | Added out \<Rightarrow>
                  (let ref = ref\<lparr> Out := out, Count := Count ref + 1 \<rparr>
                   in map_option (\<lambda>c. (c, Inr ref)) (store_ref key ref (c\<lparr> calls := calls c @ [AddOK key out] \<rparr>)))
         else let ref = ref\<lparr> Count := Count ref + 1 \<rparr>
              in map_option (\<lambda>c. (c, Inr ref)) (store_ref key ref c))"

definition Increment ::
    "('k, 'i, 'o) hooks \<Rightarrow> 'k \<Rightarrow> 'i \<Rightarrow> ('k, 'o) Counter \<Rightarrow> (('k, 'o) Counter \<times> (string + 'o Ref)) option" where
  "Increment H key inp c = increment H key inp c"

definition IncrementWithID ::
    "('k, 'i, 'o) hooks \<Rightarrow> string \<Rightarrow> 'k \<Rightarrow> 'i \<Rightarrow> ('k, 'o) Counter \<Rightarrow> (('k, 'o) Counter \<times> (string + 'o Ref)) option" where
  "IncrementWithID H i key inp c =
     (case increment H key inp c of
        None \<Rightarrow> None
      | Some (c, Inl e) \<Rightarrow> Some (c, Inl e)
      | Some (c, Inr ref) \<Rightarrow>
          map_option (\<lambda>m. (c\<lparr> idMap := Some (gput i ((case gget m i of Some ks \<Rightarrow> ks | None \<Rightarrow> []) @ [key]) m) \<rparr>, Inr ref))
            (idMap c))"

definition decrement ::
    "('k, 'i, 'o) hooks \<Rightarrow> 'k \<Rightarrow> ('k, 'o) Counter \<Rightarrow> (('k, 'o) Counter \<times> string option) option" where
  "decrement H key c =
     (case Counter_Get key c of
        None \<Rightarrow> Some (c, None)
      | Some ref \<Rightarrow>
          if Count ref = 1
          then case remove_fn H key (Out ref) (calls c) of
                 Some e \<Rightarrow> Some (c\<lparr> calls := calls c @ [RemoveFailed key] \<rparr>, Some e)
               | None \<Rightarrow> Some (c\<lparr> calls := calls c @ [RemoveOK key (Out ref)],
                                refCountMap := map_option (gdel key) (refCountMap c) \<rparr>, None)
          else map_option (\<lambda>c. (c, None)) (store_ref key (ref\<lparr> Count := Count ref - 1 \<rparr>) c))"

definition Decrement ::
    "('k, 'i, 'o) hooks \<Rightarrow> 'k \<Rightarrow> ('k, 'o) Counter \<Rightarrow> (('k, 'o) Counter \<times> string option) option" where
  "Decrement H key c = decrement H key c"

fun decrement_all ::
    "('k, 'i, 'o) hooks \<Rightarrow> 'k list \<Rightarrow> ('k, 'o) Counter \<Rightarrow> (('k, 'o) Counter \<times> string list) option" where
  "decrement_all H [] c = Some (c, [])"
| "decrement_all H (key # keys) c = do {
     (c, e) \<leftarrow> decrement H key c;
     (c, es) \<leftarrow> decrement_all H keys c;
     Some (c, case e of None \<Rightarrow> es | Some e \<Rightarrow> e # es)
   }"

definition DecrementWithID ::
    "('k, 'i, 'o) hooks \<Rightarrow> string \<Rightarrow> ('k, 'o) Counter \<Rightarrow> (('k, 'o) Counter \<times> string list) option" where
  "DecrementWithID H i c = do {
     (c, es) \<leftarrow> decrement_all H (case gget (entries (idMap c)) i of Some ks \<Rightarrow> ks | None \<Rightarrow> []) c;
     Some (c\<lparr> idMap := map_option (gdel i) (idMap c) \<rparr>, es)
   }"

text \<open>\<open>order\<close> is the order in which Go iterates over the keys.\<close>

fun flush_loop ::
    "('k, 'i, 'o) hooks \<Rightarrow> 'k list \<Rightarrow> ('k, 'o) Counter \<Rightarrow> ('k, 'o) Counter \<times> string list" where
  "flush_loop H [] c = (c, [])"
| "flush_loop H (key # keys) c =
     (case Counter_Get key c of
        None \<Rightarrow> flush_loop H keys c
      | Some ref \<Rightarrow>
          (case remove_fn H key (Out ref) (calls c) of
             None \<Rightarrow> flush_loop H keys (c\<lparr> calls := calls c @ [RemoveOK key (Out ref)] \<rparr>)
           | Some e \<Rightarrow>
               (let (c, es) = flush_loop H keys (c\<lparr> calls := calls c @ [RemoveFailed key] \<rparr>) in (c, e # es))))"

definition Counter_Clear :: "('k, 'o) Counter \<Rightarrow> ('k, 'o) Counter" where
  "Counter_Clear c = c\<lparr> refCountMap := map_option (\<lambda>_. []) (refCountMap c), idMap := map_option (\<lambda>_. []) (idMap c) \<rparr>"

definition Counter_Flush ::
    "('k, 'i, 'o) hooks \<Rightarrow> 'k list \<Rightarrow> ('k, 'o) Counter \<Rightarrow> ('k, 'o) Counter \<times> string list" where
  "Counter_Flush H order c = (let (c, es) = flush_loop H order c in (Counter_Clear c, es))"

text \<open>
  \<open>UnmarshalJSON\<close>: the decoded object, in which an absent or null map is \<open>None\<close>, or the decoding error.
  The two assignments to the local variable \<open>temp\<close> that follow have no effect on the counter.
\<close>

definition Counter_UnmarshalJSON ::
    "string + (('k, 'o Ref) gmap option \<times> (string, 'k list) gmap option) \<Rightarrow> ('k, 'o) Counter \<Rightarrow> ('k, 'o) Counter \<times> string option" where
  "Counter_UnmarshalJSON dec c =
     (case dec of
        Inl e \<Rightarrow> (c, Some e)
      | Inr (refs, ids) \<Rightarrow> (c\<lparr> refCountMap := refs, idMap := ids \<rparr>, None))"

definition Counter_MarshalJSON ::
    "('k, 'o) Counter \<Rightarrow> ('k, 'o Ref) gmap option \<times> (string, 'k list) gmap option" where
  "Counter_MarshalJSON c = (refCountMap c, idMap c)"

section \<open>IP forwarding\<close>

record IPForwardingState =
  enabledCounter :: int

definition NewIPForwardingState :: IPForwardingState where
  "NewIPForwardingState = \<lparr> enabledCounter = 0 \<rparr>"

text \<open>The state, whether the system call was made, and its error.\<close>

definition RequestForwarding :: "string option \<Rightarrow> IPForwardingState \<Rightarrow> IPForwardingState \<times> bool \<times> string option" where
  "RequestForwarding sysctl f =
     (if enabledCounter f \<noteq> 0 then (f\<lparr> enabledCounter := enabledCounter f + 1 \<rparr>, False, None)
      else case sysctl of
             Some e \<Rightarrow> (f, True, Some e)
           | None \<Rightarrow> (f\<lparr> enabledCounter := 1 \<rparr>, True, None))"

definition ReleaseForwarding :: "IPForwardingState \<Rightarrow> IPForwardingState" where
  "ReleaseForwarding f =
     (if enabledCounter f = 0 then f
      else if enabledCounter f > 1 then f\<lparr> enabledCounter := enabledCounter f - 1 \<rparr>
      else f\<lparr> enabledCounter := 0 \<rparr>)"

section \<open>What the system holds\<close>

fun apply_call :: "('k \<rightharpoonup> 'o) \<Rightarrow> ('k, 'o) call \<Rightarrow> ('k \<rightharpoonup> 'o)" where
  "apply_call m (AddOK k out) = m(k \<mapsto> out)"
| "apply_call m (RemoveOK k out) = m(k := None)"
| "apply_call m _ = m"

definition holds :: "('k, 'o) call list \<Rightarrow> 'k \<rightharpoonup> 'o" where
  "holds cs = foldl apply_call Map.empty cs"

text \<open>A key is added only when the system does not hold it, and removed only with what adding it returned.\<close>

fun call_ok :: "('k \<rightharpoonup> 'o) \<Rightarrow> ('k, 'o) call \<Rightarrow> bool" where
  "call_ok m (AddOK k out) = (m k = None)"
| "call_ok m (RemoveOK k out) = (m k = Some out)"
| "call_ok m _ = True"

definition bracketed :: "('k, 'o) call list \<Rightarrow> bool" where
  "bracketed cs \<longleftrightarrow> (\<forall>n<length cs. call_ok (holds (take n cs)) (cs ! n))"

lemma holds_Nil [simp]: "holds [] = Map.empty"
  by (simp add: holds_def)

lemma holds_snoc [simp]: "holds (cs @ [x]) = apply_call (holds cs) x"
  by (simp add: holds_def)

lemma bracketed_Nil [simp]: "bracketed []"
  by (simp add: bracketed_def)

lemma bracketed_snoc [simp]: "bracketed (cs @ [x]) \<longleftrightarrow> bracketed cs \<and> call_ok (holds cs) x"
  unfolding bracketed_def by (auto simp: nth_append less_Suc_eq)

definition refs_inv :: "('k, 'o Ref) gmap \<Rightarrow> ('k, 'o) call list \<Rightarrow> bool" where
  "refs_inv m cs \<longleftrightarrow> bracketed cs \<and> (\<forall>k. holds cs k = map_option Out (gget m k)) \<and>
     (\<forall>k r. gget m k = Some r \<longrightarrow> 1 \<le> Count r)"

definition rc_inv :: "('k, 'o) Counter \<Rightarrow> bool" where
  "rc_inv c \<longleftrightarrow> (\<exists>m ids. refCountMap c = Some m \<and> idMap c = Some ids \<and> refs_inv m (calls c))"

lemma rc_invE:
  assumes "rc_inv c"
  obtains m ids where "refCountMap c = Some m" "idMap c = Some ids" "refs_inv m (calls c)"
  using assms by (auto simp: rc_inv_def)

definition count_of :: "('k, 'o) Counter \<Rightarrow> 'k \<Rightarrow> int" where
  "count_of c k = (case Counter_Get k c of None \<Rightarrow> 0 | Some r \<Rightarrow> Count r)"

text \<open>The two elementary operations, in a state that satisfies the invariant.\<close>

lemma increment_spec:
  assumes "rc_inv c"
  obtains (refused) c' r where "increment H key inp c = Some (c', r)" "rc_inv c'" "idMap c' = idMap c" "count_of c' = count_of c"
      "case r of Inl e \<Rightarrow> add_fn H key inp (calls c) = AddFailed e | Inr _ \<Rightarrow> add_fn H key inp (calls c) = ErrIgnore"
  | (counted) c' ref where "increment H key inp c = Some (c', Inr ref)" "rc_inv c'" "idMap c' = idMap c"
      "count_of c' = (count_of c)(key := count_of c key + 1)" "Count ref = count_of c key + 1"
proof -
  from assms obtain m ids where c: "refCountMap c = Some m" "idMap c = Some ids" "refs_inv m (calls c)" by (rule rc_invE)
  show thesis
  proof (cases "gget m key")
    case (Some r)
    then have pos: "0 \<le> Count r" "Count r \<noteq> 0" using c(3) by (force simp: refs_inv_def)+
    then have inc: "increment H key inp c =
        Some (c\<lparr> refCountMap := Some (gput key (r\<lparr> Count := Count r + 1 \<rparr>) m) \<rparr>, Inr (r\<lparr> Count := Count r + 1 \<rparr>))"
      using c Some by (simp add: increment_def Counter_Get_def store_ref_def Let_def)
    show thesis
      by (rule counted [OF inc])
        (use c Some pos in \<open>auto simp: rc_inv_def refs_inv_def count_of_def Counter_Get_def fun_eq_iff\<close>)
  next
    case None
    note get = c(1) None
    show thesis
    proof (cases "add_fn H key inp (calls c)")
      case (Added out)
      let ?r = "\<lparr> Count = 1, Out = out \<rparr>"
      have inc: "increment H key inp c =
          Some (c\<lparr> calls := calls c @ [AddOK key out], refCountMap := Some (gput key ?r m) \<rparr>, Inr ?r)"
        using get Added by (simp add: increment_def Counter_Get_def store_ref_def Let_def)
      show thesis
        by (rule counted [OF inc])
          (use c None in \<open>auto simp: rc_inv_def refs_inv_def count_of_def Counter_Get_def fun_eq_iff\<close>)
    next
      case ErrIgnore
      have inc: "increment H key inp c = Some (c\<lparr> calls := calls c @ [AddRefused key] \<rparr>, Inr \<lparr> Count = 0, Out = zero_out H \<rparr>)"
        using get ErrIgnore by (simp add: increment_def Counter_Get_def Let_def)
      show thesis
        by (rule refused [OF inc])
          (use c ErrIgnore in \<open>auto simp: rc_inv_def refs_inv_def count_of_def Counter_Get_def fun_eq_iff\<close>)
    next
      case (AddFailed e)
      have inc: "increment H key inp c = Some (c\<lparr> calls := calls c @ [AddRefused key] \<rparr>, Inl e)"
        using get AddFailed by (simp add: increment_def Counter_Get_def Let_def)
      show thesis
        by (rule refused [OF inc])
          (use c AddFailed in \<open>auto simp: rc_inv_def refs_inv_def count_of_def Counter_Get_def fun_eq_iff\<close>)
    qed
  qed
qed

lemma decrement_spec:
  assumes "rc_inv c"
  obtains (kept) c' e where "decrement H key c = Some (c', Some e)" "rc_inv c'" "idMap c' = idMap c" "count_of c' = count_of c"
      "\<exists>out cs. remove_fn H key out cs = Some e"
  | (released) c' where "decrement H key c = Some (c', None)" "rc_inv c'" "idMap c' = idMap c"
      "count_of c' = (count_of c)(key := max 0 (count_of c key - 1))"
proof -
  from assms obtain m ids where c: "refCountMap c = Some m" "idMap c = Some ids" "refs_inv m (calls c)" by (rule rc_invE)
  show thesis
  proof (cases "gget m key")
    case None
    have dec: "decrement H key c = Some (c, None)" using c None by (simp add: decrement_def Counter_Get_def)
    show thesis
      by (rule released [OF dec]) (use assms c None in \<open>auto simp: count_of_def Counter_Get_def fun_eq_iff\<close>)
  next
    case (Some r)
    then have pos: "1 \<le> Count r" using c(3) by (auto simp: refs_inv_def)
    show thesis
    proof (cases "Count r = 1")
      case True
      show thesis
      proof (cases "remove_fn H key (Out r) (calls c)")
        case None
        have dec: "decrement H key c =
            Some (c\<lparr> calls := calls c @ [RemoveOK key (Out r)], refCountMap := Some (gdel key m) \<rparr>, None)"
          using c Some True None by (simp add: decrement_def Counter_Get_def)
        show thesis
          by (rule released [OF dec])
            (use c Some True in \<open>auto simp: rc_inv_def refs_inv_def count_of_def Counter_Get_def fun_eq_iff\<close>)
      next
        case (Some e)
        have dec: "decrement H key c = Some (c\<lparr> calls := calls c @ [RemoveFailed key] \<rparr>, Some e)"
          using c \<open>gget m key = Some r\<close> True Some by (simp add: decrement_def Counter_Get_def)
        show thesis
          by (rule kept [OF dec])
            (use c Some in \<open>auto simp: rc_inv_def refs_inv_def count_of_def Counter_Get_def fun_eq_iff\<close>)
      qed
    next
      case False
      with pos have "1 < Count r" by simp
      have dec: "decrement H key c = Some (c\<lparr> refCountMap := Some (gput key (r\<lparr> Count := Count r - 1 \<rparr>) m) \<rparr>, None)"
        using c Some False by (simp add: decrement_def Counter_Get_def store_ref_def)
      show thesis
        by (rule released [OF dec])
          (use c Some False \<open>1 < Count r\<close> in \<open>auto simp: rc_inv_def refs_inv_def count_of_def Counter_Get_def fun_eq_iff\<close>)
    qed
  qed
qed

section \<open>References under identifiers\<close>

definition outstanding :: "(string, 'k list) gmap \<Rightarrow> 'k multiset" where
  "outstanding ids = mset (concat (map snd ids))"

lemma outstanding_gput:
  "gwf ids \<Longrightarrow>
   outstanding (gput i ((case gget ids i of Some ks \<Rightarrow> ks | None \<Rightarrow> []) @ [k]) ids) = add_mset k (outstanding ids)"
  by (induction ids) (auto simp: outstanding_def split: option.splits)

lemma outstanding_gdel:
  "gwf ids \<Longrightarrow>
   outstanding ids = outstanding (gdel i ids) + mset (case gget ids i of Some ks \<Rightarrow> ks | None \<Rightarrow> [])"
proof (induction ids)
  case (Cons p ids)
  obtain j ks where p: "p = (j, ks)" by (cases p)
  show ?case
  proof (cases "j = i")
    case True
    then have "gdel i ids = ids" using Cons.prems p by (intro gdel_idem) auto
    then show ?thesis using True p by (simp add: outstanding_def)
  next
    case False
    then show ?thesis using Cons p by (simp add: outstanding_def)
  qed
qed (simp add: outstanding_def)

definition exact_inv :: "('k, 'o) Counter \<Rightarrow> bool" where
  "exact_inv c \<longleftrightarrow> rc_inv c \<and> gwf (entries (idMap c)) \<and>
     (\<forall>k. count_of c k = int (count (outstanding (entries (idMap c))) k))"

text \<open>Functions that never ask to be ignored and whose removals succeed. Adding may fail.\<close>

definition plain_hooks :: "('k, 'i, 'o) hooks \<Rightarrow> bool" where
  "plain_hooks H \<longleftrightarrow> (\<forall>k inp cs. add_fn H k inp cs \<noteq> ErrIgnore) \<and> (\<forall>k out cs. remove_fn H k out cs = None)"

inductive id_step :: "('k, 'i, 'o) hooks \<Rightarrow> ('k, 'o) Counter \<Rightarrow> ('k, 'o) Counter \<Rightarrow> bool" for H where
  acquire: "IncrementWithID H i k inp c = Some (c', r) \<Longrightarrow> id_step H c c'"
| release: "DecrementWithID H i c = Some (c', es) \<Longrightarrow> id_step H c c'"

lemma decrement_all_plain:
  assumes "plain_hooks H" "rc_inv c"
  shows "\<exists>c'. decrement_all H ks c = Some (c', []) \<and> rc_inv c' \<and> idMap c' = idMap c \<and>
    (\<forall>k. count_of c' k = max 0 (count_of c k - int (count_list ks k)))"
  using assms(2)
proof (induction ks arbitrary: c)
  case Nil
  have "0 \<le> count_of c k" for k using Nil by (auto simp: rc_inv_def refs_inv_def count_of_def Counter_Get_def split: option.splits)
      (meson order_trans zero_le_one)
  with Nil show ?case by auto
next
  case (Cons a ks)
  show ?case
  proof (cases rule: decrement_spec [OF Cons.prems, of H a, case_names kept released])
    case (kept c' e)
    then show ?thesis using assms(1) by (auto simp: plain_hooks_def)
  next
    case (released c')
    then obtain c'' where "decrement_all H ks c' = Some (c'', [])" "rc_inv c''" "idMap c'' = idMap c'"
      "\<forall>k. count_of c'' k = max 0 (count_of c' k - int (count_list ks k))" using Cons.IH by blast
    then show ?thesis using released by (intro exI [of _ c'']) auto
  qed
qed

lemma exact_acquire:
  assumes "exact_inv c" "plain_hooks H"
  shows "\<exists>c' r. IncrementWithID H i k inp c = Some (c', r) \<and> exact_inv c' \<and>
    (case r of Inl _ \<Rightarrow> idMap c' = idMap c
     | Inr ref \<Rightarrow> outstanding (entries (idMap c')) = add_mset k (outstanding (entries (idMap c))) \<and>
         Count ref = count_of c' k)"
proof -
  from assms(1) have inv: "rc_inv c" and wf: "gwf (entries (idMap c))"
    and cnt: "\<forall>k. count_of c k = int (count (outstanding (entries (idMap c))) k)" by (auto simp: exact_inv_def)
  obtain ids where ids: "idMap c = Some ids" using inv by (auto simp: rc_inv_def)
  show ?thesis
  proof (cases rule: increment_spec [OF inv, of H k inp, case_names refused counted])
    case (refused c' r)
    then obtain e where "r = Inl e" using assms(2) by (cases r) (auto simp: plain_hooks_def)
    then show ?thesis using refused wf cnt by (auto simp: IncrementWithID_def exact_inv_def)
  next
    case (counted c' ref)
    let ?c = "c'\<lparr> idMap := Some (gput i ((case gget ids i of Some ks \<Rightarrow> ks | None \<Rightarrow> []) @ [k]) ids) \<rparr>"
    have "IncrementWithID H i k inp c = Some (?c, Inr ref)"
      using counted ids by (auto simp: IncrementWithID_def)
    moreover have "count_of ?c = count_of c'" by (simp add: count_of_def Counter_Get_def fun_eq_iff)
    moreover have "rc_inv ?c" using counted(2) by (auto simp: rc_inv_def)
    ultimately show ?thesis using counted wf cnt ids by (auto simp: exact_inv_def outstanding_gput)
  qed
qed

lemma exact_release:
  assumes "exact_inv c" "plain_hooks H"
  shows "\<exists>c'. DecrementWithID H i c = Some (c', []) \<and> exact_inv c' \<and>
    outstanding (entries (idMap c)) = outstanding (entries (idMap c')) +
      mset (case gget (entries (idMap c)) i of Some ks \<Rightarrow> ks | None \<Rightarrow> [])"
proof -
  from assms(1) have inv: "rc_inv c" and wf: "gwf (entries (idMap c))"
    and cnt: "\<forall>k. count_of c k = int (count (outstanding (entries (idMap c))) k)" by (auto simp: exact_inv_def)
  obtain ids where ids: "idMap c = Some ids" using inv by (auto simp: rc_inv_def)
  let ?ks = "case gget ids i of Some ks \<Rightarrow> ks | None \<Rightarrow> []"
  from decrement_all_plain [OF assms(2) inv, of ?ks] obtain c' where c': "decrement_all H ?ks c = Some (c', [])" "rc_inv c'"
    "idMap c' = idMap c" "\<forall>k. count_of c' k = max 0 (count_of c k - int (count_list ?ks k))" by blast
  let ?c = "c'\<lparr> idMap := Some (gdel i ids) \<rparr>"
  have split: "outstanding ids = outstanding (gdel i ids) + mset ?ks" using wf ids by (intro outstanding_gdel) simp
  have "count_of c' k = int (count (outstanding (gdel i ids)) k)" for k
    using c'(4) cnt ids split by (simp add: count_mset)
  moreover have "count_of ?c = count_of c'" by (simp add: count_of_def Counter_Get_def fun_eq_iff)
  moreover have "rc_inv ?c" using c'(2) by (auto simp: rc_inv_def)
  ultimately have "exact_inv ?c" using wf ids by (simp add: exact_inv_def)
  moreover have "DecrementWithID H i c = Some (?c, [])" using c'(1,3) ids by (simp add: DecrementWithID_def)
  ultimately show ?thesis using split ids by auto
qed

lemma exact_start: "exact_inv NewCounter"
  by (simp add: exact_inv_def rc_inv_def refs_inv_def NewCounter_def count_of_def Counter_Get_def outstanding_def)

lemma exact_step:
  assumes "plain_hooks H" "exact_inv c" "id_step H c c'"
  shows "exact_inv c'"
  using assms(3)
proof cases
  case (acquire i k inp r)
  then show ?thesis using exact_acquire [OF assms(2,1), of i k inp] by auto
next
  case (release i es)
  then show ?thesis using exact_release [OF assms(2,1), of i] by auto
qed

lemma exact_reach: "plain_hooks H \<Longrightarrow> reach (\<lambda>c. c = NewCounter) (id_step H) c \<Longrightarrow> exact_inv c"
  by (rule invariant_system.reach_inv, unfold_locales) (auto intro: exact_start exact_step)

section \<open>Any use of a counter\<close>

inductive rc_step :: "('k, 'i, 'o) hooks \<Rightarrow> ('k, 'o) Counter \<Rightarrow> ('k, 'o) Counter \<Rightarrow> bool" for H where
  rc_increment: "Increment H k inp c = Some (c', r) \<Longrightarrow> rc_step H c c'"
| rc_decrement: "Decrement H k c = Some (c', e) \<Longrightarrow> rc_step H c c'"
| rc_acquire: "IncrementWithID H i k inp c = Some (c', r) \<Longrightarrow> rc_step H c c'"
| rc_release: "DecrementWithID H i c = Some (c', es) \<Longrightarrow> rc_step H c c'"
| rc_flush: "Counter_Flush H order c = (c', []) \<Longrightarrow> distinct order \<Longrightarrow>
    set order = set (gkeys (entries (refCountMap c))) \<Longrightarrow> rc_step H c c'"

lemma decrement_all_inv:
  assumes "rc_inv c"
  shows "\<exists>c' es. decrement_all H ks c = Some (c', es) \<and> rc_inv c'"
  using assms
proof (induction ks arbitrary: c)
  case (Cons a ks)
  obtain c1 e where "decrement H a c = Some (c1, e)" "rc_inv c1"
    by (cases rule: decrement_spec [OF Cons.prems, of H a, case_names kept released]) auto
  then show ?case using Cons.IH [of c1] by auto
qed simp

lemma rc_acquire_inv:
  assumes "rc_inv c"
  shows "\<exists>c' r. IncrementWithID H i k inp c = Some (c', r) \<and> rc_inv c'"
proof -
  obtain c1 r where c1: "increment H k inp c = Some (c1, r)" "rc_inv c1" "idMap c1 = idMap c"
    by (cases rule: increment_spec [OF assms, of H k inp, case_names refused counted]) auto
  then show ?thesis using assms by (cases r) (auto simp: IncrementWithID_def rc_inv_def)
qed

lemma rc_release_inv:
  assumes "rc_inv c"
  shows "\<exists>c' es. DecrementWithID H i c = Some (c', es) \<and> rc_inv c'"
proof -
  obtain c1 es where "decrement_all H (case gget (entries (idMap c)) i of Some ks \<Rightarrow> ks | None \<Rightarrow> []) c = Some (c1, es)" "rc_inv c1"
    using decrement_all_inv [OF assms] by blast
  then show ?thesis by (auto simp: DecrementWithID_def rc_inv_def)
qed

text \<open>A flush without errors removes every key it visits, with what adding it returned.\<close>

lemma flush_loop_clean:
  assumes "flush_loop H ks c = (c', [])" "distinct ks" "bracketed (calls c)"
    "\<forall>k\<in>set ks. holds (calls c) k = map_option Out (Counter_Get k c)"
  shows "refCountMap c' = refCountMap c \<and> idMap c' = idMap c \<and> bracketed (calls c') \<and>
    (\<forall>k. holds (calls c') k = (if k \<in> set ks then None else holds (calls c) k))"
  using assms
proof (induction ks arbitrary: c)
  case (Cons a ks)
  show ?case
  proof (cases "Counter_Get a c")
    case None
    then show ?thesis using Cons by auto
  next
    case (Some r)
    let ?c = "c\<lparr> calls := calls c @ [RemoveOK a (Out r)] \<rparr>"
    have run: "flush_loop H ks ?c = (c', [])"
      using Cons.prems(1) Some by (auto split: option.splits prod.splits)
    have get: "Counter_Get k ?c = Counter_Get k c" for k by (simp add: Counter_Get_def)
    have a: "holds (calls c) a = Some (Out r)" "a \<notin> set ks" "distinct ks" using Cons.prems Some by auto
    have "\<forall>k\<in>set ks. holds (calls ?c) k = map_option Out (Counter_Get k ?c)"
      using Cons.prems(4) a(2) unfolding get by auto
    from Cons.IH [OF run a(3) _ this] a(1) Cons.prems(3) show ?thesis by auto
  qed
qed simp

lemma rc_flush_inv:
  assumes "rc_inv c" "Counter_Flush H order c = (c', [])" "distinct order" "set order = set (gkeys (entries (refCountMap c)))"
  shows "rc_inv c' \<and> holds (calls c') = Map.empty"
proof -
  from assms(1) obtain m ids where c: "refCountMap c = Some m" "idMap c = Some ids" "refs_inv m (calls c)" by (rule rc_invE)
  obtain c1 where loop: "flush_loop H order c = (c1, [])" "c' = Counter_Clear c1"
    using assms(2) by (auto simp: Counter_Flush_def split: prod.splits)
  note fl = flush_loop_clean [OF loop(1) assms(3)]
  have "holds (calls c1) k = None" for k
    using fl c assms(4) gget_None_iff [of m k] by (cases "k \<in> set order") (auto simp: refs_inv_def Counter_Get_def)
  then have "holds (calls c1) = Map.empty" by (simp add: fun_eq_iff)
  moreover have "refCountMap c1 = Some m" "idMap c1 = Some ids" "bracketed (calls c1)"
    using fl c by (auto simp: refs_inv_def Counter_Get_def)
  ultimately show ?thesis by (simp add: loop(2) Counter_Clear_def rc_inv_def refs_inv_def)
qed

lemma rc_inv_start: "rc_inv NewCounter"
  by (simp add: rc_inv_def refs_inv_def NewCounter_def)

lemma rc_inv_step:
  assumes "rc_inv c" "rc_step H c c'"
  shows "rc_inv c'"
  using assms(2)
proof cases
  case (rc_increment k inp r)
  then show ?thesis
    by (cases rule: increment_spec [OF assms(1), of H k inp, case_names refused counted]) (auto simp: Increment_def)
next
  case (rc_decrement k e)
  then show ?thesis
    by (cases rule: decrement_spec [OF assms(1), of H k, case_names kept released]) (auto simp: Decrement_def)
next
  case (rc_acquire i k inp r)
  then show ?thesis using rc_acquire_inv [OF assms(1), of H i k inp] by auto
next
  case (rc_release i es)
  then show ?thesis using rc_release_inv [OF assms(1), of H i] by auto
next
  case (rc_flush order)
  then show ?thesis using rc_flush_inv [OF assms(1)] by blast
qed

interpretation rc_sys: invariant_system "\<lambda>c. c = NewCounter" "rc_step H" rc_inv for H
  by unfold_locales (auto intro: rc_inv_start rc_inv_step)

section \<open>Properties\<close>

text \<open>
  C14. A counter mirrors the system. Whatever the functions it was created with answer, and whatever
  sequence of increments, decrements, grouped increments and decrements and error-free flushes has run
  since it was created: a key is counted iff the system holds it, with what adding it returned; every
  count is positive; the system was never asked to add a key it held, nor was a key removed that it did
  not hold or with other data than adding it returned. No operation on such a counter panics.
\<close>

theorem counter_mirrors_system:
  fixes H :: "('k, 'i, 'o) hooks"
  assumes "reach (\<lambda>c. c = NewCounter) (rc_step H) c"
  shows "(\<forall>k. holds (calls c) k = map_option Out (Counter_Get k c)) \<and> bracketed (calls c) \<and>
    (\<forall>k r. Counter_Get k c = Some r \<longrightarrow> 1 \<le> Count r) \<and>
    Increment H k inp c \<noteq> None \<and> Decrement H k c \<noteq> None \<and>
    IncrementWithID H i k inp c \<noteq> None \<and> DecrementWithID H i c \<noteq> None"
proof -
  have inv: "rc_inv c" by (rule rc_sys.reach_inv [OF assms])
  then obtain m ids where c: "refCountMap c = Some m" "idMap c = Some ids" "refs_inv m (calls c)" by (rule rc_invE)
  moreover have "Increment H k inp c \<noteq> None"
    by (cases rule: increment_spec [OF inv, of H k inp, case_names refused counted]) (auto simp: Increment_def)
  moreover have "Decrement H k c \<noteq> None"
    by (cases rule: decrement_spec [OF inv, of H k, case_names kept released]) (auto simp: Decrement_def)
  ultimately show ?thesis
    using rc_acquire_inv [OF inv, of H i k inp] rc_release_inv [OF inv, of H i]
    by (auto simp: refs_inv_def Counter_Get_def)
qed

text \<open>Routes are added unless the number of calls so far is even; removing always works.\<close>

definition sample_hooks :: "(nat, unit, nat) hooks" where
  "sample_hooks = \<lparr> add_fn = (\<lambda>k _ cs. if even (length cs) then Added (k + 100) else AddFailed ''no route''),
     remove_fn = (\<lambda>_ _ _. None), zero_out = 0 \<rparr>"

definition sample_counter :: "(nat, nat) Counter" where
  "sample_counter = \<lparr> refCountMap = Some [(7, \<lparr> Count = 1, Out = 107 \<rparr>)], idMap = Some [(''conn1'', [7])], calls = [AddOK 7 107] \<rparr>"

lemma sample_counter_run: "IncrementWithID sample_hooks ''conn1'' 7 () NewCounter = Some (sample_counter, Inr \<lparr> Count = 1, Out = 107 \<rparr>)"
  by code_simp

theorem counter_mirrors_system_witness:
  "holds (calls sample_counter) 7 = Some 107 \<and> Increment sample_hooks 8 () sample_counter \<noteq> None"
proof -
  have "reach (\<lambda>c. c = NewCounter) (rc_step sample_hooks) sample_counter"
    using rc_acquire [OF sample_counter_run] by (blast intro: reach_start reach_step)
  from counter_mirrors_system [OF this, of 8 "()"] show ?thesis
    by (simp add: sample_counter_def Counter_Get_def)
qed

text \<open>
  C15. Grouped references are counted exactly. For functions that never ask to be ignored and whose
  removals succeed, after any sequence of grouped increments and decrements the count of a key is the
  number of references to it that are outstanding under the identifiers, and the system holds exactly the
  keys with such a reference: a key stays while one identifier refers to it and goes with the last one.
\<close>

theorem grouped_references_exact:
  fixes H :: "('k, 'i, 'o) hooks"
  assumes "plain_hooks H" "reach (\<lambda>c. c = NewCounter) (id_step H) c"
  shows "(\<forall>k. count_of c k = int (count (outstanding (entries (idMap c))) k)) \<and>
    dom (holds (calls c)) = set_mset (outstanding (entries (idMap c)))"
proof -
  have inv: "exact_inv c" by (rule exact_reach [OF assms])
  then obtain m ids where c: "refCountMap c = Some m" "refs_inv m (calls c)" by (auto simp: exact_inv_def elim: rc_invE)
  have cnt: "count_of c k = int (count (outstanding (entries (idMap c))) k)" for k using inv by (simp add: exact_inv_def)
  have "holds (calls c) k \<noteq> None \<longleftrightarrow> count_of c k \<noteq> 0" for k
    using c by (force simp: refs_inv_def count_of_def Counter_Get_def split: option.splits)
  then have "k \<in> dom (holds (calls c)) \<longleftrightarrow> k \<in># outstanding (entries (idMap c))" for k
    unfolding cnt domIff by (simp add: count_eq_zero_iff)
  then show ?thesis using cnt by blast
qed

theorem grouped_references_exact_witness:
  "dom (holds (calls sample_counter)) = {7} \<and> count_of sample_counter 7 = 1"
proof -
  have "reach (\<lambda>c. c = NewCounter) (id_step sample_hooks) sample_counter"
    using acquire [OF sample_counter_run] by (blast intro: reach_start reach_step)
  moreover have "plain_hooks sample_hooks" by (simp add: plain_hooks_def sample_hooks_def)
  ultimately show ?thesis using grouped_references_exact [of sample_hooks sample_counter]
    by (simp add: sample_counter_def outstanding_def)
qed

text \<open>The default route is missing at the first call, which is ignored, and present from then on.\<close>

definition late_route_hooks :: "(nat, unit, nat) hooks" where
  "late_route_hooks = sample_hooks\<lparr> add_fn := (\<lambda>k _ cs. if cs = [] then ErrIgnore else Added (k + 100)) \<rparr>"

text \<open>
  C34. An ignored reference is released all the same. When adding a key is ignored, nothing is counted, but
  \<open>IncrementWithID\<close> still records the key under the identifier. If a second connection then takes a counted
  reference to the same key, closing the first connection releases the second one's reference: the route
  is removed from the system while connection 2 still uses it.
\<close>

theorem ignored_reference_released:
  "\<exists>c1 c2 c3 r1 r2. IncrementWithID late_route_hooks ''conn1'' 7 () NewCounter = Some (c1, r1) \<and>
    IncrementWithID late_route_hooks ''conn2'' 7 () c1 = Some (c2, r2) \<and> holds (calls c2) 7 = Some 107 \<and>
    DecrementWithID late_route_hooks ''conn1'' c2 = Some (c3, []) \<and>
    gget (entries (idMap c3)) ''conn2'' = Some [7] \<and> holds (calls c3) 7 = None"
proof -
  have "(do { (c1, r1) \<leftarrow> IncrementWithID late_route_hooks ''conn1'' 7 () NewCounter;
              (c2, r2) \<leftarrow> IncrementWithID late_route_hooks ''conn2'' 7 () c1;
              (c3, es) \<leftarrow> DecrementWithID late_route_hooks ''conn1'' c2;
              Some (calls c2, es, gget (entries (idMap c3)) ''conn2'', calls c3) }) =
        Some ([AddRefused 7, AddOK 7 107], [], Some [7], [AddRefused 7, AddOK 7 107, RemoveOK 7 107])" by code_simp
  then show ?thesis by (fastforce simp: bind_eq_Some_conv holds_def)
qed

text \<open>A counter restored from an object without the map of counts panics at the first new reference.\<close>

lemma restored_counter_panics:
  assumes "Counter_UnmarshalJSON (Inr (None, ids)) c = (c', e)" "add_fn H k inp (calls c) = Added out"
  shows "Increment H k inp c' = None"
  using assms by (auto simp: Counter_UnmarshalJSON_def Increment_def increment_def Counter_Get_def store_ref_def Let_def)

lemma counter_json_roundtrip: "fst (Counter_UnmarshalJSON (Inr (Counter_MarshalJSON c)) c') = LoadData c c'"
  by (simp add: Counter_UnmarshalJSON_def Counter_MarshalJSON_def LoadData_def)

lemma forwarding_balanced:
  "0 < enabledCounter f \<Longrightarrow> ReleaseForwarding (fst (RequestForwarding s f)) = f"
  by (simp add: ReleaseForwarding_def RequestForwarding_def)

end
