(* ===== verification/FakeIP.thy ===== *)
theory FakeIP
  imports UspNat
begin

text \<open>
  Fake addresses for dynamic DNS routes (\<open>client/internal/routemanager/fakeip/fakeip.go\<close>), the source of
  the 1:1 translations that the DNS interceptor installs in the firewall.

  The search loop of \<open>allocate\<close> has no bound of its own: it is a \<open>partial_function\<close>, in which not returning is
  \<open>None\<close>. The lemmas show that on a well-formed pool it returns, visits each address of the range once,
  and fails only when all are in use; that the two maps of a pool are inverse to each other; and that
  translations taken from the pool make the firewall's two-way map a bijection.
\<close>

section \<open>The pool\<close>

record fakeIPPool =
  nextIP :: addr
  baseIP :: addr
  maxIP :: addr
  block :: prefix
  allocated :: "(addr, addr) gmap"
  fakeToReal :: "(addr, addr) gmap"

datatype fakeip_err = NoMoreFakeIPs prefix | InvalidIPAddress

definition v4Base :: addr where "v4Base = Addr4 0xF0000001"
definition v4Max :: addr where "v4Max = Addr4 0xF0FFFFFE"
definition v4Block :: prefix where "v4Block = \<lparr> pfx_addr = Addr4 0xF0000000, pfx_bits = 8 \<rparr>"
definition v6Base :: addr where "v6Base = Addr6 0x01000000000000000000000000000001"
definition v6Max :: addr where "v6Max = Addr6 0x0100000000000000FFFFFFFFFFFFFFFE"
definition v6Block :: prefix where "v6Block = \<lparr> pfx_addr = Addr6 0x01000000000000000000000000000000, pfx_bits = 64 \<rparr>"

definition newPool :: "addr \<Rightarrow> addr \<Rightarrow> prefix \<Rightarrow> fakeIPPool" where
  "newPool base maxAddr blk =
     \<lparr> nextIP = base, baseIP = base, maxIP = maxAddr, block = blk, allocated = [], fakeToReal = [] \<rparr>"

text \<open>The next address, wrapping at the end of the range.\<close>

definition advance :: "addr \<Rightarrow> addr \<Rightarrow> addr \<Rightarrow> addr" where
  "advance base mx a = (if addr_compare a mx \<ge> 0 then base else addr_next a)"

partial_function (option) allocate_loop ::
    "addr \<Rightarrow> addr \<Rightarrow> fakeIPPool \<Rightarrow> (fakeIPPool \<times> (fakeip_err + addr)) option" where
  "allocate_loop startIP realIP p =
     (let currentIP = nextIP p; p = p\<lparr> nextIP := advance (baseIP p) (maxIP p) (nextIP p) \<rparr>
      in if gget (fakeToReal p) currentIP = None
         then Some (p\<lparr> allocated := gput realIP currentIP (allocated p), fakeToReal := gput currentIP realIP (fakeToReal p) \<rparr>,
                    Inr currentIP)
         else if addr_compare (nextIP p) startIP = 0 then Some (p, Inl (NoMoreFakeIPs (block p)))
         else allocate_loop startIP realIP p)"

declare allocate_loop.simps [code]

definition allocate :: "addr \<Rightarrow> fakeIPPool \<Rightarrow> (fakeIPPool \<times> (fakeip_err + addr)) option" where
  "allocate realIP p =
     (case gget (allocated p) realIP of
        Some fakeIP \<Rightarrow> Some (p, Inr fakeIP)
      | None \<Rightarrow> allocate_loop (nextIP p) realIP p)"

section \<open>The manager\<close>

record FakeIPManager =
  pool4 :: fakeIPPool
  pool6 :: fakeIPPool

definition NewFakeIPManager :: FakeIPManager where
  "NewFakeIPManager = \<lparr> pool4 = newPool v4Base v4Max v4Block, pool6 = newPool v6Base v6Max v6Block \<rparr>"

definition pool :: "addr \<Rightarrow> FakeIPManager \<Rightarrow> fakeIPPool" where
  "pool ip m = (if is6 ip then pool6 m else pool4 m)"

definition AllocateFakeIP :: "addr \<Rightarrow> FakeIPManager \<Rightarrow> (FakeIPManager \<times> (fakeip_err + addr)) option" where
  "AllocateFakeIP realIP m =
     (let realIP = unmap realIP
      in if \<not> is_valid realIP then Some (m, Inl InvalidIPAddress)
         else map_option (\<lambda>(p, r). (if is6 realIP then m\<lparr> pool6 := p \<rparr> else m\<lparr> pool4 := p \<rparr>, r))
                (allocate realIP (pool realIP m)))"

definition GetFakeIP :: "addr \<Rightarrow> FakeIPManager \<Rightarrow> addr option" where
  "GetFakeIP realIP m =
     (let realIP = unmap realIP
      in if \<not> is_valid realIP then None else gget (allocated (pool realIP m)) realIP)"

definition GetRealIP :: "addr \<Rightarrow> FakeIPManager \<Rightarrow> addr option" where
  "GetRealIP fakeIP m =
     (let fakeIP = unmap fakeIP
      in if \<not> is_valid fakeIP then None else gget (fakeToReal (pool fakeIP m)) fakeIP)"

definition GetFakeIPBlock :: "FakeIPManager \<Rightarrow> prefix" where "GetFakeIPBlock m = block (pool4 m)"

definition GetFakeIPv6Block :: "FakeIPManager \<Rightarrow> prefix" where "GetFakeIPv6Block m = block (pool6 m)"

section \<open>The cycle through the range\<close>

fun addr_val :: "addr \<Rightarrow> int" where
  "addr_val NoAddr = 0"
| "addr_val (Addr4 w) = uint w"
| "addr_val (Addr6 w) = uint w"

definition in_range :: "addr \<Rightarrow> addr \<Rightarrow> addr \<Rightarrow> bool" where
  "in_range base mx a \<longleftrightarrow> bit_len a = bit_len base \<and> base \<le> a \<and> a \<le> mx"

definition range_ok :: "addr \<Rightarrow> addr \<Rightarrow> bool" where
  "range_ok base mx \<longleftrightarrow> is_valid base \<and> bit_len base = bit_len mx \<and> base \<le> mx"

lemma addr_le_val: "bit_len a = bit_len b \<Longrightarrow> a \<le> b \<longleftrightarrow> addr_val a \<le> addr_val b"
  by (cases a; cases b) (auto simp: less_eq_addr_def word_cmp_def word_less_def word_le_def)

lemma addr_val_inj: "bit_len a = bit_len b \<Longrightarrow> addr_val a = addr_val b \<Longrightarrow> a = b"
  by (cases a; cases b) (auto simp: word_uint_eq_iff)

lemma word_next:
  assumes "w < (v :: 'a::len word)"
  shows "w + 1 \<noteq> 0" "uint (w + 1) = uint w + 1"
proof -
  have "uint w < uint v" "uint v < 2 ^ LENGTH('a)" using assms uint_lt2p [of v] by (auto simp: word_less_def)
  then have "uint w + 1 < 2 ^ LENGTH('a)" by linarith
  then show "uint (w + 1) = uint w + 1" by (simp add: uint_word_ariths)
  moreover have "0 \<le> uint w" by simp
  ultimately show "w + 1 \<noteq> 0" by (metis uint_0_eq zero_less_one add_nonneg_pos less_irrefl)
qed

lemma addr_next_val:
  assumes "bit_len a = bit_len b" "a < b"
  shows "bit_len (addr_next a) = bit_len a" "addr_val (addr_next a) = addr_val a + 1"
  using assms by (cases a; cases b; auto simp: less_addr_def word_cmp_def word_next split: if_splits)+

definition range_size :: "addr \<Rightarrow> addr \<Rightarrow> nat" where
  "range_size base mx = nat (addr_val mx - addr_val base + 1)"

lemma advance_val:
  assumes "range_ok base mx" "in_range base mx a"
  shows "in_range base mx (advance base mx a)"
    and "addr_val (advance base mx a) = addr_val base + (addr_val a - addr_val base + 1) mod int (range_size base mx)"
proof -
  have len: "bit_len a = bit_len base" "bit_len mx = bit_len base" using assms by (auto simp: range_ok_def in_range_def)
  have le: "addr_val base \<le> addr_val a" "addr_val a \<le> addr_val mx"
    using assms len by (auto simp: in_range_def addr_le_val)
  have "in_range base mx (advance base mx a) \<and>
    addr_val (advance base mx a) = addr_val base + (addr_val a - addr_val base + 1) mod int (range_size base mx)"
  proof (cases "a < mx")
    case True
    then have next_a: "advance base mx a = addr_next a" by (auto simp: advance_def less_addr_def)
    have lt: "addr_val a < addr_val mx" using True len addr_val_inj le by (metis less_le order.strict_iff_order)
    note nv = addr_next_val [OF _ True]
    have "in_range base mx (addr_next a)"
      using nv len le lt by (simp add: in_range_def addr_le_val)
    moreover have "(addr_val a - addr_val base + 1) mod int (range_size base mx) = addr_val a - addr_val base + 1"
      using le lt by (intro mod_pos_pos_trivial) (auto simp: range_size_def)
    ultimately show ?thesis using next_a nv len by simp
  next
    case False
    then have "a = mx" using assms(2) by (auto simp: in_range_def)
    then have "advance base mx a = base" by (simp add: advance_def addr_compare_zero less_eq_addr_def [symmetric])
        (metis addr_compare_zero order_refl)
    then show ?thesis using assms(1) \<open>a = mx\<close> le by (simp add: range_size_def in_range_def range_ok_def)
  qed
  then show "in_range base mx (advance base mx a)"
    "addr_val (advance base mx a) = addr_val base + (addr_val a - addr_val base + 1) mod int (range_size base mx)" by auto
qed

lemma advance_iter:
  assumes "range_ok base mx" "in_range base mx a"
  shows "in_range base mx ((advance base mx ^^ i) a) \<and>
    addr_val ((advance base mx ^^ i) a) = addr_val base + (addr_val a - addr_val base + int i) mod int (range_size base mx)"
proof (induction i)
  case 0
  have "0 \<le> addr_val a - addr_val base" "addr_val a - addr_val base < int (range_size base mx)"
    using assms by (auto simp: in_range_def range_ok_def addr_le_val range_size_def)
  then show ?case using assms(2) by simp
next
  case (Suc i)
  then show ?case using advance_val [OF assms(1), of "(advance base mx ^^ i) a"]
    by (simp add: mod_simps ac_simps)
qed

lemma advance_covers:
  assumes "range_ok base mx" "in_range base mx a" "in_range base mx x"
  shows "\<exists>i<range_size base mx. (advance base mx ^^ i) a = x"
proof -
  let ?N = "int (range_size base mx)"
  let ?i = "nat ((addr_val x - addr_val a) mod ?N)"
  have x: "0 \<le> addr_val x - addr_val base" "addr_val x - addr_val base < ?N"
    using assms by (auto simp: in_range_def range_ok_def addr_le_val range_size_def)
  then have N: "0 < ?N" by linarith
  then have i: "int ?i = (addr_val x - addr_val a) mod ?N" "?i < range_size base mx"
    by (auto simp: nat_less_iff pos_mod_bound)
  have "(addr_val a - addr_val base + int ?i) mod ?N = (addr_val x - addr_val base) mod ?N"
    unfolding i(1) by (simp add: mod_simps)
  then have "addr_val ((advance base mx ^^ ?i) a) = addr_val x"
    using advance_iter [OF assms(1,2), of ?i] x by simp
  moreover have "bit_len ((advance base mx ^^ ?i) a) = bit_len x"
    using advance_iter [OF assms(1,2), of ?i] assms(3) by (simp add: in_range_def)
  ultimately show ?thesis using i(2) addr_val_inj by blast
qed

lemma advance_returns:
  assumes "range_ok base mx" "in_range base mx a"
  shows "0 < range_size base mx" "(advance base mx ^^ range_size base mx) a = a"
proof -
  show "0 < range_size base mx" using assms by (auto simp: in_range_def range_ok_def addr_le_val range_size_def)
  have "addr_val ((advance base mx ^^ range_size base mx) a) = addr_val a" "bit_len ((advance base mx ^^ range_size base mx) a) = bit_len a"
    using advance_iter [OF assms, of "range_size base mx"] advance_iter [OF assms, of 0] assms(2) by (auto simp: in_range_def)
  then show "(advance base mx ^^ range_size base mx) a = a" by (intro addr_val_inj)
qed

section \<open>The search\<close>

definition record_fake :: "addr \<Rightarrow> addr \<Rightarrow> fakeIPPool \<Rightarrow> fakeIPPool" where
  "record_fake realIP f p = p\<lparr> allocated := gput realIP f (allocated p), fakeToReal := gput f realIP (fakeToReal p) \<rparr>"

definition search_result ::
    "addr \<Rightarrow> addr \<Rightarrow> nat \<Rightarrow> fakeIPPool \<Rightarrow> fakeIPPool \<times> (fakeip_err + addr) \<Rightarrow> bool" where
  "search_result startIP realIP n p res \<longleftrightarrow>
     (let adv = advance (baseIP p) (maxIP p) in
      case res of
        (p', Inr f) \<Rightarrow> \<exists>i<n. f = (adv ^^ i) (nextIP p) \<and> gget (fakeToReal p) f = None \<and>
          p' = record_fake realIP f (p\<lparr> nextIP := adv f \<rparr>)
      | (p', Inl e) \<Rightarrow> e = NoMoreFakeIPs (block p) \<and> p' = p\<lparr> nextIP := startIP \<rparr> \<and>
          (\<forall>i<n. gget (fakeToReal p) ((adv ^^ i) (nextIP p)) \<noteq> None))"

lemma allocate_loop_returns:
  assumes "0 < n" "(advance (baseIP p) (maxIP p) ^^ n) (nextIP p) = startIP"
    "\<forall>i. 0 < i \<and> i < n \<longrightarrow> (advance (baseIP p) (maxIP p) ^^ i) (nextIP p) \<noteq> startIP"
  shows "\<exists>res. allocate_loop startIP realIP p = Some res \<and> search_result startIP realIP n p res"
  using assms
proof (induction n arbitrary: p)
  case (Suc n)
  let ?adv = "advance (baseIP p) (maxIP p)"
  let ?p = "p\<lparr> nextIP := ?adv (nextIP p) \<rparr>"
  show ?case
  proof (cases "gget (fakeToReal p) (nextIP p) = None")
    case True
    then show ?thesis
      by (subst allocate_loop.simps) (auto simp: search_result_def record_fake_def Let_def)
  next
    case used: False
    show ?thesis
    proof (cases "?adv (nextIP p) = startIP")
      case True
      have "n = 0"
      proof (rule ccontr)
        assume "n \<noteq> 0"
        then show False using Suc.prems(3) [rule_format, of 1] True by simp
      qed
      with True used show ?thesis
        by (subst allocate_loop.simps) (auto simp: search_result_def addr_compare_zero Let_def)
    next
      case False
      then have "0 < n" using Suc.prems(2) by (cases n) auto
      moreover have "(?adv ^^ n) (nextIP ?p) = startIP" using Suc.prems(2) by (simp add: funpow_swap1)
      moreover have "\<forall>i. 0 < i \<and> i < n \<longrightarrow> (?adv ^^ i) (nextIP ?p) \<noteq> startIP"
        using Suc.prems(3) by (auto simp: funpow_swap1 dest: spec [of _ "Suc _"])
      ultimately obtain res where res: "allocate_loop startIP realIP ?p = Some res" "search_result startIP realIP n ?p res"
        using Suc.IH [of ?p] by auto
      have "allocate_loop startIP realIP p = Some res"
        using used False res(1) by (subst allocate_loop.simps) (auto simp: addr_compare_zero Let_def)
      moreover have "search_result startIP realIP (Suc n) p res"
        using res(2) used
        by (auto simp: search_result_def Let_def funpow_swap1 less_Suc_eq_0_disj record_fake_def split: prod.splits sum.splits)
      ultimately show ?thesis by blast
    qed
  qed
qed simp

definition pool_inv :: "fakeIPPool \<Rightarrow> bool" where
  "pool_inv p \<longleftrightarrow> range_ok (baseIP p) (maxIP p) \<and> in_range (baseIP p) (maxIP p) (nextIP p) \<and>
     (\<forall>r f. gget (allocated p) r = Some f \<longleftrightarrow> gget (fakeToReal p) f = Some r) \<and>
     (\<forall>r f. gget (allocated p) r = Some f \<longrightarrow> in_range (baseIP p) (maxIP p) f)"

lemma allocate_loop_total:
  assumes "pool_inv p"
  shows "\<exists>res. allocate_loop (nextIP p) realIP p = Some res \<and> search_result (nextIP p) realIP (range_size (baseIP p) (maxIP p)) p res"
proof -
  let ?adv = "advance (baseIP p) (maxIP p)" and ?N = "range_size (baseIP p) (maxIP p)"
  have ok: "range_ok (baseIP p) (maxIP p)" "in_range (baseIP p) (maxIP p) (nextIP p)" using assms by (auto simp: pool_inv_def)
  note ret = advance_returns [OF ok]
  define n where "n = (LEAST n. 0 < n \<and> (?adv ^^ n) (nextIP p) = nextIP p)"
  have n: "0 < n" "(?adv ^^ n) (nextIP p) = nextIP p"
    using LeastI [of "\<lambda>n. 0 < n \<and> (?adv ^^ n) (nextIP p) = nextIP p" ?N] ret unfolding n_def by auto
  have min: "n \<le> i" if "0 < i" "(?adv ^^ i) (nextIP p) = nextIP p" for i
    using Least_le [of "\<lambda>n. 0 < n \<and> (?adv ^^ n) (nextIP p) = nextIP p" i] that unfolding n_def by simp
  then obtain res where res: "allocate_loop (nextIP p) realIP p = Some res" "search_result (nextIP p) realIP n p res"
    using allocate_loop_returns [OF n] by (metis not_less)
  have "n \<le> ?N" using min ret by blast
  moreover have "(?adv ^^ i) (nextIP p) = (?adv ^^ (i mod n)) (nextIP p)" for i using funpow_mod_eq [OF n(2)] by simp
  then have all: "gget (fakeToReal p) ((?adv ^^ i) (nextIP p)) \<noteq> None"
    if "\<forall>i<n. gget (fakeToReal p) ((?adv ^^ i) (nextIP p)) \<noteq> None" for i
    using that n(1) by (metis mod_less_divisor)
  have "search_result (nextIP p) realIP ?N p res"
  proof (cases "snd res")
    case (Inl e)
    then show ?thesis using res(2) all by (cases res) (simp add: search_result_def Let_def)
  next
    case (Inr f)
    then show ?thesis using res(2) \<open>n \<le> ?N\<close>
      by (cases res) (auto simp: search_result_def Let_def intro: less_le_trans)
  qed
  with res(1) show ?thesis by blast
qed

text \<open>What \<open>allocate\<close> does: it returns, keeps the invariant, and fails only when the range is used up.\<close>

lemma allocate_spec:
  assumes "pool_inv p"
  shows "\<exists>p' r. allocate realIP p = Some (p', r) \<and> pool_inv p' \<and>
    baseIP p' = baseIP p \<and> maxIP p' = maxIP p \<and> block p' = block p \<and>
    (case r of
       Inr f \<Rightarrow> gget (allocated p') realIP = Some f \<and> in_range (baseIP p) (maxIP p) f \<and>
         (gget (allocated p) realIP = None \<longrightarrow> gget (fakeToReal p) f = None) \<and>
         (\<forall>x. x \<noteq> realIP \<longrightarrow> gget (allocated p') x = gget (allocated p) x)
     | Inl e \<Rightarrow> e = NoMoreFakeIPs (block p) \<and> gget (allocated p) realIP = None \<and> allocated p' = allocated p \<and>
         (\<forall>a. in_range (baseIP p) (maxIP p) a \<longrightarrow> gget (fakeToReal p) a \<noteq> None))"
proof (cases "gget (allocated p) realIP")
  case (Some f)
  then have "allocate realIP p = Some (p, Inr f)" by (simp add: allocate_def)
  moreover have "in_range (baseIP p) (maxIP p) f" using assms Some unfolding pool_inv_def by blast
  ultimately show ?thesis using assms Some by simp
next
  case None
  have ok: "range_ok (baseIP p) (maxIP p)" "in_range (baseIP p) (maxIP p) (nextIP p)" using assms by (auto simp: pool_inv_def)
  obtain p' r where run: "allocate_loop (nextIP p) realIP p = Some (p', r)"
    and res: "search_result (nextIP p) realIP (range_size (baseIP p) (maxIP p)) p (p', r)"
    using allocate_loop_total [OF assms, of realIP] by auto
  show ?thesis
  proof (cases r)
    case (Inl e)
    then have "p' = p" "e = NoMoreFakeIPs (block p)" using res by (auto simp: search_result_def Let_def)
    moreover have "gget (fakeToReal p) a \<noteq> None" if "in_range (baseIP p) (maxIP p) a" for a
      using advance_covers [OF ok that] res Inl by (auto simp: search_result_def Let_def)
    ultimately show ?thesis using run None Inl assms by (auto simp: allocate_def)
  next
    case (Inr f)
    then obtain i where f: "f = (advance (baseIP p) (maxIP p) ^^ i) (nextIP p)" "gget (fakeToReal p) f = None"
      and p': "p' = record_fake realIP f (p\<lparr> nextIP := advance (baseIP p) (maxIP p) f \<rparr>)"
      using res by (auto simp: search_result_def Let_def)
    have "in_range (baseIP p) (maxIP p) f" using advance_iter [OF ok] f(1) by simp
    moreover from this have "in_range (baseIP p) (maxIP p) (advance (baseIP p) (maxIP p) f)" by (rule advance_val(1) [OF ok(1)])
    moreover have "(gget (gput realIP f (allocated p)) x = Some y) = (gget (gput f realIP (fakeToReal p)) y = Some x)" for x y
      using assms None f(2) by (auto simp: pool_inv_def) (metis option.distinct(1))+
    ultimately have "pool_inv p'" using assms by (auto simp: p' record_fake_def pool_inv_def)
    then show ?thesis using run None Inr f(2) \<open>in_range (baseIP p) (maxIP p) f\<close> by (auto simp: allocate_def p' record_fake_def)
  qed
qed

section \<open>The manager's invariant\<close>

definition fake_inv :: "FakeIPManager \<Rightarrow> bool" where
  "fake_inv m \<longleftrightarrow> pool_inv (pool4 m) \<and> pool_inv (pool6 m) \<and>
     baseIP (pool4 m) = v4Base \<and> maxIP (pool4 m) = v4Max \<and> block (pool4 m) = v4Block \<and>
     baseIP (pool6 m) = v6Base \<and> maxIP (pool6 m) = v6Max \<and> block (pool6 m) = v6Block \<and>
     (\<forall>r f. gget (allocated (pool4 m)) r = Some f \<longrightarrow> is4 r) \<and>
     (\<forall>r f. gget (allocated (pool6 m)) r = Some f \<longrightarrow> is6 r \<and> unmap r = r)"

inductive fake_step :: "FakeIPManager \<Rightarrow> FakeIPManager \<Rightarrow> bool" where
  fake_alloc: "AllocateFakeIP realIP m = Some (m', r) \<Longrightarrow> fake_step m m'"

lemma fake_inv_start: "fake_inv NewFakeIPManager"
  by (simp add: fake_inv_def NewFakeIPManager_def newPool_def pool_inv_def range_ok_def in_range_def is_valid_def
      v4Base_def v4Max_def v6Base_def v6Max_def less_eq_addr_def word_cmp_def)

lemma uint_drop_bit: "uint (drop_bit n w) = uint w div 2 ^ n" for w :: "'a::len word"
  by transfer (simp add: drop_bit_eq_div [symmetric] take_bit_drop_bit min_def)

lemma v6_range:
  assumes "in_range v6Base v6Max f"
  shows "is6 f" "unmap f = f" "prefix_contains v6Block f"
proof -
  obtain w where f: "f = Addr6 w" using assms by (cases f) (auto simp: in_range_def v6Base_def)
  have b: "0x01000000000000000000000000000001 \<le> uint w" "uint w \<le> 0x0100000000000000FFFFFFFFFFFFFFFE"
    using assms by (auto simp: f in_range_def v6Base_def v6Max_def addr_le_val)
  have d32: "uint (drop_bit 32 w) = uint w div 2 ^ 32"
    and d64: "uint (drop_bit 64 w) = uint w div 2 ^ 64" by (simp_all add: uint_drop_bit)
  have "drop_bit 32 w \<noteq> 0xffff"
  proof
    assume "drop_bit 32 w = 0xffff"
    then have "uint w div 2 ^ 32 = 0xffff" using d32 by simp
    with b(1) show False by simp
  qed
  then show "is6 f" "unmap f = f" by (simp_all add: f)
  have "drop_bit 64 w = drop_bit 64 (0x01000000000000000000000000000000 :: 128 word)"
    unfolding word_uint_eq_iff d64 using b by (simp add: uint_drop_bit)
  then have "drop_bit 64 (0x01000000000000000000000000000000 XOR w) = 0" by (simp add: drop_bit_xor)
  then show "prefix_contains v6Block f" by (simp add: f prefix_contains_def prefix_valid_def v6Block_def)
qed

lemma v4_range:
  assumes "in_range v4Base v4Max f"
  shows "is4 f" "\<not> is6 f" "unmap f = f" "prefix_contains v4Block f"
proof -
  obtain w where f: "f = Addr4 w" using assms by (cases f) (auto simp: in_range_def v4Base_def)
  have b: "0xF0000001 \<le> uint w" "uint w \<le> 0xF0FFFFFE"
    using assms by (auto simp: f in_range_def v4Base_def v4Max_def addr_le_val)
  show "is4 f" "\<not> is6 f" "unmap f = f" by (simp_all add: f)
  have d: "uint (drop_bit 24 w) = uint w div 2 ^ 24" by (simp add: uint_drop_bit)
  have "drop_bit 24 w = drop_bit 24 (0xF0000000 :: 32 word)"
    unfolding word_uint_eq_iff d using b by (simp add: uint_drop_bit)
  then have "drop_bit 24 (0xF0000000 XOR w) = 0" by (simp add: drop_bit_xor)
  then show "prefix_contains v4Block f" by (simp add: f prefix_contains_def prefix_valid_def v4Block_def)
qed

lemma addr_families: "is4 a \<Longrightarrow> is_valid a \<and> \<not> is6 a \<and> unmap a = a" "is6 a \<Longrightarrow> is_valid a"
  by (cases a; simp add: is_valid_def)+

lemma valid_not4: "is_valid a \<Longrightarrow> \<not> is6 a \<Longrightarrow> is4 a"
  by (cases a) (auto simp: is_valid_def)

text \<open>Every address of the range for the family of \<open>a\<close> is assigned.\<close>

definition fake_range :: "addr \<Rightarrow> addr \<Rightarrow> bool" where
  "fake_range a f \<longleftrightarrow> (if is6 a then in_range v6Base v6Max f else in_range v4Base v4Max f)"

definition exhausted :: "addr \<Rightarrow> FakeIPManager \<Rightarrow> bool" where
  "exhausted a m \<longleftrightarrow> (\<forall>f. fake_range a f \<longrightarrow> GetRealIP f m \<noteq> None)"

lemma fake_range_real:
  assumes "fake_inv m" "fake_range a f"
  shows "GetRealIP f m = gget (fakeToReal (pool a m)) f" "unmap f = f"
  using assms v6_range [of f] v4_range [of f] addr_families [of f]
  by (auto simp: fake_range_def GetRealIP_def pool_def split: if_splits)

lemma fake_range_pool: "fake_inv m \<Longrightarrow> fake_range a f \<longleftrightarrow> in_range (baseIP (pool a m)) (maxIP (pool a m)) f"
  by (simp add: fake_range_def pool_def fake_inv_def)

lemma AllocateFakeIP_spec:
  assumes "fake_inv m"
  shows "\<exists>m' r. AllocateFakeIP realIP m = Some (m', r) \<and> fake_inv m' \<and>
    (\<forall>x f. GetFakeIP x m = Some f \<longrightarrow> GetFakeIP x m' = Some f) \<and>
    (case r of
       Inr f \<Rightarrow> GetFakeIP realIP m' = Some f \<and> (GetFakeIP realIP m = None \<longrightarrow> \<not> exhausted (unmap realIP) m) \<and>
         (\<forall>x. unmap x \<noteq> unmap realIP \<longrightarrow> GetFakeIP x m' = GetFakeIP x m)
     | Inl e \<Rightarrow> (\<forall>x. GetFakeIP x m' = GetFakeIP x m) \<and>
         (is_valid (unmap realIP) \<longrightarrow> GetFakeIP realIP m = None \<and> exhausted (unmap realIP) m))"
proof (cases "is_valid (unmap realIP)")
  case False
  then show ?thesis using assms by (simp add: AllocateFakeIP_def)
next
  case valid: True
  let ?a = "unmap realIP"
  have "pool_inv (pool ?a m)" using assms by (simp add: fake_inv_def pool_def)
  from allocate_spec [OF this, of ?a] obtain p r where p: "allocate ?a (pool ?a m) = Some (p, r)" "pool_inv p"
    "baseIP p = baseIP (pool ?a m)" "maxIP p = maxIP (pool ?a m)" "block p = block (pool ?a m)"
    and r: "case r of
       Inr f \<Rightarrow> gget (allocated p) ?a = Some f \<and> in_range (baseIP (pool ?a m)) (maxIP (pool ?a m)) f \<and>
         (gget (allocated (pool ?a m)) ?a = None \<longrightarrow> gget (fakeToReal (pool ?a m)) f = None) \<and>
         (\<forall>x. x \<noteq> ?a \<longrightarrow> gget (allocated p) x = gget (allocated (pool ?a m)) x)
     | Inl e \<Rightarrow> e = NoMoreFakeIPs (block (pool ?a m)) \<and> gget (allocated (pool ?a m)) ?a = None \<and>
         allocated p = allocated (pool ?a m) \<and>
         (\<forall>a. in_range (baseIP (pool ?a m)) (maxIP (pool ?a m)) a \<longrightarrow> gget (fakeToReal (pool ?a m)) a \<noteq> None)" by blast
  define m' where "m' = (if is6 ?a then m\<lparr> pool6 := p \<rparr> else m\<lparr> pool4 := p \<rparr>)"
  have run: "AllocateFakeIP realIP m = Some (m', r)" using valid p(1) by (simp add: AllocateFakeIP_def m'_def)
  have get: "GetFakeIP x m' = (if \<not> is_valid (unmap x) then None else if is6 (unmap x) = is6 ?a then gget (allocated p) (unmap x)
      else GetFakeIP x m)" for x
    by (auto simp: GetFakeIP_def pool_def m'_def Let_def)
  have old: "GetFakeIP x m = (if \<not> is_valid (unmap x) then None else gget (allocated (pool ?a m)) (unmap x))"
    if "is6 (unmap x) = is6 ?a" for x using that by (simp add: GetFakeIP_def pool_def)
  have inv [simp]: "\<not> is_valid (unmap x) \<Longrightarrow> GetFakeIP x m = None" for x by (simp add: GetFakeIP_def)
  have dom: "gget (allocated p) y = Some f \<Longrightarrow> y = ?a \<or> gget (allocated (pool ?a m)) y = Some f" for y f
    using r by (cases r) auto
  have keep: "gget (allocated p) y = Some f" if y: "gget (allocated (pool ?a m)) y = Some f" for y f
  proof (cases "y = ?a")
    case True
    then have "allocate ?a (pool ?a m) = Some (pool ?a m, Inr f)" using y by (simp add: allocate_def)
    then show ?thesis using p(1) y by simp
  next
    case False
    then show ?thesis using r y by (cases r) simp_all
  qed
  have keys: "if is6 ?a then is6 y \<and> unmap y = y else is4 y" if "gget (allocated p) y = Some f" for y f
    using dom [OF that] assms valid_not4 [OF valid] unfolding fake_inv_def pool_def by (auto split: if_splits)
  have "fake_inv m'"
  proof (cases "is6 ?a")
    case True
    then show ?thesis using assms p(2-5) keys unfolding m'_def fake_inv_def pool_def by simp
  next
    case False
    then show ?thesis using assms p(2-5) keys unfolding m'_def fake_inv_def pool_def by simp
  qed
  moreover have "\<forall>x f. GetFakeIP x m = Some f \<longrightarrow> GetFakeIP x m' = Some f"
    using keep by (auto simp: get old split: if_splits)
  moreover have "case r of
       Inr f \<Rightarrow> GetFakeIP realIP m' = Some f \<and> (GetFakeIP realIP m = None \<longrightarrow> \<not> exhausted (unmap realIP) m) \<and>
         (\<forall>x. unmap x \<noteq> unmap realIP \<longrightarrow> GetFakeIP x m' = GetFakeIP x m)
     | Inl e \<Rightarrow> (\<forall>x. GetFakeIP x m' = GetFakeIP x m) \<and>
         (is_valid (unmap realIP) \<longrightarrow> GetFakeIP realIP m = None \<and> exhausted (unmap realIP) m)"
  proof (cases r)
    case (Inl e)
    then show ?thesis using r by (simp add: get old exhausted_def fake_range_pool [OF assms] fake_range_real(1) [OF assms])
  next
    case (Inr f)
    then have rng: "fake_range ?a f" using r by (simp add: fake_range_pool [OF assms])
    have "\<not> exhausted ?a m" if "GetFakeIP realIP m = None"
      using that r Inr valid rng fake_range_real(1) [OF assms rng] by (auto simp: old exhausted_def)
    then show ?thesis using r Inr valid by (auto simp: get old)
  qed
  ultimately show ?thesis using run by blast
qed

lemma fake_inv_step:
  assumes "fake_inv m" "fake_step m m'"
  shows "fake_inv m'"
  using assms(2)
proof cases
  case (fake_alloc realIP r)
  then show ?thesis using AllocateFakeIP_spec [OF assms(1), of realIP] by auto
qed

interpretation fake_sys: invariant_system "\<lambda>m. m = NewFakeIPManager" fake_step fake_inv
  by unfold_locales (simp add: fake_inv_start, rule fake_inv_step)

definition fake_block :: "addr \<Rightarrow> prefix" where
  "fake_block realIP = (if is6 (unmap realIP) then v6Block else v4Block)"

lemma GetFakeIP_Some:
  assumes "fake_inv m" "GetFakeIP r m = Some f"
  shows "GetRealIP f m = Some (unmap r) \<and> prefix_contains (fake_block r) f \<and> unmap f = f \<and> is_valid f"
proof -
  have g: "is_valid (unmap r)" "gget (allocated (pool (unmap r) m)) (unmap r) = Some f"
    using assms(2) by (auto simp: GetFakeIP_def Let_def split: if_splits)
  show ?thesis
  proof (cases "is6 (unmap r)")
    case True
    then have a: "gget (allocated (pool6 m)) (unmap r) = Some f" using g by (simp add: pool_def)
    then have rev: "gget (fakeToReal (pool6 m)) f = Some (unmap r)" and "in_range v6Base v6Max f"
      using assms(1) unfolding fake_inv_def pool_inv_def by metis+
    from v6_range [OF this(2)] rev True show ?thesis
      by (simp add: GetRealIP_def pool_def fake_block_def addr_families)
  next
    case False
    then have a: "gget (allocated (pool4 m)) (unmap r) = Some f" using g by (simp add: pool_def)
    then have rev: "gget (fakeToReal (pool4 m)) f = Some (unmap r)" and "in_range v4Base v4Max f"
      using assms(1) unfolding fake_inv_def pool_inv_def by metis+
    from v4_range [OF this(2)] rev False show ?thesis
      by (simp add: GetRealIP_def pool_def fake_block_def addr_families)
  qed
qed

lemma pool_inv_rev: "pool_inv p \<Longrightarrow> gget (fakeToReal p) f = Some r \<Longrightarrow> gget (allocated p) r = Some f"
  unfolding pool_inv_def by blast

lemma GetRealIP_Some:
  assumes "fake_inv m" "GetRealIP f m = Some r"
  shows "GetFakeIP r m = Some (unmap f) \<and> unmap r = r"
proof -
  have g: "gget (fakeToReal (pool (unmap f) m)) (unmap f) = Some r"
    using assms(2) by (auto simp: GetRealIP_def Let_def split: if_splits)
  have "pool_inv (pool (unmap f) m)" using assms(1) by (simp add: fake_inv_def pool_def)
  note a = pool_inv_rev [OF this g]
  show ?thesis
  proof (cases "is6 (unmap f)")
    case True
    then have a: "gget (allocated (pool6 m)) r = Some (unmap f)" using a by (simp add: pool_def)
    then have "is6 r" "unmap r = r" using assms(1) unfolding fake_inv_def by blast+
    then show ?thesis using a by (simp add: GetFakeIP_def pool_def addr_families)
  next
    case False
    then have a: "gget (allocated (pool4 m)) r = Some (unmap f)" using a by (simp add: pool_def)
    then have "is4 r" using assms(1) unfolding fake_inv_def by blast
    then show ?thesis using a by (simp add: GetFakeIP_def pool_def addr_families)
  qed
qed

lemma exhausted_mono:
  assumes "fake_inv m" "fake_inv m'" "\<forall>x f. GetFakeIP x m = Some f \<longrightarrow> GetFakeIP x m' = Some f" "exhausted a m"
  shows "exhausted a m'"
  unfolding exhausted_def
proof (intro allI impI)
  fix f assume rng: "fake_range a f"
  then obtain r where "GetRealIP f m = Some r" using assms(4) by (auto simp: exhausted_def)
  from GetRealIP_Some [OF assms(1) this] have "GetFakeIP r m = Some f" using fake_range_real(2) [OF assms(1) rng] by simp
  then have "GetFakeIP r m' = Some f" using assms(3) by blast
  from GetFakeIP_Some [OF assms(2) this] show "GetRealIP f m' \<noteq> None" by simp
qed

section \<open>Properties\<close>

text \<open>
  C13. Allocation of fake addresses terminates and is exact. After any sequence of allocations, the search
  for a free address returns, for every address it is asked for. It fails only for an invalid address, or
  when every address of the range is assigned. When it succeeds, the fake address lies in the block of the
  real address's family, both directions of the lookup lead from one to the other, the assignments made
  before are unchanged, and no other address shares the fake one.
\<close>

theorem fake_allocation_total:
  assumes "reach (\<lambda>m. m = NewFakeIPManager) fake_step m"
  shows "\<exists>m' r. AllocateFakeIP realIP m = Some (m', r) \<and>
    (\<forall>x f. GetFakeIP x m = Some f \<longrightarrow> GetFakeIP x m' = Some f) \<and>
    (case r of
       Inr f \<Rightarrow> prefix_contains (fake_block realIP) f \<and> GetFakeIP realIP m' = Some f \<and>
         GetRealIP f m' = Some (unmap realIP) \<and> (\<forall>x. GetFakeIP x m' = Some f \<longrightarrow> unmap x = unmap realIP)
     | Inl e \<Rightarrow> \<not> is_valid (unmap realIP) \<or> exhausted (unmap realIP) m)"
proof -
  have inv: "fake_inv m" by (rule fake_sys.reach_inv [OF assms])
  from AllocateFakeIP_spec [OF this, of realIP] obtain m' r where
    m': "AllocateFakeIP realIP m = Some (m', r)" "fake_inv m'" "\<forall>x f. GetFakeIP x m = Some f \<longrightarrow> GetFakeIP x m' = Some f"
    and r: "case r of
       Inr f \<Rightarrow> GetFakeIP realIP m' = Some f \<and> (GetFakeIP realIP m = None \<longrightarrow> \<not> exhausted (unmap realIP) m) \<and>
         (\<forall>x. unmap x \<noteq> unmap realIP \<longrightarrow> GetFakeIP x m' = GetFakeIP x m)
     | Inl e \<Rightarrow> (\<forall>x. GetFakeIP x m' = GetFakeIP x m) \<and>
         (is_valid (unmap realIP) \<longrightarrow> GetFakeIP realIP m = None \<and> exhausted (unmap realIP) m)" by blast
  have "case r of
       Inr f \<Rightarrow> prefix_contains (fake_block realIP) f \<and> GetFakeIP realIP m' = Some f \<and>
         GetRealIP f m' = Some (unmap realIP) \<and> (\<forall>x. GetFakeIP x m' = Some f \<longrightarrow> unmap x = unmap realIP)
     | Inl e \<Rightarrow> \<not> is_valid (unmap realIP) \<or> exhausted (unmap realIP) m"
  proof (cases r)
    case (Inl e)
    then show ?thesis using r by auto
  next
    case (Inr f)
    then have get: "GetFakeIP realIP m' = Some f" using r by simp
    note real = GetFakeIP_Some [OF m'(2) get]
    have "unmap x = unmap realIP" if "GetFakeIP x m' = Some f" for x using GetFakeIP_Some [OF m'(2) that] real by simp
    then show ?thesis unfolding Inr sum.case using get real by blast
  qed
  with m' show ?thesis by blast
qed

theorem fake_allocation_total_witness:
  "\<exists>m' f. AllocateFakeIP (Addr4 0x08080808) NewFakeIPManager = Some (m', Inr f) \<and> GetRealIP f m' = Some (Addr4 0x08080808)"
proof -
  have "reach (\<lambda>m. m = NewFakeIPManager) fake_step NewFakeIPManager" by (simp add: reach_start)
  note total = fake_allocation_total [OF this, of "Addr4 0x08080808"]
  have "\<not> exhausted (Addr4 0x08080808) NewFakeIPManager"
  proof -
    have "fake_range (Addr4 0x08080808) v4Base"
      by (simp add: fake_range_def in_range_def v4Base_def v4Max_def less_eq_addr_def word_cmp_def)
    moreover have "GetRealIP v4Base NewFakeIPManager = None"
      by (simp add: GetRealIP_def Let_def pool_def NewFakeIPManager_def newPool_def v4Base_def)
    ultimately show ?thesis by (auto simp: exhausted_def)
  qed
  moreover have "is_valid (Addr4 0x08080808)" by (simp add: is_valid_def)
  ultimately show ?thesis using total by (auto split: sum.splits) (metis sum.exhaust)
qed

end
