(* ===== verification/DnsInterceptor.thy ===== *)
theory DnsInterceptor
  imports RefCounter FakeIP GoStrings
begin

text \<open>
  Dynamic routes for domains (\<open>client/internal/routemanager/dnsinterceptor/handler.go\<close>): the interceptor
  resolves a domain through the routing peer, takes references to a route and an allowed address for every
  address of the answer, and, where the firewall offers translation, hands out fake addresses instead.

  \<^item> The reference counters, the fake addresses and the firewall are the models of the theories \<open>RefCounter\<close>,
    \<open>FakeIP\<close> and \<open>UspNat\<close>. \<open>None\<close> is a panic or a search that does not end.
  \<^item> The orders in which Go iterates over maps are arguments (\<open>orders\<close>), as are the upstream server's answer and
    the table of peers. Calls to the status recorder and the DNS server are recorded in \<open>events\<close>; logging and
    the wait for route changes are omitted.
  \<^item> The lemmas relate the routes, allowed addresses and translations that are in place to the answers on record.
\<close>

section \<open>Data\<close>

datatype RR = A bytes | AAAA bytes | OtherRR

record dns_msg =
  Id :: u16
  Question :: "(string \<times> u16) list"
  Answer :: "RR list"
  Zero :: bool
  AuthenticatedData :: bool
  Extra :: "RR list option"

definition TypeA :: u16 where "TypeA = 1"
definition TypeAAAA :: u16 where "TypeAAAA = 28"
definition RcodeServerFailure :: int where "RcodeServerFailure = 2"
definition RcodeNameError :: int where "RcodeNameError = 3"

text \<open>A message written to the client: an answer built from the query with a response code, a bare failure, or a reply.\<close>

datatype dns_out = SetRcode dns_msg int bool | BareFailure u16 | Reply dns_msg

datatype fw_kind = NoFirewall | PlainFirewall | DnatFirewall nat_state

datatype ic_event =
    RegisterHandler "string list"
  | DeregisterHandler "string list"
  | UpdateResolvedDomainsStates string string "prefix list"
  | DeleteResolvedDomainsStates string

datatype ic_err =
    AddRouteFailed prefix string
  | AddAllowedIPFailed prefix string
  | RemoveRouteFailed prefix string
  | RemoveAllowedIPFailed prefix string

record DnsInterceptor =
  GOOS :: string
  Domains :: "string list"
  KeepRoute :: bool
  currentPeerKey :: string
  interceptedDomains :: "(string, prefix list) gmap"
  routeRefCounter :: "(prefix, unit) Counter"
  allowedIPsRefcounter :: "(prefix, string) Counter"
  fakeIPManager :: FakeIPManager
  firewall :: fw_kind
  events :: "ic_event list"

record ic_env =
  route_hooks :: "(prefix, unit, unit) hooks"
  allowed_hooks :: "(prefix, string, string) hooks"
  prefix_order :: "prefix list \<Rightarrow> prefix list"
  addr_order :: "addr list \<Rightarrow> addr list"
  domain_order :: "string list \<Rightarrow> string list"

definition NewDnsInterceptor ::
    "string \<Rightarrow> string list \<Rightarrow> bool \<Rightarrow> (prefix, unit) Counter \<Rightarrow> (prefix, string) Counter \<Rightarrow> FakeIPManager \<Rightarrow> fw_kind \<Rightarrow> DnsInterceptor" where
  "NewDnsInterceptor goos domains keep routes allowed fakes fw =
     \<lparr> GOOS = goos, Domains = domains, KeepRoute = keep, currentPeerKey = '''', interceptedDomains = [],
       routeRefCounter = routes, allowedIPsRefcounter = allowed, fakeIPManager = fakes, firewall = fw, events = [] \<rparr>"

text \<open>\<open>netip.PrefixFrom\<close>: the prefix is invalid when the bits do not fit the address.\<close>

definition PrefixFrom :: "addr \<Rightarrow> int \<Rightarrow> prefix" where
  "PrefixFrom a bits = \<lparr> pfx_addr = a, pfx_bits = (if is_valid a \<and> 0 \<le> bits \<and> bits \<le> int (bit_len a) then bits else - 1) \<rparr>"

definition AsSlice :: "addr \<Rightarrow> bytes" where
  "AsSlice a = (case a of NoAddr \<Rightarrow> [] | Addr4 _ \<Rightarrow> as4 a | Addr6 _ \<Rightarrow> as16 a)"

section \<open>Routes and allowed addresses\<close>

definition internalDnatFw :: "DnsInterceptor \<Rightarrow> nat_state option" where
  "internalDnatFw d =
     (if firewall d = NoFirewall \<or> GOOS d \<noteq> ''android'' then None
      else case firewall d of DnatFirewall m \<Rightarrow> Some m | _ \<Rightarrow> None)"

definition transformRealToFakePrefix :: "DnsInterceptor \<Rightarrow> prefix \<Rightarrow> prefix" where
  "transformRealToFakePrefix d realPrefix =
     (if internalDnatFw d = None then realPrefix
      else case GetFakeIP (pfx_addr realPrefix) (fakeIPManager d) of
             Some fakeIP \<Rightarrow> PrefixFrom fakeIP (pfx_bits realPrefix)
           | None \<Rightarrow> realPrefix)"

text \<open>The loops collect the errors of their bodies.\<close>

fun each :: "('a \<Rightarrow> 's \<Rightarrow> ('s \<times> 'e list) option) \<Rightarrow> 'a list \<Rightarrow> 's \<Rightarrow> ('s \<times> 'e list) option" where
  "each f [] s = Some (s, [])"
| "each f (x # xs) s = do {
     (s, e) \<leftarrow> f x s;
     (s, es) \<leftarrow> each f xs s;
     Some (s, e @ es)
   }"

definition decrement_route :: "ic_env \<Rightarrow> prefix \<Rightarrow> DnsInterceptor \<Rightarrow> (DnsInterceptor \<times> ic_err list) option" where
  "decrement_route E routePrefix d = do {
     (c, e) \<leftarrow> Decrement (route_hooks E) routePrefix (routeRefCounter d);
     Some (d\<lparr> routeRefCounter := c \<rparr>, case e of None \<Rightarrow> [] | Some e \<Rightarrow> [RemoveRouteFailed routePrefix e])
   }"

definition decrement_allowed :: "ic_env \<Rightarrow> prefix \<Rightarrow> DnsInterceptor \<Rightarrow> (DnsInterceptor \<times> ic_err list) option" where
  "decrement_allowed E prefix d = do {
     (c, e) \<leftarrow> Decrement (allowed_hooks E) prefix (allowedIPsRefcounter d);
     Some (d\<lparr> allowedIPsRefcounter := c \<rparr>, case e of None \<Rightarrow> [] | Some e \<Rightarrow> [RemoveAllowedIPFailed prefix e])
   }"

definition addAllowedIPForPrefix ::
    "ic_env \<Rightarrow> string \<Rightarrow> prefix \<Rightarrow> DnsInterceptor \<Rightarrow> (DnsInterceptor \<times> ic_err list) option" where
  "addAllowedIPForPrefix E peerKey realPrefix d = do {
     (c, r) \<leftarrow> Increment (allowed_hooks E) realPrefix peerKey (allowedIPsRefcounter d);
     Some (d\<lparr> allowedIPsRefcounter := c \<rparr>, case r of Inl e \<Rightarrow> [AddAllowedIPFailed realPrefix e] | Inr _ \<Rightarrow> [])
   }"

definition addRouteAndAllowedIP :: "ic_env \<Rightarrow> prefix \<Rightarrow> DnsInterceptor \<Rightarrow> (DnsInterceptor \<times> ic_err list) option" where
  "addRouteAndAllowedIP E realPrefix d = do {
     let routePrefix = transformRealToFakePrefix d realPrefix;
     (c, r) \<leftarrow> Increment (route_hooks E) routePrefix () (routeRefCounter d);
     let d = d\<lparr> routeRefCounter := c \<rparr>;
     (case r of
        Inl e \<Rightarrow> Some (d, [AddRouteFailed routePrefix e])
      | Inr _ \<Rightarrow>
          if currentPeerKey d = '''' then Some (d, [])
          else addAllowedIPForPrefix E (currentPeerKey d) realPrefix d)
   }"

definition removeAllowedIP :: "ic_env \<Rightarrow> prefix \<Rightarrow> DnsInterceptor \<Rightarrow> (DnsInterceptor \<times> ic_err list) option" where
  "removeAllowedIP E realPrefix d =
     (if currentPeerKey d = '''' then Some (d, []) else decrement_allowed E realPrefix d)"

definition AddRoute :: "DnsInterceptor \<Rightarrow> DnsInterceptor" where
  "AddRoute d = d\<lparr> events := events d @ [RegisterHandler (Domains d)] \<rparr>"

definition domain_prefixes :: "DnsInterceptor \<Rightarrow> string \<Rightarrow> prefix list" where
  "domain_prefixes d dn = (case gget (interceptedDomains d) dn of Some ps \<Rightarrow> ps | None \<Rightarrow> [])"

text \<open>The prefixes of all domains, in the order in which the map is iterated.\<close>

definition all_prefixes :: "ic_env \<Rightarrow> DnsInterceptor \<Rightarrow> prefix list" where
  "all_prefixes E d = concat (map (domain_prefixes d) (domain_order E (gkeys (interceptedDomains d))))"

definition AddAllowedIPs :: "ic_env \<Rightarrow> string \<Rightarrow> DnsInterceptor \<Rightarrow> (DnsInterceptor \<times> ic_err list) option" where
  "AddAllowedIPs E peerKey d = do {
     (d, es) \<leftarrow> each (addAllowedIPForPrefix E peerKey) (all_prefixes E d) d;
     Some (d\<lparr> currentPeerKey := peerKey \<rparr>, es)
   }"

definition RemoveAllowedIPs :: "ic_env \<Rightarrow> DnsInterceptor \<Rightarrow> (DnsInterceptor \<times> ic_err list) option" where
  "RemoveAllowedIPs E d = do {
     (d, es) \<leftarrow> each (decrement_allowed E) (all_prefixes E d) d;
     Some (d\<lparr> currentPeerKey := '''' \<rparr>, es)
   }"

section \<open>Translations\<close>

text \<open>A failing call to the firewall is only logged.\<close>

fun remove_mappings :: "prefix list \<Rightarrow> FakeIPManager \<Rightarrow> nat_state \<Rightarrow> nat_state option" where
  "remove_mappings [] fm m = Some m"
| "remove_mappings (prefix # ps) fm m =
     (case GetFakeIP (pfx_addr prefix) fm of
        None \<Rightarrow> remove_mappings ps fm m
      | Some fakeIP \<Rightarrow>
          (case RemoveInternalDNATMapping fakeIP m of
             None \<Rightarrow> None
           | Some (Inl _) \<Rightarrow> remove_mappings ps fm m
           | Some (Inr m) \<Rightarrow> remove_mappings ps fm m))"

definition removeDNATMappings :: "prefix list \<Rightarrow> DnsInterceptor \<Rightarrow> DnsInterceptor option" where
  "removeDNATMappings realPrefixes d =
     (if realPrefixes = [] then Some d
      else case internalDnatFw d of
             None \<Rightarrow> Some d
           | Some m \<Rightarrow> map_option (\<lambda>m. d\<lparr> firewall := DnatFirewall m \<rparr>) (remove_mappings realPrefixes (fakeIPManager d) m))"

fun add_mappings :: "(addr \<times> addr) list \<Rightarrow> nat_state \<Rightarrow> nat_state" where
  "add_mappings [] m = m"
| "add_mappings ((fakeIP, realIP) # ms) m =
     (case AddInternalDNATMapping fakeIP realIP m of
        Inl _ \<Rightarrow> add_mappings ms m
      | Inr m \<Rightarrow> add_mappings ms m)"

definition addDNATMappings :: "ic_env \<Rightarrow> (addr, addr) gmap \<Rightarrow> DnsInterceptor \<Rightarrow> DnsInterceptor" where
  "addDNATMappings E mappings d =
     (if mappings = [] then d
      else case internalDnatFw d of
             None \<Rightarrow> d
           | Some m \<Rightarrow>
               d\<lparr> firewall := DnatFirewall
                    (add_mappings [(f, the (gget mappings f)). f \<leftarrow> addr_order E (gkeys mappings)] m) \<rparr>)"

fun cleanup_loop :: "string list \<Rightarrow> DnsInterceptor \<Rightarrow> DnsInterceptor option" where
  "cleanup_loop [] d = Some d"
| "cleanup_loop (dn # ds) d = do { d \<leftarrow> removeDNATMappings (domain_prefixes d dn) d; cleanup_loop ds d }"

definition cleanupDNATMappings :: "ic_env \<Rightarrow> DnsInterceptor \<Rightarrow> DnsInterceptor option" where
  "cleanupDNATMappings E d =
     (if internalDnatFw d = None then Some d
      else cleanup_loop (domain_order E (gkeys (interceptedDomains d))) d)"

fun allocate_fakes :: "prefix list \<Rightarrow> (addr, addr) gmap \<Rightarrow> FakeIPManager \<Rightarrow> (FakeIPManager \<times> (addr, addr) gmap) option" where
  "allocate_fakes [] mappings fm = Some (fm, mappings)"
| "allocate_fakes (prefix # ps) mappings fm = do {
     (fm, r) \<leftarrow> AllocateFakeIP (pfx_addr prefix) fm;
     allocate_fakes ps (case r of Inl _ \<Rightarrow> mappings | Inr fakeIP \<Rightarrow> gput fakeIP (pfx_addr prefix) mappings) fm
   }"

section \<open>Answers\<close>

text \<open>The prefixes to add, and the marks of the old ones.\<close>

fun mark_prefixes :: "prefix list \<Rightarrow> (prefix, bool) gmap \<Rightarrow> prefix list \<times> (prefix, bool) gmap" where
  "mark_prefixes [] s = ([], s)"
| "mark_prefixes (prefix # ps) s =
     (if gget s prefix \<noteq> None then mark_prefixes ps (gput prefix True s)
      else let (toAdd, s) = mark_prefixes ps s in (prefix # toAdd, s))"

definition determinePrefixChanges ::
    "(prefix list \<Rightarrow> prefix list) \<Rightarrow> prefix list \<Rightarrow> prefix list \<Rightarrow> prefix list \<times> prefix list" where
  "determinePrefixChanges ord oldPrefixes newPrefixes =
     (let prefixSet = fold (\<lambda>p. gput p False) oldPrefixes [];
          (toAdd, prefixSet) = mark_prefixes newPrefixes prefixSet
      in (toAdd, filter (\<lambda>p. gget prefixSet p = Some False) (ord (gkeys prefixSet))))"

definition remove_old :: "ic_env \<Rightarrow> prefix \<Rightarrow> DnsInterceptor \<Rightarrow> (DnsInterceptor \<times> ic_err list) option" where
  "remove_old E prefix d = do {
     (d, e1) \<leftarrow> decrement_route E (transformRealToFakePrefix d prefix) d;
     (d, e2) \<leftarrow> removeAllowedIP E prefix d;
     Some (d, e1 @ e2)
   }"

definition updateDomainPrefixes ::
    "ic_env \<Rightarrow> string \<Rightarrow> string \<Rightarrow> prefix list \<Rightarrow> DnsInterceptor \<Rightarrow> (DnsInterceptor \<times> ic_err list) option" where
  "updateDomainPrefixes E resolvedDomain originalDomain newPrefixes d = do {
     let oldPrefixes = domain_prefixes d resolvedDomain;
     let (toAdd, toRemove) = determinePrefixChanges (prefix_order E) oldPrefixes newPrefixes;
     (fm, mappings) \<leftarrow> (if internalDnatFw d \<noteq> None then allocate_fakes toAdd [] (fakeIPManager d)
                        else Some (fakeIPManager d, []));
     (d, es1) \<leftarrow> each (addRouteAndAllowedIP E) toAdd (d\<lparr> fakeIPManager := fm \<rparr>);
     let d = addDNATMappings E mappings d;
     (d, es2) \<leftarrow> (if KeepRoute d then Some (d, [])
                  else do { (d, es) \<leftarrow> each (remove_old E) toRemove d; d \<leftarrow> removeDNATMappings toRemove d; Some (d, es) });
     let newPrefixes = (if KeepRoute d then oldPrefixes @ toAdd else newPrefixes);
     let d = (if 0 < length toAdd \<or> 0 < length toRemove
              then d\<lparr> interceptedDomains := gput resolvedDomain newPrefixes (interceptedDomains d),
                      events := events d @ [UpdateResolvedDomainsStates (TrimSuffix originalDomain ''.'') resolvedDomain newPrefixes] \<rparr>
              else d);
     Some (d, es1 @ es2)
   }"

fun answer_prefixes :: "RR list \<Rightarrow> prefix list" where
  "answer_prefixes [] = []"
| "answer_prefixes (answer # rest) =
     (case (case answer of A bs \<Rightarrow> addr_from_slice bs | AAAA bs \<Rightarrow> addr_from_slice bs | OtherRR \<Rightarrow> None) of
        None \<Rightarrow> answer_prefixes rest
      | Some ip \<Rightarrow> PrefixFrom (unmap ip) (int (bit_len ip)) # answer_prefixes rest)"

definition replace_rr :: "FakeIPManager \<Rightarrow> RR \<Rightarrow> RR" where
  "replace_rr fm rr =
     (let fake = (\<lambda>bs. case addr_from_slice bs of
                         None \<Rightarrow> bs
                       | Some realIP \<Rightarrow> (case GetFakeIP realIP fm of Some fakeIP \<Rightarrow> AsSlice fakeIP | None \<Rightarrow> bs))
      in case rr of A bs \<Rightarrow> A (fake bs) | AAAA bs \<Rightarrow> AAAA (fake bs) | OtherRR \<Rightarrow> OtherRR)"

definition replaceIPsInDNSResponse :: "DnsInterceptor \<Rightarrow> dns_msg \<Rightarrow> dns_msg" where
  "replaceIPsInDNSResponse d reply =
     (if internalDnatFw d = None then reply
      else reply\<lparr> Answer := map (replace_rr (fakeIPManager d)) (Answer reply) \<rparr>)"

text \<open>\<open>origPattern\<close> is the pattern of the response writer, empty for another kind of writer; the result has the message written.\<close>

definition writeMsg :: "ic_env \<Rightarrow> string \<Rightarrow> dns_msg \<Rightarrow> DnsInterceptor \<Rightarrow> (DnsInterceptor \<times> dns_out) option" where
  "writeMsg E origPattern r d =
     (let r = r\<lparr> Zero := False \<rparr>
      in case Question r of
           [] \<Rightarrow> Some (d, Reply r)
         | (name, _) # _ \<Rightarrow>
             if length (Answer r) = 0 then Some (d, Reply r)
             else let resolvedDomain = ToLower name;
                      originalDomain = (if origPattern = '''' then resolvedDomain else origPattern);
                      newPrefixes = answer_prefixes (Answer r)
                  in if length newPrefixes = 0 then Some (d, Reply r)
                     else do {
                       (d, es) \<leftarrow> updateDomainPrefixes E resolvedDomain originalDomain newPrefixes d;
                       Some (d, Reply (replaceIPsInDNSResponse d r))
                     })"

text \<open>\<open>peers\<close> is the peer store; \<open>exchange\<close> is the exchange with the upstream server, \<open>None\<close> when it fails.\<close>

definition ServeDNS ::
    "ic_env \<Rightarrow> (string \<Rightarrow> addr option) \<Rightarrow> (addr \<Rightarrow> dns_msg \<Rightarrow> dns_msg option) \<Rightarrow> string \<Rightarrow> dns_msg \<Rightarrow> DnsInterceptor
     \<Rightarrow> (DnsInterceptor \<times> dns_out option) option" where
  "ServeDNS E peers exchange origPattern r d =
     (case Question r of
        [] \<Rightarrow> Some (d, None)
      | (_, qtype) # _ \<Rightarrow>
          if qtype \<noteq> TypeA \<and> qtype \<noteq> TypeAAAA then Some (d, Some (SetRcode r RcodeNameError True))
          else if currentPeerKey d = '''' then Some (d, Some (SetRcode r RcodeServerFailure False))
          else case peers (currentPeerKey d) of
                 None \<Rightarrow> Some (d, Some (SetRcode r RcodeServerFailure False))
               | Some upstreamIP \<Rightarrow>
                   (let r = (if Extra r = None then r\<lparr> AuthenticatedData := True \<rparr> else r)
                    in case exchange upstreamIP r of
                         None \<Rightarrow> Some (d, Some (BareFailure (Id r)))
                       | Some reply \<Rightarrow>
                           map_option (\<lambda>(d, out). (d, Some out)) (writeMsg E origPattern (reply\<lparr> Id := Id r \<rparr>) d)))"

section \<open>Removing the route\<close>

definition RemoveRoute :: "ic_env \<Rightarrow> DnsInterceptor \<Rightarrow> (DnsInterceptor \<times> ic_err list) option" where
  "RemoveRoute E d = do {
     (d, es) \<leftarrow> each (remove_old E) (all_prefixes E d) d;
     d \<leftarrow> cleanupDNATMappings E d;
     Some (d\<lparr> events := events d @ map DeleteResolvedDomainsStates (Domains d) @ [DeregisterHandler (Domains d)],
             interceptedDomains := [] \<rparr>, es)
   }"

section \<open>Counting references\<close>

text \<open>Functions whose calls succeed, and iteration orders that visit every key once.\<close>

definition working :: "('k, 'i, 'o) hooks \<Rightarrow> bool" where
  "working H \<longleftrightarrow> (\<forall>k inp cs. \<exists>out. add_fn H k inp cs = Added out) \<and> (\<forall>k out cs. remove_fn H k out cs = None)"

definition permutes_keys :: "('k list \<Rightarrow> 'k list) \<Rightarrow> bool" where
  "permutes_keys ord \<longleftrightarrow> (\<forall>xs. mset (ord xs) = mset xs)"

definition env_ok :: "ic_env \<Rightarrow> bool" where
  "env_ok E \<longleftrightarrow> working (route_hooks E) \<and> working (allowed_hooks E) \<and>
     permutes_keys (prefix_order E) \<and> permutes_keys (addr_order E) \<and> permutes_keys (domain_order E)"

definition counts :: "('k, 'o) Counter \<Rightarrow> 'k multiset \<Rightarrow> bool" where
  "counts c M \<longleftrightarrow> rc_inv c \<and> (\<forall>k. count_of c k = int (count M k))"

lemma counts_increment:
  assumes "working H" "counts c M"
  shows "\<exists>c' ref. Increment H k inp c = Some (c', Inr ref) \<and> counts c' (add_mset k M)"
proof -
  have inv: "rc_inv c" using assms(2) by (simp add: counts_def)
  show ?thesis
  proof (cases rule: increment_spec [OF inv, of H k inp, case_names refused counted])
    case (refused c' r)
    obtain out where "add_fn H k inp (calls c) = Added out" using assms(1) unfolding working_def by blast
    then show ?thesis using refused(5) by (cases r) auto
  next
    case (counted c' ref)
    then show ?thesis using assms(2) by (auto simp: Increment_def counts_def)
  qed
qed

lemma counts_decrement:
  assumes "working H" "counts c (add_mset k M)"
  shows "\<exists>c'. Decrement H k c = Some (c', None) \<and> counts c' M"
proof -
  have inv: "rc_inv c" using assms(2) by (simp add: counts_def)
  show ?thesis
  proof (cases rule: decrement_spec [OF inv, of H k, case_names kept released])
    case (kept c' e)
    then show ?thesis using assms(1) by (auto simp: working_def)
  next
    case (released c')
    then show ?thesis using assms(2) by (auto simp: Decrement_def counts_def)
  qed
qed

lemma counts_held: "counts c M \<Longrightarrow> dom (holds (calls c)) = set_mset M"
proof -
  assume c: "counts c M"
  then obtain m where m: "refCountMap c = Some m" "refs_inv m (calls c)" by (auto simp: counts_def elim: rc_invE)
  have "holds (calls c) k \<noteq> None \<longleftrightarrow> count_of c k \<noteq> 0" for k
    using m by (force simp: refs_inv_def count_of_def Counter_Get_def split: option.splits)
  then have "k \<in> dom (holds (calls c)) \<longleftrightarrow> k \<in># M" for k
    using c unfolding domIff by (simp add: counts_def count_eq_zero_iff)
  then show ?thesis by blast
qed

text \<open>A change of the two counters only.\<close>

definition with_counters :: "(prefix, unit) Counter \<Rightarrow> (prefix, string) Counter \<Rightarrow> DnsInterceptor \<Rightarrow> DnsInterceptor" where
  "with_counters c a d = d\<lparr> routeRefCounter := c, allowedIPsRefcounter := a \<rparr>"

lemma with_counters_simps [simp]:
  "GOOS (with_counters c a d) = GOOS d" "Domains (with_counters c a d) = Domains d"
  "KeepRoute (with_counters c a d) = KeepRoute d" "currentPeerKey (with_counters c a d) = currentPeerKey d"
  "interceptedDomains (with_counters c a d) = interceptedDomains d" "routeRefCounter (with_counters c a d) = c"
  "allowedIPsRefcounter (with_counters c a d) = a" "fakeIPManager (with_counters c a d) = fakeIPManager d"
  "firewall (with_counters c a d) = firewall d" "events (with_counters c a d) = events d"
  "with_counters c a (with_counters c' a' d) = with_counters c a d"
  "with_counters (routeRefCounter d) (allowedIPsRefcounter d) d = d"
  "internalDnatFw (with_counters c a d) = internalDnatFw d"
  "transformRealToFakePrefix (with_counters c a d) p = transformRealToFakePrefix d p"
  "domain_prefixes (with_counters c a d) dn = domain_prefixes d dn"
  by (simp_all add: with_counters_def internalDnatFw_def transformRealToFakePrefix_def domain_prefixes_def)

abbreviation peer_refs :: "DnsInterceptor \<Rightarrow> prefix multiset \<Rightarrow> prefix multiset" where
  "peer_refs d M \<equiv> (if currentPeerKey d = '''' then {#} else M)"

lemma add_prefix:
  assumes "env_ok E" "counts (routeRefCounter d) R" "counts (allowedIPsRefcounter d) S"
  shows "\<exists>c a. addRouteAndAllowedIP E p d = Some (with_counters c a d, []) \<and>
    counts c (add_mset (transformRealToFakePrefix d p) R) \<and> counts a (S + peer_refs d {#p#})"
proof -
  obtain c r where c: "Increment (route_hooks E) (transformRealToFakePrefix d p) () (routeRefCounter d) = Some (c, Inr r)"
    "counts c (add_mset (transformRealToFakePrefix d p) R)"
    using counts_increment assms by (metis env_ok_def)
  obtain a r' where a: "Increment (allowed_hooks E) p (currentPeerKey d) (allowedIPsRefcounter d) = Some (a, Inr r')"
    "counts a (add_mset p S)"
    using counts_increment assms by (metis env_ok_def)
  show ?thesis
  proof (cases "currentPeerKey d = ''''")
    case True
    then have "addRouteAndAllowedIP E p d = Some (with_counters c (allowedIPsRefcounter d) d, [])"
      using c by (simp add: addRouteAndAllowedIP_def with_counters_def Let_def)
    then show ?thesis using c(2) assms(3) True by auto
  next
    case False
    then have "addRouteAndAllowedIP E p d = Some (with_counters c a d, [])"
      using a c by (simp add: addRouteAndAllowedIP_def addAllowedIPForPrefix_def with_counters_def Let_def)
    then show ?thesis using a(2) c(2) False by auto
  qed
qed

lemma remove_prefix:
  assumes "env_ok E" "counts (routeRefCounter d) (add_mset (transformRealToFakePrefix d p) R)"
    "counts (allowedIPsRefcounter d) (S + peer_refs d {#p#})"
  shows "\<exists>c a. remove_old E p d = Some (with_counters c a d, []) \<and> counts c R \<and> counts a S"
proof -
  obtain c where c: "Decrement (route_hooks E) (transformRealToFakePrefix d p) (routeRefCounter d) = Some (c, None)" "counts c R"
    using counts_decrement assms(1,2) by (metis env_ok_def)
  show ?thesis
  proof (cases "currentPeerKey d = ''''")
    case True
    then have "remove_old E p d = Some (with_counters c (allowedIPsRefcounter d) d, [])"
      using c by (simp add: remove_old_def decrement_route_def removeAllowedIP_def with_counters_def)
    then show ?thesis using c(2) assms(3) True by auto
  next
    case False
    then have "counts (allowedIPsRefcounter d) (add_mset p S)" using assms(3) by simp
    then obtain a where a: "Decrement (allowed_hooks E) p (allowedIPsRefcounter d) = Some (a, None)" "counts a S"
      using counts_decrement assms(1) by (metis env_ok_def)
    then have "remove_old E p d = Some (with_counters c a d, [])"
      using c False
      by (simp add: remove_old_def decrement_route_def removeAllowedIP_def decrement_allowed_def with_counters_def)
    then show ?thesis using a(2) c(2) by auto
  qed
qed

lemma add_prefixes:
  assumes "env_ok E" "counts (routeRefCounter d) R" "counts (allowedIPsRefcounter d) S"
  shows "\<exists>c a. each (addRouteAndAllowedIP E) ps d = Some (with_counters c a d, []) \<and>
    counts c (R + image_mset (transformRealToFakePrefix d) (mset ps)) \<and> counts a (S + peer_refs d (mset ps))"
  using assms(2,3)
proof (induction ps arbitrary: d R S)
  case Nil
  then show ?case by (auto intro!: exI [of _ "routeRefCounter d"] exI [of _ "allowedIPsRefcounter d"])
next
  case (Cons p ps)
  from add_prefix [OF assms(1) Cons.prems, of p] obtain c a where
    1: "addRouteAndAllowedIP E p d = Some (with_counters c a d, [])"
    "counts c (add_mset (transformRealToFakePrefix d p) R)" "counts a (S + peer_refs d {#p#})" by blast
  from Cons.IH [of "with_counters c a d" "add_mset (transformRealToFakePrefix d p) R" "S + peer_refs d {#p#}"] 1(2,3)
  obtain c' a' where
    "each (addRouteAndAllowedIP E) ps (with_counters c a d) = Some (with_counters c' a' d, [])"
    "counts c' (add_mset (transformRealToFakePrefix d p) R + image_mset (transformRealToFakePrefix d) (mset ps))"
    "counts a' (S + peer_refs d {#p#} + peer_refs d (mset ps))" by auto
  with 1(1) show ?case by (intro exI [of _ c'] exI [of _ a']) (auto simp: add.assoc split: if_splits)
qed

lemma remove_prefixes:
  assumes "env_ok E" "counts (routeRefCounter d) (R + image_mset (transformRealToFakePrefix d) (mset ps))"
    "counts (allowedIPsRefcounter d) (S + peer_refs d (mset ps))"
  shows "\<exists>c a. each (remove_old E) ps d = Some (with_counters c a d, []) \<and> counts c R \<and> counts a S"
  using assms(2,3)
proof (induction ps arbitrary: d)
  case Nil
  then show ?case by (auto intro!: exI [of _ "routeRefCounter d"] exI [of _ "allowedIPsRefcounter d"] split: if_splits)
next
  case (Cons p ps)
  have "counts (routeRefCounter d) (add_mset (transformRealToFakePrefix d p) (R + image_mset (transformRealToFakePrefix d) (mset ps)))"
    "counts (allowedIPsRefcounter d) ((S + peer_refs d (mset ps)) + peer_refs d {#p#})"
    using Cons.prems by (auto split: if_splits)
  from remove_prefix [OF assms(1) this] obtain c a where
    1: "remove_old E p d = Some (with_counters c a d, [])"
    "counts c (R + image_mset (transformRealToFakePrefix d) (mset ps))" "counts a (S + peer_refs d (mset ps))" by blast
  from Cons.IH [of "with_counters c a d"] 1(2,3) obtain c' a' where
    "each (remove_old E) ps (with_counters c a d) = Some (with_counters c' a' d, [])" "counts c' R" "counts a' S" by auto
  with 1(1) show ?case by auto
qed

lemma add_allowed:
  assumes "env_ok E" "counts (allowedIPsRefcounter d) S"
  shows "\<exists>a. each (addAllowedIPForPrefix E key) ps d = Some (with_counters (routeRefCounter d) a d, []) \<and> counts a (S + mset ps)"
  using assms(2)
proof (induction ps arbitrary: d S)
  case Nil
  then show ?case by (auto intro!: exI [of _ "allowedIPsRefcounter d"])
next
  case (Cons p ps)
  obtain a r where a: "Increment (allowed_hooks E) p key (allowedIPsRefcounter d) = Some (a, Inr r)" "counts a (add_mset p S)"
    using counts_increment assms(1) Cons.prems by (metis env_ok_def)
  then have 1: "addAllowedIPForPrefix E key p d = Some (with_counters (routeRefCounter d) a d, [])"
    by (simp add: addAllowedIPForPrefix_def with_counters_def)
  from Cons.IH [of "with_counters (routeRefCounter d) a d" "add_mset p S"] a(2) show ?case using 1 by auto
qed

lemma remove_allowed:
  assumes "env_ok E" "counts (allowedIPsRefcounter d) (S + mset ps)"
  shows "\<exists>a. each (decrement_allowed E) ps d = Some (with_counters (routeRefCounter d) a d, []) \<and> counts a S"
  using assms(2)
proof (induction ps arbitrary: d)
  case Nil
  then show ?case by (auto intro!: exI [of _ "allowedIPsRefcounter d"])
next
  case (Cons p ps)
  obtain a where a: "Decrement (allowed_hooks E) p (allowedIPsRefcounter d) = Some (a, None)" "counts a (S + mset ps)"
    using counts_decrement [of "allowed_hooks E" "allowedIPsRefcounter d" p "S + mset ps"] assms(1) Cons.prems by (auto simp: env_ok_def)
  then have 1: "decrement_allowed E p d = Some (with_counters (routeRefCounter d) a d, [])"
    by (simp add: decrement_allowed_def with_counters_def)
  from Cons.IH [of "with_counters (routeRefCounter d) a d"] a(2) show ?case using 1 by auto
qed

section \<open>The prefixes on record\<close>

lemma mark_prefixes_spec:
  "\<exists>s'. mark_prefixes ps s = (filter (\<lambda>p. gget s p = None) ps, s') \<and>
    (\<forall>p. gget s' p = (if gget s p \<noteq> None \<and> p \<in> set ps then Some True else gget s p)) \<and> (gwf s \<longrightarrow> gwf s')"
proof (induction ps arbitrary: s)
  case (Cons p ps)
  show ?case
  proof (cases "gget s p = None")
    case True
    with Cons.IH [of s] show ?thesis by (auto split: prod.splits)
  next
    case False
    then have "(gget (gput p True s) q = None) = (gget s q = None)" for q by auto
    with Cons.IH [of "gput p True s"] False show ?thesis by (fastforce intro: gwf_gput)
  qed
qed simp

lemma old_marks:
  "gget (fold (\<lambda>p. gput p False) ps s) q = (if q \<in> set ps then Some False else gget s q)"
  "gwf s \<Longrightarrow> gwf (fold (\<lambda>p. gput p False) ps s)"
  by (induction ps arbitrary: s) (auto intro: gwf_gput)

lemma determinePrefixChanges_spec:
  assumes "permutes_keys ord"
  shows "\<exists>toRemove. determinePrefixChanges ord old new = (filter (\<lambda>p. p \<notin> set old) new, toRemove) \<and>
    distinct toRemove \<and> set toRemove = set old - set new"
proof -
  let ?s = "fold (\<lambda>p. gput p False) old []"
  obtain s' where m: "mark_prefixes new ?s = (filter (\<lambda>p. gget ?s p = None) new, s')"
    "\<forall>p. gget s' p = (if gget ?s p \<noteq> None \<and> p \<in> set new then Some True else gget ?s p)" "gwf s'"
    using mark_prefixes_spec [of new ?s] old_marks(2) [of "[]" old] by auto
  have perm: "mset (ord (gkeys s')) = mset (gkeys s')" using assms by (simp add: permutes_keys_def)
  let ?r = "filter (\<lambda>p. gget s' p = Some False) (ord (gkeys s'))"
  have "distinct (gkeys s')" using m(3) by simp
  then have "distinct ?r" using mset_eq_imp_distinct_iff [OF perm] by simp
  moreover have "set (ord (gkeys s')) = set (gkeys s')" by (rule mset_eq_setD [OF perm])
  then have "p \<in> set ?r \<longleftrightarrow> gget s' p = Some False" for p
    using gget_None_iff [of s' p] by auto
  then have "set ?r = set old - set new" using m(2) by (auto simp: old_marks(1) split: if_splits)
  moreover have "filter (\<lambda>p. gget ?s p = None) new = filter (\<lambda>p. p \<notin> set old) new"
    by (rule filter_cong) (simp_all add: old_marks(1))
  ultimately show ?thesis using m(1) by (auto simp: determinePrefixChanges_def Let_def)
qed

lemma mset_changes:
  assumes "distinct old" "distinct new" "distinct rem" "set rem = set old - set new"
  shows "mset old + mset (filter (\<lambda>p. p \<notin> set old) new) = mset new + mset rem"
  using assms by (intro multiset_eqI) (auto simp: distinct_count_atmost_1 count_mset count_list_0_iff)

abbreviation on_record :: "DnsInterceptor \<Rightarrow> prefix multiset" where
  "on_record d \<equiv> outstanding (interceptedDomains d)"

lemma outstanding_put:
  "gwf ids \<Longrightarrow> outstanding (gput i v ids) = outstanding (gdel i ids) + mset v"
  using outstanding_gdel [of "gput i v ids" i] by (simp add: AList.delete_update_same)

lemma domain_split:
  "gwf (interceptedDomains d) \<Longrightarrow>
   on_record d = outstanding (gdel dn (interceptedDomains d)) + mset (domain_prefixes d dn)"
  by (simp add: domain_prefixes_def outstanding_gdel [symmetric])

lemma concat_keys:
  assumes "gwf m"
  shows "mset (concat (map (\<lambda>k. case gget m k of Some ps \<Rightarrow> ps | None \<Rightarrow> []) (gkeys m))) = outstanding m"
proof -
  have "map (\<lambda>k. case gget m k of Some ps \<Rightarrow> ps | None \<Rightarrow> []) (gkeys m) = map snd m"
    using assms by (auto simp: comp_def intro!: map_cong)
  then show ?thesis unfolding outstanding_def by (rule arg_cong)
qed

lemma mset_concat_perm: "mset xs = mset ys \<Longrightarrow> mset (concat (map f xs)) = mset (concat (map f ys))"
  by (metis mset_concat mset_map sum_mset_sum_list)

lemma all_prefixes_record:
  assumes "env_ok E" "gwf (interceptedDomains d)"
  shows "mset (all_prefixes E d) = on_record d"
proof -
  have "mset (domain_order E (gkeys (interceptedDomains d))) = mset (gkeys (interceptedDomains d))"
    using assms(1) by (simp add: env_ok_def permutes_keys_def)
  from mset_concat_perm [OF this] show ?thesis
    using concat_keys [OF assms(2)] unfolding all_prefixes_def domain_prefixes_def [abs_def] by metis
qed

section \<open>Fake addresses and translations\<close>

text \<open>The fake address of \<open>a\<close> no longer changes.\<close>

definition settled :: "FakeIPManager \<Rightarrow> addr \<Rightarrow> bool" where
  "settled fm a \<longleftrightarrow> GetFakeIP a fm \<noteq> None \<or> \<not> is_valid (unmap a) \<or> exhausted (unmap a) fm"

definition pair_ok :: "FakeIPManager \<Rightarrow> addr \<Rightarrow> addr \<Rightarrow> bool" where
  "pair_ok fm f r \<longleftrightarrow> GetFakeIP r fm = Some f \<and> unmap r = r"

definition extends :: "FakeIPManager \<Rightarrow> FakeIPManager \<Rightarrow> bool" where
  "extends fm fm' \<longleftrightarrow> fake_inv fm' \<and> (\<forall>x f. GetFakeIP x fm = Some f \<longrightarrow> GetFakeIP x fm' = Some f) \<and>
     (\<forall>a. settled fm a \<longrightarrow> settled fm' a \<and> GetFakeIP a fm' = GetFakeIP a fm)"

lemma extends_trans: "extends a b \<Longrightarrow> extends b c \<Longrightarrow> extends a c"
  unfolding extends_def by metis

lemma GetFakeIP_unmap: "unmap a = unmap b \<Longrightarrow> GetFakeIP a fm = GetFakeIP b fm"
  by (simp add: GetFakeIP_def)

lemma allocate_extends:
  assumes "fake_inv fm"
  shows "\<exists>fm' r. AllocateFakeIP x fm = Some (fm', r) \<and> extends fm fm' \<and> settled fm' x \<and>
    (\<forall>f. r = Inr f \<longrightarrow> GetFakeIP x fm' = Some f)"
proof -
  from AllocateFakeIP_spec [OF assms, of x] obtain fm' r where
    m': "AllocateFakeIP x fm = Some (fm', r)" "fake_inv fm'" and mono: "\<forall>x f. GetFakeIP x fm = Some f \<longrightarrow> GetFakeIP x fm' = Some f"
    and r: "case r of
       Inr f \<Rightarrow> GetFakeIP x fm' = Some f \<and> (GetFakeIP x fm = None \<longrightarrow> \<not> exhausted (unmap x) fm) \<and>
         (\<forall>y. unmap y \<noteq> unmap x \<longrightarrow> GetFakeIP y fm' = GetFakeIP y fm)
     | Inl e \<Rightarrow> (\<forall>y. GetFakeIP y fm' = GetFakeIP y fm) \<and>
         (is_valid (unmap x) \<longrightarrow> GetFakeIP x fm = None \<and> exhausted (unmap x) fm)" by blast
  note ex = exhausted_mono [OF assms m'(2) mono]
  have keep: "GetFakeIP a fm' = GetFakeIP a fm" if "settled fm a" for a
  proof (cases "GetFakeIP a fm")
    case None
    show ?thesis
    proof (cases "is_valid (unmap a)")
      case True
      then have e: "exhausted (unmap a) fm" using that None by (auto simp: settled_def)
      show ?thesis
      proof (cases r)
        case (Inl e)
        then show ?thesis using r by simp
      next
        case (Inr f)
        have "unmap a \<noteq> unmap x"
        proof
          assume "unmap a = unmap x"
          with None e r Inr show False using GetFakeIP_unmap [of a x fm] by simp
        qed
        with r Inr show ?thesis by simp
      qed
    qed (simp add: GetFakeIP_def)
  qed (use mono in simp)
  have "settled fm' a" if "settled fm a" for a using that keep [OF that] ex unfolding settled_def by metis
  with keep mono m'(2) have "extends fm fm'" unfolding extends_def by blast
  moreover have "settled fm' x" using r ex by (cases r) (auto simp: settled_def)
  ultimately show ?thesis using m'(1) r by (cases r) auto
qed

lemma allocate_fakes_spec:
  assumes "fake_inv fm" "\<forall>p\<in>set ps. unmap (pfx_addr p) = pfx_addr p" "\<forall>f r. gget ms f = Some r \<longrightarrow> pair_ok fm f r"
  shows "\<exists>fm' ms'. allocate_fakes ps ms fm = Some (fm', ms') \<and> (ps = [] \<and> fm' = fm \<or> extends fm fm') \<and>
    (\<forall>f r. gget ms' f = Some r \<longrightarrow> pair_ok fm' f r) \<and> (\<forall>p\<in>set ps. settled fm' (pfx_addr p))"
  using assms
proof (induction ps arbitrary: ms fm)
  case (Cons p ps)
  from allocate_extends [OF Cons.prems(1), of "pfx_addr p"] obtain fm1 r where
    1: "AllocateFakeIP (pfx_addr p) fm = Some (fm1, r)" "extends fm fm1" "settled fm1 (pfx_addr p)"
    "\<forall>f. r = Inr f \<longrightarrow> GetFakeIP (pfx_addr p) fm1 = Some f" by blast
  let ?ms = "case r of Inl _ \<Rightarrow> ms | Inr fakeIP \<Rightarrow> gput fakeIP (pfx_addr p) ms"
  have "pair_ok fm1 f r'" if "gget ms f = Some r'" for f r'
    using Cons.prems(3) that 1(2) unfolding pair_ok_def extends_def by blast
  then have "\<forall>f r'. gget ?ms f = Some r' \<longrightarrow> pair_ok fm1 f r'"
    using 1(4) Cons.prems(2) by (cases r) (auto simp: pair_ok_def)
  with Cons.IH [of fm1 ?ms] Cons.prems(2) 1(2) obtain fm' ms' where
    2: "allocate_fakes ps ?ms fm1 = Some (fm', ms')" "ps = [] \<and> fm' = fm1 \<or> extends fm1 fm'"
    "\<forall>f r. gget ms' f = Some r \<longrightarrow> pair_ok fm' f r" "\<forall>p\<in>set ps. settled fm' (pfx_addr p)"
    by (auto simp: extends_def)
  have "extends fm fm'" "settled fm' (pfx_addr p)" using 1(2,3) 2(2) extends_trans by (auto simp: extends_def)
  with 1(1) 2 show ?case by auto
qed simp

definition bimap_ok :: "FakeIPManager \<Rightarrow> nat_state \<Rightarrow> bool" where
  "bimap_ok fm m \<longleftrightarrow> nat_inv m \<and>
     (\<forall>b. dnatBiMap m = Some b \<longrightarrow> bi_inv b \<and> (\<forall>f r. gget (forward b) f = Some r \<longrightarrow> pair_ok fm f r))"

lemma bimap_ok_extends: "bimap_ok fm m \<Longrightarrow> extends fm fm' \<Longrightarrow> bimap_ok fm' m"
  unfolding bimap_ok_def extends_def pair_ok_def by blast

lemma AddInternal_bimap:
  "AddInternalDNATMapping f r m = Inr m' \<Longrightarrow>
   dnatBiMap m' = Some (bi_set f r (case dnatBiMap m of None \<Rightarrow> newBiDNATMap | Some b \<Rightarrow> b))"
  by (auto simp: AddInternalDNATMapping_def Let_def split: if_splits option.splits)

lemma RemoveInternal_bimap:
  "RemoveInternalDNATMapping f m = Some (Inr m') \<Longrightarrow> dnatBiMap m' = map_option (bi_delete f) (dnatBiMap m)"
  by (auto simp: RemoveInternalDNATMapping_def Let_def split: if_splits option.splits)

lemma bi_set_ok:
  assumes "fake_inv fm" "bi_inv b" "\<forall>f r. gget (forward b) f = Some r \<longrightarrow> pair_ok fm f r" "pair_ok fm f r"
  shows "bi_inv (bi_set f r b) \<and> (\<forall>f' r'. gget (forward (bi_set f r b)) f' = Some r' \<longrightarrow> pair_ok fm f' r')"
proof
  have real: "r' = r" if "gget (forward b) f = Some r'" for r'
  proof -
    have "pair_ok fm f r'" using assms(3) that by blast
    then have "GetRealIP f fm = Some r'" "GetRealIP f fm = Some r"
      using GetFakeIP_Some [OF assms(1), of r' f] GetFakeIP_Some [OF assms(1), of r f] assms(4)
      unfolding pair_ok_def by simp_all
    then show ?thesis by simp
  qed
  have fake: "f' = f" if "gget (reverse b) r = Some f'" for f'
    using that assms(2-4) unfolding bi_inv_def pair_ok_def by (metis option.inject)
  have iff: "gget (forward b) x = Some y \<longleftrightarrow> gget (reverse b) y = Some x" for x y using assms(2) by (simp add: bi_inv_def)
  show "bi_inv (bi_set f r b)"
    unfolding bi_inv_def bi_set_def using real fake iff by (auto split: if_splits)
  show "\<forall>f' r'. gget (forward (bi_set f r b)) f' = Some r' \<longrightarrow> pair_ok fm f' r'"
    using assms(3,4) by (auto simp: bi_set_def)
qed

lemma add_mappings_ok:
  assumes "fake_inv fm" "bimap_ok fm m" "\<forall>(f, r)\<in>set ms. pair_ok fm f r"
  shows "bimap_ok fm (add_mappings ms m)"
  using assms(2,3)
proof (induction ms arbitrary: m)
  case (Cons fr ms)
  obtain f r where fr: "fr = (f, r)" by (cases fr)
  show ?case
  proof (cases "AddInternalDNATMapping f r m")
    case (Inl e)
    then show ?thesis using Cons fr by simp
  next
    case (Inr m')
    let ?b = "case dnatBiMap m of None \<Rightarrow> newBiDNATMap | Some b \<Rightarrow> b"
    have "bi_inv ?b \<and> (\<forall>f r. gget (forward ?b) f = Some r \<longrightarrow> pair_ok fm f r)"
      using Cons.prems(1) bi_inv_new unfolding bimap_ok_def by (auto simp: newBiDNATMap_def split: option.splits)
    then have "bimap_ok fm m'"
      using bi_set_ok [OF assms(1), of ?b f r] Cons.prems fr AddInternal_bimap [OF Inr] nat_inv_add [OF _ Inr]
      unfolding bimap_ok_def by auto
    then show ?thesis using Cons fr Inr by simp
  qed
qed simp

lemma remove_bimap_ok:
  assumes "bimap_ok fm m" "RemoveInternalDNATMapping f m = Some (Inr m1)"
  shows "bimap_ok fm m1"
proof -
  have inv: "nat_inv m1" using nat_inv_remove [of m f, OF _ refl] assms by (auto simp: bimap_ok_def)
  have fwd: "gget (forward (bi_delete f b)) x = Some y \<Longrightarrow> gget (forward b) x = Some y" for b x y
    by (auto simp: bi_delete_def split: option.splits if_splits)
  have "bi_inv b' \<and> (\<forall>f r. gget (forward b') f = Some r \<longrightarrow> pair_ok fm f r)" if b': "dnatBiMap m1 = Some b'" for b'
  proof -
    obtain b where b: "dnatBiMap m = Some b" "b' = bi_delete f b" using RemoveInternal_bimap [OF assms(2)] b' by (cases "dnatBiMap m") auto
    then have "bi_inv b" "\<forall>f r. gget (forward b) f = Some r \<longrightarrow> pair_ok fm f r"
      using assms(1) unfolding bimap_ok_def by blast+
    then show ?thesis unfolding b(2) using bi_inv_delete fwd by blast
  qed
  then show ?thesis using inv unfolding bimap_ok_def by blast
qed

lemma remove_mappings_ok:
  assumes "bimap_ok fm m"
  shows "\<exists>m'. remove_mappings ps fm' m = Some m' \<and> bimap_ok fm m'"
  using assms
proof (induction ps arbitrary: m)
  case (Cons p ps)
  show ?case
  proof (cases "GetFakeIP (pfx_addr p) fm'")
    case (Some f)
    have inv: "nat_inv m" using Cons.prems by (simp add: bimap_ok_def)
    from nat_inv_remove [OF inv refl, of f] consider e where "RemoveInternalDNATMapping f m = Some (Inl e)"
      | m1 where "RemoveInternalDNATMapping f m = Some (Inr m1)" by blast
    then show ?thesis using Cons Some remove_bimap_ok [OF Cons.prems] by cases auto
  qed (use Cons in simp)
qed simp

section \<open>The invariant\<close>

definition fw_ok :: "DnsInterceptor \<Rightarrow> bool" where
  "fw_ok d \<longleftrightarrow> (\<forall>m. internalDnatFw d = Some m \<longrightarrow> bimap_ok (fakeIPManager d) m)"

text \<open>
  The counters are shared with the other handlers of the client: \<open>R0\<close> and \<open>S0\<close> are the references to routes
  and allowed addresses that those hold.
\<close>

definition ic_inv :: "prefix multiset \<Rightarrow> prefix multiset \<Rightarrow> DnsInterceptor \<Rightarrow> bool" where
  "ic_inv R0 S0 d \<longleftrightarrow> gwf (interceptedDomains d) \<and> fake_inv (fakeIPManager d) \<and> fw_ok d \<and>
     (\<forall>dn ps. gget (interceptedDomains d) dn = Some ps \<longrightarrow>
        distinct ps \<and> (internalDnatFw d \<noteq> None \<longrightarrow> (\<forall>p\<in>set ps. settled (fakeIPManager d) (pfx_addr p)))) \<and>
     counts (routeRefCounter d) (R0 + image_mset (transformRealToFakePrefix d) (on_record d)) \<and>
     counts (allowedIPsRefcounter d) (S0 + peer_refs d (on_record d))"

text \<open>A change of the firewall's tables only.\<close>

definition same_dnat :: "fw_kind \<Rightarrow> DnsInterceptor \<Rightarrow> bool" where
  "same_dnat fw d \<longleftrightarrow> (internalDnatFw (d\<lparr> firewall := fw \<rparr>) = None \<longleftrightarrow> internalDnatFw d = None)"

lemma transform_cong:
  "(internalDnatFw d = None) = (internalDnatFw d' = None) \<Longrightarrow> fakeIPManager d = fakeIPManager d' \<Longrightarrow>
   transformRealToFakePrefix d = transformRealToFakePrefix d'"
  by (auto simp: transformRealToFakePrefix_def)

lemma on_record_domain: "p \<in># on_record d \<Longrightarrow> gwf (interceptedDomains d) \<Longrightarrow> \<exists>dn ps. gget (interceptedDomains d) dn = Some ps \<and> p \<in> set ps"
  by (force simp: outstanding_def)

lemma dnat_set: "internalDnatFw d = Some m \<Longrightarrow> internalDnatFw (d\<lparr> firewall := DnatFirewall m' \<rparr>) = Some m'"
  by (auto simp: internalDnatFw_def split: if_splits)

lemma addDNATMappings_spec:
  assumes "env_ok E" "fake_inv (fakeIPManager d)" "fw_ok d" "\<forall>f r. gget ms f = Some r \<longrightarrow> pair_ok (fakeIPManager d) f r"
  shows "\<exists>fw. addDNATMappings E ms d = d\<lparr> firewall := fw \<rparr> \<and> same_dnat fw d \<and> fw_ok (d\<lparr> firewall := fw \<rparr>)"
proof (cases "ms = [] \<or> internalDnatFw d = None")
  case True
  then have "addDNATMappings E ms d = d\<lparr> firewall := firewall d \<rparr>" by (auto simp: addDNATMappings_def)
  then show ?thesis using assms(3) by (intro exI [of _ "firewall d"]) (simp add: same_dnat_def)
next
  case False
  then obtain m where m: "internalDnatFw d = Some m" by auto
  have "mset (addr_order E (gkeys ms)) = mset (gkeys ms)" using assms(1) by (simp add: env_ok_def permutes_keys_def)
  then have keys: "set (addr_order E (gkeys ms)) = set (gkeys ms)" by (rule mset_eq_setD)
  let ?ps = "[(f, the (gget ms f)). f \<leftarrow> addr_order E (gkeys ms)]"
  have "pair_ok (fakeIPManager d) f r" if "(f, r) \<in> set ?ps" for f r
  proof -
    have "f \<in> set (gkeys ms)" "r = the (gget ms f)" using that keys by auto
    then obtain r' where "gget ms f = Some r'" using gget_None_iff [of ms f] by auto
    then show ?thesis using assms(4) \<open>r = the (gget ms f)\<close> by simp
  qed
  then have "bimap_ok (fakeIPManager d) (add_mappings ?ps m)"
    using add_mappings_ok [OF assms(2), of m ?ps] assms(3) m by (auto simp: fw_ok_def)
  then show ?thesis using False m
    by (intro exI [of _ "DnatFirewall (add_mappings ?ps m)"])
      (simp add: addDNATMappings_def same_dnat_def fw_ok_def dnat_set [OF m])
qed

lemma removeDNATMappings_spec:
  assumes "fw_ok d"
  shows "\<exists>fw. removeDNATMappings ps d = Some (d\<lparr> firewall := fw \<rparr>) \<and> same_dnat fw d \<and> fw_ok (d\<lparr> firewall := fw \<rparr>)"
proof (cases "ps = [] \<or> internalDnatFw d = None")
  case True
  then have "removeDNATMappings ps d = Some (d\<lparr> firewall := firewall d \<rparr>)" by (auto simp: removeDNATMappings_def)
  then show ?thesis using assms by (intro exI [of _ "firewall d"]) (simp add: same_dnat_def)
next
  case False
  then obtain m where m: "internalDnatFw d = Some m" by auto
  then obtain m' where "remove_mappings ps (fakeIPManager d) m = Some m'" "bimap_ok (fakeIPManager d) m'"
    using remove_mappings_ok assms unfolding fw_ok_def by blast
  then show ?thesis using False m
    by (intro exI [of _ "DnatFirewall m'"]) (simp add: removeDNATMappings_def same_dnat_def fw_ok_def dnat_set [OF m])
qed

lemma extends_inv:
  assumes "ic_inv R0 S0 d" "extends (fakeIPManager d) fm"
  shows "ic_inv R0 S0 (d\<lparr> fakeIPManager := fm \<rparr>)"
proof -
  have inv: "gwf (interceptedDomains d)" "fw_ok d" using assms(1) by (auto simp: ic_inv_def)
  let ?d = "d\<lparr> fakeIPManager := fm \<rparr>"
  have dn [simp]: "internalDnatFw ?d = internalDnatFw d" by (simp add: internalDnatFw_def)
  have "transformRealToFakePrefix ?d p = transformRealToFakePrefix d p" if rec: "p \<in># on_record d" for p
  proof (cases "internalDnatFw d = None")
    case False
    obtain n ps where "gget (interceptedDomains d) n = Some ps" "p \<in> set ps" using on_record_domain [OF rec inv(1)] by blast
    then have "settled (fakeIPManager d) (pfx_addr p)" using assms(1) False by (auto simp: ic_inv_def)
    then have "GetFakeIP (pfx_addr p) fm = GetFakeIP (pfx_addr p) (fakeIPManager d)" using assms(2) by (simp add: extends_def)
    then show ?thesis by (simp add: transformRealToFakePrefix_def)
  qed (simp add: transformRealToFakePrefix_def)
  then have "image_mset (transformRealToFakePrefix ?d) (on_record d) = image_mset (transformRealToFakePrefix d) (on_record d)"
    by (intro image_mset_cong)
  moreover have "fw_ok ?d" using inv(2) assms(2) by (auto simp: fw_ok_def intro: bimap_ok_extends)
  moreover have "fake_inv fm" "\<forall>a. settled (fakeIPManager d) a \<longrightarrow> settled fm a" using assms(2) by (auto simp: extends_def)
  ultimately show ?thesis using assms(1) by (auto simp: ic_inv_def)
qed

lemma fakes_step:
  assumes "ic_inv R0 S0 d" "\<forall>p\<in>set ps. unmap (pfx_addr p) = pfx_addr p"
  shows "\<exists>fm ms. (if internalDnatFw d \<noteq> None then allocate_fakes ps [] (fakeIPManager d) else Some (fakeIPManager d, [])) = Some (fm, ms) \<and>
    ic_inv R0 S0 (d\<lparr> fakeIPManager := fm \<rparr>) \<and> (internalDnatFw d \<noteq> None \<longrightarrow> (\<forall>p\<in>set ps. settled fm (pfx_addr p))) \<and>
    (\<forall>f r. gget ms f = Some r \<longrightarrow> pair_ok fm f r)"
proof (cases "internalDnatFw d = None \<or> ps = []")
  case True
  have "d\<lparr> fakeIPManager := fakeIPManager d \<rparr> = d" by simp
  then show ?thesis using True assms(1) by (intro exI [of _ "fakeIPManager d"] exI [of _ "[]"]) auto
next
  case False
  have inv: "fake_inv (fakeIPManager d)" using assms(1) by (auto simp: ic_inv_def)
  from allocate_fakes_spec [OF inv assms(2), of "[]"] False obtain fm ms where
    a: "allocate_fakes ps [] (fakeIPManager d) = Some (fm, ms)" "extends (fakeIPManager d) fm"
    "\<forall>f r. gget ms f = Some r \<longrightarrow> pair_ok fm f r" "\<forall>p\<in>set ps. settled fm (pfx_addr p)" by auto
  then show ?thesis using False extends_inv [OF assms(1)] by auto
qed

lemma update_removes:
  assumes "env_ok E" "fw_ok d" "counts (routeRefCounter d) (R + image_mset (transformRealToFakePrefix d) (mset ps))"
    "counts (allowedIPsRefcounter d) (S + peer_refs d (mset ps))"
  shows "\<exists>c a fw. (do { (d, es) \<leftarrow> each (remove_old E) ps d; d \<leftarrow> removeDNATMappings ps d; Some (d, es) }) =
      Some ((with_counters c a d)\<lparr> firewall := fw \<rparr>, []) \<and> counts c R \<and> counts a S \<and>
    same_dnat fw d \<and> fw_ok ((with_counters c a d)\<lparr> firewall := fw \<rparr>)"
proof -
  from remove_prefixes [OF assms(1,3,4)] obtain c a where
    1: "each (remove_old E) ps d = Some (with_counters c a d, [])" "counts c R" "counts a S" by blast
  have "fw_ok (with_counters c a d)" using assms(2) by (simp add: fw_ok_def)
  from removeDNATMappings_spec [OF this, of ps] obtain fw where
    2: "removeDNATMappings ps (with_counters c a d) = Some ((with_counters c a d)\<lparr> firewall := fw \<rparr>)"
    "same_dnat fw (with_counters c a d)" "fw_ok ((with_counters c a d)\<lparr> firewall := fw \<rparr>)" by blast
  then show ?thesis using 1
    by (intro exI [of _ c] exI [of _ a] exI [of _ fw]) (auto simp: same_dnat_def internalDnatFw_def)
qed

text \<open>The state at the end of an update, before the new prefixes are recorded.\<close>

definition moved :: "FakeIPManager \<Rightarrow> (prefix, unit) Counter \<Rightarrow> (prefix, string) Counter \<Rightarrow> fw_kind \<Rightarrow> DnsInterceptor \<Rightarrow> DnsInterceptor" where
  "moved fm c a fw d = d\<lparr> fakeIPManager := fm, routeRefCounter := c, allowedIPsRefcounter := a, firewall := fw \<rparr>"

lemma moved_simps [simp]:
  "KeepRoute (moved fm c a fw d) = KeepRoute d" "currentPeerKey (moved fm c a fw d) = currentPeerKey d"
  "interceptedDomains (moved fm c a fw d) = interceptedDomains d" "routeRefCounter (moved fm c a fw d) = c"
  "allowedIPsRefcounter (moved fm c a fw d) = a" "fakeIPManager (moved fm c a fw d) = fm"
  "events (moved fm c a fw d) = events d"
  by (simp_all add: moved_def)

lemma moved_intro:
  "(with_counters c a (d\<lparr> fakeIPManager := fm \<rparr>))\<lparr> firewall := fw \<rparr> = moved fm c a fw d"
  "(with_counters c a (moved fm c' a' fw' d))\<lparr> firewall := fw \<rparr> = moved fm c a fw d"
  by (simp_all add: with_counters_def moved_def)

lemma internalDnatFw_moved:
  "internalDnatFw ((moved fm c a fw d)\<lparr> firewall := fw' \<rparr>) = internalDnatFw (moved fm c' a' fw' d)"
  by (simp add: internalDnatFw_def moved_def)

definition update_record :: "string \<Rightarrow> string \<Rightarrow> prefix list \<Rightarrow> bool \<Rightarrow> DnsInterceptor \<Rightarrow> DnsInterceptor" where
  "update_record dn orig ps changed d =
     (if changed then d\<lparr> interceptedDomains := gput dn ps (interceptedDomains d),
                         events := events d @ [UpdateResolvedDomainsStates (TrimSuffix orig ''.'') dn ps] \<rparr>
      else d)"

lemma update_counts:
  assumes "env_ok E" "ic_inv R0 S0 d" "\<forall>p\<in>set new. unmap (pfx_addr p) = pfx_addr p"
    "determinePrefixChanges (prefix_order E) (domain_prefixes d dn) new = (toAdd, toRemove)" "set toAdd \<subseteq> set new"
    "mset (domain_prefixes d dn) + mset toAdd = mset new + mset toRemove"
  defines "ps \<equiv> if KeepRoute d then domain_prefixes d dn @ toAdd else new"
  defines "M \<equiv> outstanding (gdel dn (interceptedDomains d)) + mset ps"
  shows "\<exists>fm c a fw. updateDomainPrefixes E dn orig new d =
      Some (update_record dn orig ps (toAdd \<noteq> [] \<or> toRemove \<noteq> []) (moved fm c a fw d), []) \<and>
    (internalDnatFw (moved fm c a fw d) = None \<longleftrightarrow> internalDnatFw d = None) \<and>
    fake_inv fm \<and> fw_ok (moved fm c a fw d) \<and> ic_inv R0 S0 (d\<lparr> fakeIPManager := fm \<rparr>) \<and>
    (internalDnatFw d \<noteq> None \<longrightarrow> (\<forall>p\<in>set toAdd. settled fm (pfx_addr p))) \<and>
    counts c (R0 + image_mset (transformRealToFakePrefix (moved fm c a fw d)) M) \<and> counts a (S0 + peer_refs d M)"
proof -
  let ?old = "domain_prefixes d dn" and ?O = "outstanding (gdel dn (interceptedDomains d))"
  have "\<forall>p\<in>set toAdd. unmap (pfx_addr p) = pfx_addr p" using assms(3,5) by blast
  from fakes_step [OF assms(2) this] obtain fm ms where
    f: "(if internalDnatFw d \<noteq> None then allocate_fakes toAdd [] (fakeIPManager d) else Some (fakeIPManager d, [])) = Some (fm, ms)"
    and inv1: "ic_inv R0 S0 (d\<lparr> fakeIPManager := fm \<rparr>)" and set: "internalDnatFw d \<noteq> None \<longrightarrow> (\<forall>p\<in>set toAdd. settled fm (pfx_addr p))"
    and ms: "\<forall>f r. gget ms f = Some r \<longrightarrow> pair_ok fm f r" by blast
  define d1 where "d1 = d\<lparr> fakeIPManager := fm \<rparr>"
  let ?T = "transformRealToFakePrefix d1"
  have d1 [simp]: "on_record d1 = on_record d" "currentPeerKey d1 = currentPeerKey d" "fakeIPManager d1 = fm"
    "KeepRoute d1 = KeepRoute d" and dn1: "internalDnatFw d1 = internalDnatFw d" by (simp_all add: d1_def internalDnatFw_def)
  have inv: "fake_inv fm" "fw_ok d1" "counts (routeRefCounter d1) (R0 + image_mset ?T (on_record d))"
    "counts (allowedIPsRefcounter d1) (S0 + peer_refs d (on_record d))"
    using inv1 unfolding d1_def [symmetric] ic_inv_def by auto
  have rec: "on_record d = ?O + mset ?old" using assms(2) by (intro domain_split) (simp add: ic_inv_def)
  from add_prefixes [OF assms(1) inv(3,4), of toAdd] obtain c a where
    c: "each (addRouteAndAllowedIP E) toAdd d1 = Some (with_counters c a d1, [])"
    "counts c (R0 + image_mset ?T (?O + (mset ?old + mset toAdd)))" "counts a (S0 + peer_refs d (?O + (mset ?old + mset toAdd)))"
    by (auto simp: rec add.assoc split: if_splits)
  have "fw_ok (with_counters c a d1)" using inv(2) by (simp add: fw_ok_def)
  from addDNATMappings_spec [OF assms(1) _ this, of ms] ms inv(1) obtain fw where
    fw: "addDNATMappings E ms (with_counters c a d1) = moved fm c a fw d" "same_dnat fw (with_counters c a d1)" "fw_ok (moved fm c a fw d)"
    unfolding d1_def by (auto simp: moved_intro)
  have none: "internalDnatFw (moved fm c a fw d) = None \<longleftrightarrow> internalDnatFw d = None"
    using fw(2) dn1 unfolding same_dnat_def d1_def moved_intro by simp
  have run: "updateDomainPrefixes E dn orig new d = do {
       (d', es) \<leftarrow> (if KeepRoute (moved fm c a fw d) then Some (moved fm c a fw d, [])
                   else do { (d, es) \<leftarrow> each (remove_old E) toRemove (moved fm c a fw d);
                             d \<leftarrow> removeDNATMappings toRemove d; Some (d, es) });
       let ps = (if KeepRoute d' then ?old @ toAdd else new);
       Some (update_record dn orig ps (0 < length toAdd \<or> 0 < length toRemove) d', es)
     }"
    by (simp only: updateDomainPrefixes_def update_record_def Let_def assms(4) prod.case f Option.bind.bind_lunit
        c(1) [unfolded d1_def] fw(1) [unfolded d1_def] append_Nil)
  show ?thesis
  proof (cases "KeepRoute d")
    case True
    have ps: "ps = ?old @ toAdd" "?O + (mset ?old + mset toAdd) = M" using True by (simp_all add: ps_def M_def)
    have "transformRealToFakePrefix (moved fm c a fw d) = ?T" by (rule transform_cong) (simp_all add: none dn1)
    then show ?thesis using True c(2,3) [unfolded ps(2)] fw(3) none inv(1) inv1 set ps(1)
      by (intro exI [of _ fm] exI [of _ c] exI [of _ a] exI [of _ fw]) (simp add: run)
  next
    case False
    let ?d3 = "moved fm c a fw d"
    have T3: "transformRealToFakePrefix ?d3 = ?T" by (rule transform_cong) (simp_all add: none dn1)
    have ps: "ps = new" "?O + (mset ?old + mset toAdd) = M + mset toRemove" using False assms(6) by (simp_all add: ps_def M_def)
    from update_removes [OF assms(1) fw(3), of "R0 + image_mset ?T M" toRemove "S0 + peer_refs d M"] c(2,3) obtain c' a' fw' where
      r: "(do { (d, es) \<leftarrow> each (remove_old E) toRemove ?d3; d \<leftarrow> removeDNATMappings toRemove d; Some (d, es) }) =
        Some (moved fm c' a' fw' d, [])" "counts c' (R0 + image_mset ?T M)" "counts a' (S0 + peer_refs d M)"
      "same_dnat fw' ?d3" "fw_ok (moved fm c' a' fw' d)"
      unfolding ps(2) by (auto simp: T3 moved_intro add.assoc split: if_splits)
    have none': "internalDnatFw (moved fm c' a' fw' d) = None \<longleftrightarrow> internalDnatFw d = None"
      using r(4) none unfolding same_dnat_def by (simp only: internalDnatFw_moved [where c' = c' and a' = a'])
    have T': "transformRealToFakePrefix (moved fm c' a' fw' d) = ?T" by (rule transform_cong) (simp_all add: none' dn1)
    show ?thesis using False r(1,2,3,5) none' inv(1) inv1 set ps(1)
      by (intro exI [of _ fm] exI [of _ c'] exI [of _ a'] exI [of _ fw']) (simp add: run T')
  qed
qed

lemma update_record_simps [simp]:
  "currentPeerKey (update_record dn orig ps ch d) = currentPeerKey d" "routeRefCounter (update_record dn orig ps ch d) = routeRefCounter d"
  "allowedIPsRefcounter (update_record dn orig ps ch d) = allowedIPsRefcounter d"
  "fakeIPManager (update_record dn orig ps ch d) = fakeIPManager d" "KeepRoute (update_record dn orig ps ch d) = KeepRoute d"
  "internalDnatFw (update_record dn orig ps ch d) = internalDnatFw d"
  "transformRealToFakePrefix (update_record dn orig ps ch d) = transformRealToFakePrefix d"
  by (simp_all add: update_record_def internalDnatFw_def transformRealToFakePrefix_def fun_eq_iff)

lemma update_inv:
  assumes "env_ok E" "ic_inv R0 S0 d" "\<forall>p\<in>set new. unmap (pfx_addr p) = pfx_addr p" "distinct new"
  shows "\<exists>d'. updateDomainPrefixes E dn orig new d = Some (d', []) \<and> ic_inv R0 S0 d' \<and>
    set (domain_prefixes d' dn) = set new \<union> (if KeepRoute d then set (domain_prefixes d dn) else {}) \<and>
    (\<forall>n. n \<noteq> dn \<longrightarrow> domain_prefixes d' n = domain_prefixes d n)"
proof -
  let ?old = "domain_prefixes d dn"
  let ?add = "filter (\<lambda>p. p \<notin> set ?old) new"
  have wf: "gwf (interceptedDomains d)" and old: "distinct ?old"
    using assms(2) by (auto simp: ic_inv_def domain_prefixes_def split: option.splits)
  have "permutes_keys (prefix_order E)" using assms(1) by (simp add: env_ok_def)
  from determinePrefixChanges_spec [OF this, of ?old new] obtain rem where
    rem: "determinePrefixChanges (prefix_order E) ?old new = (?add, rem)" "distinct rem" "set rem = set ?old - set new" by blast
  note ms = mset_changes [OF old assms(4) rem(2,3)]
  define ps where "ps = (if KeepRoute d then ?old @ ?add else new)"
  let ?ch = "?add \<noteq> [] \<or> rem \<noteq> []"
  from update_counts [OF assms(1-3) rem(1) _ ms, of orig, folded ps_def] obtain fm c a fw where
    u: "updateDomainPrefixes E dn orig new d = Some (update_record dn orig ps ?ch (moved fm c a fw d), [])"
    "internalDnatFw (moved fm c a fw d) = None \<longleftrightarrow> internalDnatFw d = None" "fake_inv fm" "fw_ok (moved fm c a fw d)"
    "ic_inv R0 S0 (d\<lparr> fakeIPManager := fm \<rparr>)" "internalDnatFw d \<noteq> None \<longrightarrow> (\<forall>p\<in>set ?add. settled fm (pfx_addr p))"
    and cnt: "counts c (R0 + image_mset (transformRealToFakePrefix (moved fm c a fw d)) (outstanding (gdel dn (interceptedDomains d)) + mset ps))"
    "counts a (S0 + peer_refs d (outstanding (gdel dn (interceptedDomains d)) + mset ps))" by auto
  let ?d = "update_record dn orig ps ?ch (moved fm c a fw d)"
  have dnat: "internalDnatFw (d\<lparr> fakeIPManager := fm \<rparr>) = internalDnatFw d" by (simp add: internalDnatFw_def)
  have set: "settled fm (pfx_addr p)" if "internalDnatFw d \<noteq> None" "gget (interceptedDomains d) n = Some qs" "p \<in> set qs" for n qs p
    using u(5) that dnat unfolding ic_inv_def by simp
  have "settled fm (pfx_addr p)" if "p \<in> set ps" "internalDnatFw d \<noteq> None" for p
  proof (cases "p \<in> set ?old")
    case True
    then obtain qs where "gget (interceptedDomains d) dn = Some qs" "p \<in> set qs"
      by (cases "gget (interceptedDomains d) dn") (auto simp: domain_prefixes_def)
    then show ?thesis using set that(2) by blast
  next
    case False
    then show ?thesis using that u(6) by (auto simp: ps_def split: if_splits)
  qed
  note set_ps = this
  have "distinct ps" using old assms(4) by (auto simp: ps_def)
  have dom: "distinct qs \<and> (internalDnatFw d \<noteq> None \<longrightarrow> (\<forall>p\<in>set qs. settled fm (pfx_addr p)))"
    if n: "gget (interceptedDomains ?d) n = Some qs" for n qs
  proof -
    have "qs = ps \<or> gget (interceptedDomains d) n = Some qs"
      using n gget_gput [of dn ps "interceptedDomains d" n] by (simp add: update_record_def split: if_splits)
    moreover have "gget (interceptedDomains d) n = Some qs \<Longrightarrow> distinct qs" using assms(2) unfolding ic_inv_def by blast
    ultimately show ?thesis using set \<open>distinct ps\<close> set_ps by blast
  qed
  have rec: "on_record ?d = outstanding (gdel dn (interceptedDomains d)) + mset ps"
  proof (cases ?ch)
    case True
    then show ?thesis using wf by (simp add: update_record_def outstanding_put)
  next
    case False
    then have "mset ps = mset ?old" using ms by (auto simp: ps_def)
    then show ?thesis using False domain_split [OF wf, of dn] by (simp add: update_record_def)
  qed
  have "gwf (interceptedDomains ?d)" using wf by (simp add: update_record_def)
  moreover have "fw_ok ?d" using u(4) by (simp add: fw_ok_def)
  ultimately have "ic_inv R0 S0 ?d" using dom cnt u(2,3) unfolding ic_inv_def rec by simp
  moreover have "set (domain_prefixes ?d dn) = set new \<union> (if KeepRoute d then set ?old else {})"
    using rem(3) by (auto simp: update_record_def ps_def domain_prefixes_def filter_empty_conv)
  moreover have "\<forall>n. n \<noteq> dn \<longrightarrow> domain_prefixes ?d n = domain_prefixes d n"
    by (simp add: update_record_def domain_prefixes_def)
  ultimately show ?thesis using u(1) by blast
qed

lemma answer_unmapped: "\<forall>p\<in>set (answer_prefixes rs). unmap (pfx_addr p) = pfx_addr p"
  by (induction rs) (auto simp: PrefixFrom_def split: option.splits RR.splits)

lemma writeMsg_inv:
  assumes "env_ok E" "ic_inv R0 S0 d" "distinct (answer_prefixes (Answer r))"
  shows "\<exists>d' out. writeMsg E orig r d = Some (d', out) \<and> ic_inv R0 S0 d'"
proof -
  let ?r = "r\<lparr> Zero := False \<rparr>" and ?new = "answer_prefixes (Answer r)"
  show ?thesis
  proof (cases "Question r")
    case (Cons q qs)
    obtain name ty where q: "q = (name, ty)" by (cases q)
    let ?orig = "if orig = '''' then ToLower name else orig"
    obtain d' where "updateDomainPrefixes E (ToLower name) ?orig ?new d = Some (d', [])" "ic_inv R0 S0 d'"
      using update_inv [OF assms(1,2) answer_unmapped assms(3)] by blast
    then show ?thesis using Cons q assms(2) by (simp add: writeMsg_def Let_def)
  qed (use assms(2) in \<open>simp add: writeMsg_def\<close>)
qed

lemma ServeDNS_inv:
  assumes "env_ok E" "ic_inv R0 S0 d" "\<forall>a q m. exchange a q = Some m \<longrightarrow> distinct (answer_prefixes (Answer m))"
  shows "\<exists>d' out. ServeDNS E peers exchange orig r d = Some (d', out) \<and> ic_inv R0 S0 d'"
proof -
  have w: "\<exists>d' out. writeMsg E orig (m\<lparr> Id := i \<rparr>) d = Some (d', out) \<and> ic_inv R0 S0 d'" if "exchange a q = Some m" for a q m i
    using assms(3) that by (intro writeMsg_inv [OF assms(1,2)]) simp
  show ?thesis
  proof (cases "Question r")
    case (Cons q qs)
    obtain name ty where q: "q = (name, ty)" by (cases q)
    let ?r = "if Extra r = None then r\<lparr> AuthenticatedData := True \<rparr> else r"
    show ?thesis
    proof (cases "(ty \<noteq> TypeA \<and> ty \<noteq> TypeAAAA) \<or> currentPeerKey d = '''' \<or> peers (currentPeerKey d) = None")
      case True
      then show ?thesis using Cons q assms(2) by (auto simp: ServeDNS_def)
    next
      case False
      then obtain ip where ip: "peers (currentPeerKey d) = Some ip" by auto
      show ?thesis
      proof (cases "exchange ip ?r")
        case None
        then have "ServeDNS E peers exchange orig r d = Some (d, Some (BareFailure (Id ?r)))"
          using Cons q False ip by (auto simp: ServeDNS_def Let_def)
        then show ?thesis using assms(2) by blast
      next
        case (Some m)
        with w obtain d' out where "writeMsg E orig (m\<lparr> Id := Id ?r \<rparr>) d = Some (d', out)" "ic_inv R0 S0 d'" by blast
        moreover from this(1) have "ServeDNS E peers exchange orig r d = Some (d', Some out)"
          using Cons q False ip Some by (auto simp: ServeDNS_def Let_def)
        ultimately show ?thesis by blast
      qed
    qed
  qed (use assms(2) in \<open>simp add: ServeDNS_def\<close>)
qed

text \<open>Changes of the peer and of the counter of allowed addresses.\<close>

lemma set_peer_inv:
  assumes "ic_inv R0 S0 d" "counts a (S0 + (if key = '''' then {#} else on_record d))"
  shows "ic_inv R0 S0 ((with_counters (routeRefCounter d) a d)\<lparr> currentPeerKey := key \<rparr>)"
proof -
  let ?d = "(with_counters (routeRefCounter d) a d)\<lparr> currentPeerKey := key \<rparr>"
  have "internalDnatFw ?d = internalDnatFw d" by (simp add: internalDnatFw_def with_counters_def)
  moreover have "transformRealToFakePrefix ?d = transformRealToFakePrefix d" using calculation by (intro transform_cong) simp_all
  ultimately show ?thesis using assms by (auto simp: ic_inv_def fw_ok_def)
qed

lemma AddAllowedIPs_inv:
  assumes "env_ok E" "ic_inv R0 S0 d" "currentPeerKey d = ''''" "key \<noteq> ''''"
  shows "\<exists>d'. AddAllowedIPs E key d = Some (d', []) \<and> ic_inv R0 S0 d' \<and> currentPeerKey d' = key"
proof -
  have inv: "gwf (interceptedDomains d)" "counts (allowedIPsRefcounter d) S0" using assms(2,3) by (auto simp: ic_inv_def)
  from add_allowed [OF assms(1) inv(2), of key "all_prefixes E d"] obtain a where
    "each (addAllowedIPForPrefix E key) (all_prefixes E d) d = Some (with_counters (routeRefCounter d) a d, [])"
    "counts a (S0 + on_record d)" using all_prefixes_record [OF assms(1) inv(1)] by auto
  then show ?thesis using set_peer_inv [OF assms(2), of a key] assms(4) by (auto simp: AddAllowedIPs_def)
qed

lemma RemoveAllowedIPs_inv:
  assumes "env_ok E" "ic_inv R0 S0 d" "currentPeerKey d \<noteq> ''''"
  shows "\<exists>d'. RemoveAllowedIPs E d = Some (d', []) \<and> ic_inv R0 S0 d' \<and> currentPeerKey d' = ''''"
proof -
  have inv: "gwf (interceptedDomains d)" "counts (allowedIPsRefcounter d) (S0 + on_record d)" using assms(2,3) by (auto simp: ic_inv_def)
  note mset = all_prefixes_record [OF assms(1) inv(1)]
  from remove_allowed [OF assms(1), of d S0 "all_prefixes E d"] inv(2) obtain a where
    "each (decrement_allowed E) (all_prefixes E d) d = Some (with_counters (routeRefCounter d) a d, [])" "counts a S0"
    unfolding mset by auto
  then show ?thesis using set_peer_inv [OF assms(2), of a "''''"] by (auto simp: RemoveAllowedIPs_def)
qed

lemma same_dnat_trans: "same_dnat fw d \<Longrightarrow> same_dnat fw' (d\<lparr> firewall := fw \<rparr>) \<Longrightarrow> same_dnat fw' d"
  by (simp add: same_dnat_def)

lemma cleanup_spec:
  assumes "fw_ok d"
  shows "\<exists>fw. cleanup_loop ds d = Some (d\<lparr> firewall := fw \<rparr>) \<and> same_dnat fw d \<and> fw_ok (d\<lparr> firewall := fw \<rparr>)"
  using assms
proof (induction ds arbitrary: d)
  case Nil
  have "d\<lparr> firewall := firewall d \<rparr> = d" by simp
  then show ?case using Nil by (intro exI [of _ "firewall d"]) (simp add: same_dnat_def)
next
  case (Cons n ds)
  from removeDNATMappings_spec [OF Cons.prems, of "domain_prefixes d n"] obtain fw where
    1: "removeDNATMappings (domain_prefixes d n) d = Some (d\<lparr> firewall := fw \<rparr>)" "same_dnat fw d" "fw_ok (d\<lparr> firewall := fw \<rparr>)" by blast
  from Cons.IH [OF 1(3)] obtain fw' where
    2: "cleanup_loop ds (d\<lparr> firewall := fw \<rparr>) = Some (d\<lparr> firewall := fw' \<rparr>)" "same_dnat fw' (d\<lparr> firewall := fw \<rparr>)"
    "fw_ok (d\<lparr> firewall := fw' \<rparr>)" by auto
  show ?case using 1(1) 2(1,3) same_dnat_trans [OF 1(2) 2(2)] by auto
qed

lemma RemoveRoute_inv:
  assumes "env_ok E" "ic_inv R0 S0 d"
  shows "\<exists>d'. RemoveRoute E d = Some (d', []) \<and> ic_inv R0 S0 d' \<and> interceptedDomains d' = []"
proof -
  have inv: "gwf (interceptedDomains d)" "fw_ok d" "fake_inv (fakeIPManager d)" using assms(2) by (auto simp: ic_inv_def)
  note mset = all_prefixes_record [OF assms(1) inv(1)]
  have "counts (routeRefCounter d) (R0 + image_mset (transformRealToFakePrefix d) (mset (all_prefixes E d)))"
    "counts (allowedIPsRefcounter d) (S0 + peer_refs d (mset (all_prefixes E d)))"
    using assms(2) unfolding mset ic_inv_def by auto
  from remove_prefixes [OF assms(1) this] obtain c a where
    1: "each (remove_old E) (all_prefixes E d) d = Some (with_counters c a d, [])" "counts c R0" "counts a S0" by blast
  let ?d = "with_counters c a d"
  have "fw_ok ?d" using inv(2) by (simp add: fw_ok_def)
  moreover have "?d\<lparr> firewall := firewall ?d \<rparr> = ?d" by simp
  ultimately obtain fw where fw: "cleanupDNATMappings E ?d = Some (?d\<lparr> firewall := fw \<rparr>)" "fw_ok (?d\<lparr> firewall := fw \<rparr>)"
    using cleanup_spec unfolding cleanupDNATMappings_def by metis
  let ?d' = "?d\<lparr> firewall := fw, events := events d @ map DeleteResolvedDomainsStates (Domains d) @ [DeregisterHandler (Domains d)],
      interceptedDomains := [] \<rparr>"
  have run: "RemoveRoute E d = Some (?d', [])" using 1(1) fw(1) by (simp add: RemoveRoute_def)
  have "internalDnatFw ?d' = internalDnatFw (?d\<lparr> firewall := fw \<rparr>)" by (simp add: internalDnatFw_def with_counters_def)
  then have "fw_ok ?d'" using fw(2) by (simp add: fw_ok_def)
  then have "ic_inv R0 S0 ?d'" using 1(2,3) inv(3) by (simp add: ic_inv_def outstanding_def)
  with run show ?thesis by auto
qed

section \<open>Histories\<close>

text \<open>
  The counters, the fake addresses and the firewall are shared with the other handlers of the client. A state is
  the interceptor together with the references to routes and to allowed addresses that the others hold.

  \<^item> The interceptor is created with fresh counters and without translations; one that is created later has
    not done anything while the others worked.
  \<^item> The watcher of the network chooses a peer when none is chosen, and withdraws the one that is; queries, and
    removal of the whole route, come at any time. The answers of the upstream server name no address twice.
  \<^item> Another handler takes references, gives back its own, allocates fake addresses, and adds and removes
    translations between a fake address and the address it stands for.
\<close>

type_synonym ic_state = "DnsInterceptor \<times> prefix multiset \<times> prefix multiset"

definition ic_start :: "ic_state \<Rightarrow> bool" where
  "ic_start s \<longleftrightarrow> (\<exists>goos domains keep fw. s = (NewDnsInterceptor goos domains keep NewCounter NewCounter NewFakeIPManager fw, {#}, {#}) \<and>
     (\<forall>m. fw = DnatFirewall m \<longrightarrow> nat_inv m \<and> dnatBiMap m = None))"

inductive ic_step :: "ic_env \<Rightarrow> ic_state \<Rightarrow> ic_state \<Rightarrow> bool" for E where
  ic_register: "ic_step E (d, R, S) (AddRoute d, R, S)"
| ic_choose: "currentPeerKey d = '''' \<Longrightarrow> key \<noteq> '''' \<Longrightarrow> AddAllowedIPs E key d = Some (d', es) \<Longrightarrow> ic_step E (d, R, S) (d', R, S)"
| ic_withdraw: "currentPeerKey d \<noteq> '''' \<Longrightarrow> RemoveAllowedIPs E d = Some (d', es) \<Longrightarrow> ic_step E (d, R, S) (d', R, S)"
| ic_serve: "\<forall>a q m. exchange a q = Some m \<longrightarrow> distinct (answer_prefixes (Answer m)) \<Longrightarrow>
    ServeDNS E peers exchange orig r d = Some (d', out) \<Longrightarrow> ic_step E (d, R, S) (d', R, S)"
| ic_unroute: "RemoveRoute E d = Some (d', es) \<Longrightarrow> ic_step E (d, R, S) (d', R, S)"
| other_route: "Increment (route_hooks E) p () (routeRefCounter d) = Some (c, Inr ref) \<Longrightarrow>
    ic_step E (d, R, S) (d\<lparr> routeRefCounter := c \<rparr>, add_mset p R, S)"
| other_unroute: "Decrement (route_hooks E) p (routeRefCounter d) = Some (c, e) \<Longrightarrow>
    ic_step E (d, add_mset p R, S) (d\<lparr> routeRefCounter := c \<rparr>, R, S)"
| other_allow: "Increment (allowed_hooks E) p key (allowedIPsRefcounter d) = Some (a, Inr ref') \<Longrightarrow>
    ic_step E (d, R, S) (d\<lparr> allowedIPsRefcounter := a \<rparr>, R, add_mset p S)"
| other_disallow: "Decrement (allowed_hooks E) p (allowedIPsRefcounter d) = Some (a, e) \<Longrightarrow>
    ic_step E (d, R, add_mset p S) (d\<lparr> allowedIPsRefcounter := a \<rparr>, R, S)"
| other_allocate: "AllocateFakeIP x (fakeIPManager d) = Some (fm, r) \<Longrightarrow> ic_step E (d, R, S) (d\<lparr> fakeIPManager := fm \<rparr>, R, S)"
| other_map: "internalDnatFw d = Some m \<Longrightarrow> pair_ok (fakeIPManager d) fake real \<Longrightarrow> AddInternalDNATMapping fake real m = Inr m' \<Longrightarrow>
    ic_step E (d, R, S) (d\<lparr> firewall := DnatFirewall m' \<rparr>, R, S)"
| other_unmap: "internalDnatFw d = Some m \<Longrightarrow> RemoveInternalDNATMapping fake m = Some (Inr m') \<Longrightarrow>
    ic_step E (d, R, S) (d\<lparr> firewall := DnatFirewall m' \<rparr>, R, S)"

abbreviation ic_ok :: "ic_state \<Rightarrow> bool" where
  "ic_ok s \<equiv> ic_inv (fst (snd s)) (snd (snd s)) (fst s)"

lemma counts_new: "counts NewCounter {#}"
  using rc_inv_start by (simp add: counts_def count_of_def Counter_Get_def NewCounter_def)

lemma ic_inv_start: "ic_start s \<Longrightarrow> ic_ok s"
  by (auto simp: ic_start_def ic_inv_def NewDnsInterceptor_def counts_new fake_inv_start outstanding_def fw_ok_def bimap_ok_def
      internalDnatFw_def split: if_splits fw_kind.splits)

text \<open>What the other handlers do.\<close>

lemma counters_inv:
  assumes "ic_inv R S d" "counts c (R' + image_mset (transformRealToFakePrefix d) (on_record d))"
    "counts a (S' + peer_refs d (on_record d))"
  shows "ic_inv R' S' (with_counters c a d)"
proof -
  have "transformRealToFakePrefix (with_counters c a d) = transformRealToFakePrefix d" by (rule transform_cong) simp_all
  then show ?thesis using assms by (auto simp: ic_inv_def fw_ok_def split: if_splits)
qed

lemma with_one_counter:
  "d\<lparr> routeRefCounter := c \<rparr> = with_counters c (allowedIPsRefcounter d) d"
  "d\<lparr> allowedIPsRefcounter := a \<rparr> = with_counters (routeRefCounter d) a d"
  by (simp_all add: with_counters_def)

lemma other_counters_inv:
  assumes "env_ok E"
  shows "ic_inv R S d \<Longrightarrow> Increment (route_hooks E) p () (routeRefCounter d) = Some (c, Inr ref) \<Longrightarrow>
      ic_inv (add_mset p R) S (d\<lparr> routeRefCounter := c \<rparr>)"
    "ic_inv (add_mset p R) S d \<Longrightarrow> Decrement (route_hooks E) p (routeRefCounter d) = Some (c, e) \<Longrightarrow>
      ic_inv R S (d\<lparr> routeRefCounter := c \<rparr>)"
    "ic_inv R S d \<Longrightarrow> Increment (allowed_hooks E) p key (allowedIPsRefcounter d) = Some (a, Inr ref') \<Longrightarrow>
      ic_inv R (add_mset p S) (d\<lparr> allowedIPsRefcounter := a \<rparr>)"
    "ic_inv R (add_mset p S) d \<Longrightarrow> Decrement (allowed_hooks E) p (allowedIPsRefcounter d) = Some (a, e) \<Longrightarrow>
      ic_inv R S (d\<lparr> allowedIPsRefcounter := a \<rparr>)"
proof -
  have w: "working (route_hooks E)" "working (allowed_hooks E)" using assms by (simp_all add: env_ok_def)
  let ?I = "\<lambda>d. image_mset (transformRealToFakePrefix d) (on_record d)" and ?P = "\<lambda>d. peer_refs d (on_record d)"
  have cs: "counts (routeRefCounter d) (R + ?I d)" "counts (allowedIPsRefcounter d) (S + ?P d)" if "ic_inv R S d" for R S d
    using that by (simp_all add: ic_inv_def)
  show "ic_inv (add_mset p R) S (d\<lparr> routeRefCounter := c \<rparr>)"
    if i: "ic_inv R S d" and "Increment (route_hooks E) p () (routeRefCounter d) = Some (c, Inr ref)"
    using counts_increment [OF w(1) cs(1) [OF i], of p "()"] that(2) cs(2) [OF i]
    unfolding with_one_counter by (intro counters_inv [OF i]) auto
  show "ic_inv R S (d\<lparr> routeRefCounter := c \<rparr>)"
    if i: "ic_inv (add_mset p R) S d" and "Decrement (route_hooks E) p (routeRefCounter d) = Some (c, e)"
    using counts_decrement [OF w(1), of "routeRefCounter d" p "R + ?I d"] that(2) cs [OF i]
    unfolding with_one_counter by (intro counters_inv [OF i]) auto
  show "ic_inv R (add_mset p S) (d\<lparr> allowedIPsRefcounter := a \<rparr>)"
    if i: "ic_inv R S d" and "Increment (allowed_hooks E) p key (allowedIPsRefcounter d) = Some (a, Inr ref')"
    using counts_increment [OF w(2) cs(2) [OF i], of p key] that(2) cs(1) [OF i]
    unfolding with_one_counter by (intro counters_inv [OF i]) auto
  show "ic_inv R S (d\<lparr> allowedIPsRefcounter := a \<rparr>)"
    if i: "ic_inv R (add_mset p S) d" and "Decrement (allowed_hooks E) p (allowedIPsRefcounter d) = Some (a, e)"
    using counts_decrement [OF w(2), of "allowedIPsRefcounter d" p "S + ?P d"] that(2) cs [OF i]
    unfolding with_one_counter by (intro counters_inv [OF i]) auto
qed

lemma firewall_inv:
  assumes "ic_inv R S d" "internalDnatFw d = Some m" "bimap_ok (fakeIPManager d) m'"
  shows "ic_inv R S (d\<lparr> firewall := DnatFirewall m' \<rparr>)"
proof -
  let ?d = "d\<lparr> firewall := DnatFirewall m' \<rparr>"
  have dn: "internalDnatFw ?d = Some m'" by (rule dnat_set [OF assms(2)])
  then have "transformRealToFakePrefix ?d = transformRealToFakePrefix d" using assms(2) by (intro transform_cong) simp_all
  then show ?thesis using assms dn by (auto simp: ic_inv_def fw_ok_def split: if_splits)
qed

lemma other_firewall_inv:
  assumes "ic_inv R S d" "internalDnatFw d = Some m"
  shows "pair_ok (fakeIPManager d) fake real \<Longrightarrow> AddInternalDNATMapping fake real m = Inr m' \<Longrightarrow> ic_inv R S (d\<lparr> firewall := DnatFirewall m' \<rparr>)"
    "RemoveInternalDNATMapping fake m = Some (Inr m') \<Longrightarrow> ic_inv R S (d\<lparr> firewall := DnatFirewall m' \<rparr>)"
proof -
  have inv: "fake_inv (fakeIPManager d)" "bimap_ok (fakeIPManager d) m" using assms by (auto simp: ic_inv_def fw_ok_def)
  show "ic_inv R S (d\<lparr> firewall := DnatFirewall m' \<rparr>)"
    if "pair_ok (fakeIPManager d) fake real" "AddInternalDNATMapping fake real m = Inr m'"
    using add_mappings_ok [OF inv, of "[(fake, real)]"] that by (intro firewall_inv [OF assms]) simp
  show "ic_inv R S (d\<lparr> firewall := DnatFirewall m' \<rparr>)" if "RemoveInternalDNATMapping fake m = Some (Inr m')"
    by (rule firewall_inv [OF assms]) (rule remove_bimap_ok [OF inv(2) that])
qed

lemma other_allocate_inv:
  assumes "ic_inv R S d" "AllocateFakeIP x (fakeIPManager d) = Some (fm, r)"
  shows "ic_inv R S (d\<lparr> fakeIPManager := fm \<rparr>)"
proof -
  have "fake_inv (fakeIPManager d)" using assms(1) by (simp add: ic_inv_def)
  from allocate_extends [OF this, of x] assms(2) have "extends (fakeIPManager d) fm" by auto
  then show ?thesis by (rule extends_inv [OF assms(1)])
qed

lemma ic_inv_step:
  assumes "env_ok E" "ic_ok s" "ic_step E s s'"
  shows "ic_ok s'"
  using assms(3)
proof cases
  case (ic_register d R S)
  have inv: "ic_inv R S d" using assms(2) ic_register by simp
  have "internalDnatFw (AddRoute d) = internalDnatFw d" by (simp add: AddRoute_def internalDnatFw_def)
  moreover from this have "transformRealToFakePrefix (AddRoute d) = transformRealToFakePrefix d"
    by (intro transform_cong) (simp_all add: AddRoute_def)
  ultimately have "ic_inv R S (AddRoute d)" using inv by (simp add: ic_inv_def fw_ok_def) (auto simp: AddRoute_def)
  then show ?thesis using ic_register by simp
next
  case (ic_choose d key d' es R S)
  then show ?thesis using AddAllowedIPs_inv [OF assms(1), of R S d key] assms(2) by fastforce
next
  case (ic_withdraw d d' es R S)
  then show ?thesis using RemoveAllowedIPs_inv [OF assms(1), of R S d] assms(2) by fastforce
next
  case (ic_serve exchange peers orig r d d' out R S)
  then show ?thesis using ServeDNS_inv [OF assms(1), of R S d exchange peers orig r] assms(2) by fastforce
next
  case (ic_unroute d d' es R S)
  then show ?thesis using RemoveRoute_inv [OF assms(1), of R S d] assms(2) by fastforce
qed (use assms(2) other_counters_inv [OF assms(1)] other_firewall_inv other_allocate_inv in fastforce)+

lemma ic_reach: "env_ok E \<Longrightarrow> reach ic_start (ic_step E) (d, R, S) \<Longrightarrow> ic_inv R S d"
proof -
  assume E: "env_ok E" and "reach ic_start (ic_step E) (d, R, S)"
  then have "ic_ok (d, R, S)"
    by (intro invariant_system.reach_inv [of ic_start "ic_step E" ic_ok], unfold_locales)
      (auto intro: ic_inv_start ic_inv_step [OF E])
  then show ?thesis by simp
qed

section \<open>Properties\<close>

lemma held_exact:
  assumes "ic_inv R S d"
  shows "dom (holds (calls (routeRefCounter d))) = set_mset R \<union> transformRealToFakePrefix d ` set_mset (on_record d)"
    "dom (holds (calls (allowedIPsRefcounter d))) = set_mset S \<union> (if currentPeerKey d = '''' then {} else set_mset (on_record d))"
  using assms unfolding ic_inv_def by (auto dest!: counts_held split: if_splits)

text \<open>
  C11. The dynamic routes are those of the answers on record. After any history of queries, choices and
  withdrawals of the routing peer and removals of the route, interleaved with what other handlers do to the
  shared counters, fake addresses and firewall, when the calls that add and remove routes and allowed addresses
  succeed and no answer names an address twice: the routes in the system are exactly those that other
  handlers hold and the prefixes on record for the domains, with fake addresses in place of real ones where they
  are translated; the allowed addresses are exactly those that other handlers hold and, when a peer is chosen,
  the prefixes on record. In every such state serving a query, choosing and withdrawing a peer and removing
  the route return without a panic, and removing the route leaves exactly what the other handlers hold.
\<close>

theorem dynamic_routes_exact:
  assumes "env_ok E" "reach ic_start (ic_step E) (d, R, S)"
  shows "dom (holds (calls (routeRefCounter d))) = set_mset R \<union> transformRealToFakePrefix d ` set_mset (on_record d) \<and>
    dom (holds (calls (allowedIPsRefcounter d))) = set_mset S \<union> (if currentPeerKey d = '''' then {} else set_mset (on_record d)) \<and>
    (\<exists>d'. RemoveRoute E d = Some (d', []) \<and> dom (holds (calls (routeRefCounter d'))) = set_mset R \<and>
       dom (holds (calls (allowedIPsRefcounter d'))) = set_mset S) \<and>
    (\<forall>peers exchange orig r. (\<forall>a q m. exchange a q = Some m \<longrightarrow> distinct (answer_prefixes (Answer m))) \<longrightarrow>
       ServeDNS E peers exchange orig r d \<noteq> None) \<and>
    (if currentPeerKey d = '''' then \<forall>key. key \<noteq> '''' \<longrightarrow> (\<exists>d'. AddAllowedIPs E key d = Some (d', []))
     else \<exists>d'. RemoveAllowedIPs E d = Some (d', []))"
proof -
  note inv = ic_reach [OF assms]
  obtain d' where d': "RemoveRoute E d = Some (d', [])" "ic_inv R S d'" "interceptedDomains d' = []"
    using RemoveRoute_inv [OF assms(1) inv] by blast
  from held_exact [OF d'(2)] d'(3) have "dom (holds (calls (routeRefCounter d'))) = set_mset R"
    "dom (holds (calls (allowedIPsRefcounter d'))) = set_mset S"
    by (auto simp: outstanding_def split: if_splits)
  moreover have "ServeDNS E peers exchange orig r d \<noteq> None"
    if "\<forall>a q m. exchange a q = Some m \<longrightarrow> distinct (answer_prefixes (Answer m))" for peers exchange orig r
    using ServeDNS_inv [OF assms(1) inv that, of peers orig r] by auto
  moreover have "\<exists>d'. AddAllowedIPs E key d = Some (d', [])" if "currentPeerKey d = ''''" "key \<noteq> ''''" for key
    using AddAllowedIPs_inv [OF assms(1) inv that] by blast
  moreover have "\<exists>d'. RemoveAllowedIPs E d = Some (d', [])" if "currentPeerKey d \<noteq> ''''"
    using RemoveAllowedIPs_inv [OF assms(1) inv that] by blast
  ultimately show ?thesis using held_exact [OF inv] d'(1) by auto
qed

text \<open>
  C12. Translations are inverse to each other. On a platform where fake addresses are used, after any such
  history: a fake address is translated to a real one exactly when the replies from that real address are
  translated back to the fake one; the pair is one the allocator assigned, and the fake address lies in the
  block reserved for the family of the real one.
\<close>

theorem fake_translation_inverse:
  assumes "env_ok E" "reach ic_start (ic_step E) (d, R, S)" "internalDnatFw d = Some m"
  shows "(getDNATTranslation f m = Some (Some r) \<longleftrightarrow> findReverseDNATMapping r m = Some (Some f)) \<and>
    (getDNATTranslation f m = Some (Some r) \<longrightarrow>
       GetFakeIP r (fakeIPManager d) = Some f \<and> GetRealIP f (fakeIPManager d) = Some r \<and> prefix_contains (fake_block r) f)"
proof -
  have inv: "fake_inv (fakeIPManager d)" "bimap_ok (fakeIPManager d) m"
    using ic_reach [OF assms(1,2)] assms(3) by (auto simp: ic_inv_def fw_ok_def)
  have b: "gget (forward b) f = Some r \<longleftrightarrow> gget (reverse b) r = Some f" "gget (forward b) f = Some r \<Longrightarrow> pair_ok (fakeIPManager d) f r"
    if "dnatBiMap m = Some b" for b using inv(2) that unfolding bimap_ok_def bi_inv_def by blast+
  have "pair_ok (fakeIPManager d) f r \<Longrightarrow> GetRealIP f (fakeIPManager d) = Some r \<and> prefix_contains (fake_block r) f"
    using GetFakeIP_Some [OF inv(1), of r f] unfolding pair_ok_def by simp
  then show ?thesis using b
    by (cases "dnatBiMap m") (auto simp: getDNATTranslation_def findReverseDNATMapping_def getTranslated_def getOriginal_def pair_ok_def)
qed

text \<open>An environment in which every call succeeds, and queries answered with the given records.\<close>

definition ic_sample_env :: ic_env where
  "ic_sample_env =
     \<lparr> route_hooks = \<lparr> add_fn = (\<lambda>_ _ _. Added ()), remove_fn = (\<lambda>_ _ _. None), zero_out = () \<rparr>,
       allowed_hooks = \<lparr> add_fn = (\<lambda>_ peerKey _. Added peerKey), remove_fn = (\<lambda>_ _ _. None), zero_out = '''' \<rparr>,
       prefix_order = (\<lambda>ps. ps), addr_order = (\<lambda>as. as), domain_order = (\<lambda>ds. ds) \<rparr>"

definition sample_query :: "string \<Rightarrow> u16 \<Rightarrow> dns_msg" where
  "sample_query name qtype =
     \<lparr> Id = 7, Question = [(name, qtype)], Answer = [], Zero = False, AuthenticatedData = False, Extra = None \<rparr>"

definition ask :: "string \<Rightarrow> u16 \<Rightarrow> RR list \<Rightarrow> DnsInterceptor \<Rightarrow> (DnsInterceptor \<times> dns_out option) option" where
  "ask name qtype rrs = ServeDNS ic_sample_env (\<lambda>_. Some (Addr4 0x64400001)) (\<lambda>_ q. Some (q\<lparr> Answer := rrs \<rparr>)) '''' (sample_query name qtype)"

definition answered :: "dns_out option \<Rightarrow> RR list" where
  "answered out = (case out of Some (Reply m) \<Rightarrow> Answer m | _ \<Rightarrow> [])"

definition sample_nat :: nat_state where
  "sample_nat = \<lparr> localIPs = [], dnatEnabled = False, dnatMappings = [], dnatBiMap = None, portDNATEnabled = False, portDNATRules = [] \<rparr>"

definition ic_sample :: "string \<Rightarrow> DnsInterceptor" where
  "ic_sample goos = NewDnsInterceptor goos [''example.com''] False NewCounter NewCounter NewFakeIPManager (DnatFirewall sample_nat)"

definition ic_sample_routed :: "string \<Rightarrow> DnsInterceptor" where
  "ic_sample_routed goos = (ic_sample goos)\<lparr> currentPeerKey := ''peer'' \<rparr>"

abbreviation host4 :: "u32 \<Rightarrow> prefix" where "host4 w \<equiv> \<lparr> pfx_addr = Addr4 w, pfx_bits = 32 \<rparr>"

lemma ic_sample_env_ok: "env_ok ic_sample_env"
  by (simp add: env_ok_def ic_sample_env_def working_def permutes_keys_def)

lemma ic_sample_reach: "reach ic_start (ic_step ic_sample_env) (ic_sample_routed goos, {#}, {#})"
proof -
  have "ic_start (ic_sample goos, {#}, {#})"
    unfolding ic_start_def ic_sample_def by (intro exI conjI, rule refl) (simp add: sample_nat_def nat_inv_def)
  moreover have "AddAllowedIPs ic_sample_env ''peer'' (ic_sample goos) = Some (ic_sample_routed goos, [])"
    by (simp add: AddAllowedIPs_def all_prefixes_def ic_sample_env_def ic_sample_def ic_sample_routed_def NewDnsInterceptor_def)
  then have "ic_step ic_sample_env (ic_sample goos, {#}, {#}) (ic_sample_routed goos, {#}, {#})"
    by (intro ic_choose [of _ "''peer''"]) (simp_all add: ic_sample_def NewDnsInterceptor_def)
  ultimately show ?thesis by (rule reach_step [OF reach_start])
qed

lemma ask_step:
  assumes "ask name qtype rrs d = Some (d', out)" "distinct (answer_prefixes rrs)"
  shows "ic_step ic_sample_env (d, R, S) (d', R, S)"
  by (rule ic_serve [OF _ assms(1) [unfolded ask_def]]) (use assms(2) in auto)

definition ic_sample_run :: DnsInterceptor where
  "ic_sample_run = (case ask ''example.com.'' TypeA [A [10, 0, 0, 1]] (ic_sample_routed ''android'') of Some (d, _) \<Rightarrow> d | None \<Rightarrow> ic_sample '''')"

lemma ic_sample_run:
  "\<exists>out. ask ''example.com.'' TypeA [A [10, 0, 0, 1]] (ic_sample_routed ''android'') = Some (ic_sample_run, out)"
proof -
  have "ask ''example.com.'' TypeA [A [10, 0, 0, 1]] (ic_sample_routed ''android'') \<noteq> None" by code_simp
  then show ?thesis by (auto simp: ic_sample_run_def)
qed

lemma ic_sample_run_reach: "reach ic_start (ic_step ic_sample_env) (ic_sample_run, {#}, {#})"
proof -
  have "distinct (answer_prefixes [A [10, 0, 0, 1]])" by code_simp
  with ic_sample_run ask_step have "ic_step ic_sample_env (ic_sample_routed ''android'', {#}, {#}) (ic_sample_run, {#}, {#})" by blast
  then show ?thesis by (rule reach_step [OF ic_sample_reach])
qed

text \<open>Another handler routes 10.0.0.9 as well.\<close>

definition ic_sample_shared :: DnsInterceptor where
  "ic_sample_shared = (case Increment (route_hooks ic_sample_env) (host4 0x0A000009) () (routeRefCounter ic_sample_run) of
     Some (c, Inr _) \<Rightarrow> ic_sample_run\<lparr> routeRefCounter := c \<rparr> | _ \<Rightarrow> ic_sample_run)"

lemma ic_sample_shared_reach: "reach ic_start (ic_step ic_sample_env) (ic_sample_shared, {# host4 0x0A000009 #}, {#})"
proof -
  obtain c ref where "Increment (route_hooks ic_sample_env) (host4 0x0A000009) () (routeRefCounter ic_sample_run) = Some (c, Inr ref)"
    using counts_increment [of "route_hooks ic_sample_env"] ic_sample_env_ok ic_reach [OF ic_sample_env_ok ic_sample_run_reach]
    unfolding env_ok_def ic_inv_def by metis
  then have "ic_step ic_sample_env (ic_sample_run, {#}, {#}) (ic_sample_shared, {# host4 0x0A000009 #}, {#})"
    using other_route [of ic_sample_env "host4 0x0A000009" ic_sample_run c ref "{#}" "{#}"] by (simp add: ic_sample_shared_def)
  then show ?thesis by (rule reach_step [OF ic_sample_run_reach])
qed

theorem dynamic_routes_exact_witness:
  "dom (holds (calls (routeRefCounter ic_sample_shared))) = {host4 0x0A000009, \<lparr> pfx_addr = Addr4 0xF0000001, pfx_bits = 32 \<rparr>} \<and>
   dom (holds (calls (allowedIPsRefcounter ic_sample_shared))) = {host4 0x0A000001} \<and>
   (\<exists>d'. RemoveRoute ic_sample_env ic_sample_shared = Some (d', []) \<and> dom (holds (calls (routeRefCounter d'))) = {host4 0x0A000009})"
proof -
  have "concat (map snd (interceptedDomains ic_sample_shared)) = [host4 0x0A000001]" by code_simp
  then have "set_mset (on_record ic_sample_shared) = {host4 0x0A000001}" by (simp add: outstanding_def)
  moreover have "currentPeerKey ic_sample_shared \<noteq> ''''" by code_simp
  moreover have "transformRealToFakePrefix ic_sample_shared (host4 0x0A000001) = \<lparr> pfx_addr = Addr4 0xF0000001, pfx_bits = 32 \<rparr>" by code_simp
  ultimately show ?thesis using dynamic_routes_exact [OF ic_sample_env_ok ic_sample_shared_reach] by auto
qed

theorem fake_translation_inverse_witness:
  "\<exists>m. internalDnatFw ic_sample_run = Some m \<and> getDNATTranslation (Addr4 0xF0000001) m = Some (Some (Addr4 0x0A000001)) \<and>
     findReverseDNATMapping (Addr4 0x0A000001) m = Some (Some (Addr4 0xF0000001))"
proof -
  have "map_option (getDNATTranslation (Addr4 0xF0000001)) (internalDnatFw ic_sample_run) = Some (Some (Some (Addr4 0x0A000001)))"
    by code_simp
  then obtain m where m: "internalDnatFw ic_sample_run = Some m" "getDNATTranslation (Addr4 0xF0000001) m = Some (Some (Addr4 0x0A000001))"
    by auto
  with fake_translation_inverse [OF ic_sample_env_ok ic_sample_run_reach m(1), of "Addr4 0xF0000001" "Addr4 0x0A000001"]
  show ?thesis by blast
qed

text \<open>
  C32. The answer for one address family evicts the other. Prefixes are recorded per name, not per name and query
  type. A client that asks for the IPv4 address and then for the IPv6 address of the same name, as dual-stack
  resolvers do, is given both; the route and the allowed address of the first, in place after the first answer,
  are removed with the second.
\<close>

theorem second_family_evicts:
  "\<exists>d1 d2 out1 out2. ask ''example.com.'' TypeA [A [10, 0, 0, 1]] (ic_sample_routed ''linux'') = Some (d1, out1) \<and>
    ask ''example.com.'' TypeAAAA [AAAA (0x20 # replicate 14 0 @ [1])] d1 = Some (d2, out2) \<and>
    answered out1 = [A [10, 0, 0, 1]] \<and> answered out2 = [AAAA (0x20 # replicate 14 0 @ [1])] \<and>
    holds (calls (routeRefCounter d1)) (host4 0x0A000001) = Some () \<and>
    holds (calls (allowedIPsRefcounter d1)) (host4 0x0A000001) = Some ''peer'' \<and>
    holds (calls (routeRefCounter d2)) (host4 0x0A000001) = None \<and>
    holds (calls (allowedIPsRefcounter d2)) (host4 0x0A000001) = None"
proof -
  have "(do { (d1, out1) \<leftarrow> ask ''example.com.'' TypeA [A [10, 0, 0, 1]] (ic_sample_routed ''linux'');
              (d2, out2) \<leftarrow> ask ''example.com.'' TypeAAAA [AAAA (0x20 # replicate 14 0 @ [1])] d1;
              Some (answered out1, answered out2, calls (routeRefCounter d1), calls (allowedIPsRefcounter d1),
                calls (routeRefCounter d2), calls (allowedIPsRefcounter d2)) }) =
        (let p6 = \<lparr> pfx_addr = Addr6 0x20000000000000000000000000000001, pfx_bits = 128 \<rparr>; p4 = host4 0x0A000001
         in Some ([A [10, 0, 0, 1]], [AAAA (0x20 # replicate 14 0 @ [1])], [AddOK p4 ()], [AddOK p4 ''peer''],
              [AddOK p4 (), AddOK p6 (), RemoveOK p4 ()], [AddOK p4 ''peer'', AddOK p6 ''peer'', RemoveOK p4 ''peer'']))" by code_simp
  then show ?thesis by (auto simp: bind_eq_Some_conv holds_def Let_def)
qed

text \<open>
  An answer that repeats an address leaks its route. Each copy takes a reference, but when the address
  leaves the answer only one is given back: after the next answer, and even after the whole route is
  removed, the system still routes the address.
\<close>

theorem repeated_address_leaks:
  "\<exists>d1 d2 d3 out1 out2. ask ''example.com.'' TypeA [A [10, 0, 0, 1], A [10, 0, 0, 1]] (ic_sample_routed ''linux'') = Some (d1, out1) \<and>
    ask ''example.com.'' TypeA [A [10, 0, 0, 2]] d1 = Some (d2, out2) \<and> RemoveRoute ic_sample_env d2 = Some (d3, []) \<and>
    interceptedDomains d3 = [] \<and> holds (calls (routeRefCounter d3)) (host4 0x0A000001) = Some ()"
proof -
  have "(do { (d1, out1) \<leftarrow> ask ''example.com.'' TypeA [A [10, 0, 0, 1], A [10, 0, 0, 1]] (ic_sample_routed ''linux'');
              (d2, out2) \<leftarrow> ask ''example.com.'' TypeA [A [10, 0, 0, 2]] d1;
              (d3, es) \<leftarrow> RemoveRoute ic_sample_env d2;
              Some (es, interceptedDomains d3, calls (routeRefCounter d3)) }) =
        Some ([], [], [AddOK (host4 0x0A000001) (), AddOK (host4 0x0A000002) (), RemoveOK (host4 0x0A000002) ()])" by code_simp
  then show ?thesis by (auto simp: bind_eq_Some_conv holds_def)
qed

text \<open>
  C33. Two names that share an address lose its translation. Routes are counted, translations are not: two names
  with the address 10.0.0.1 are both answered with the fake address 240.0.0.1, which is translated to it; when
  one name's answer changes, that translation is removed although the other name still uses it. Asking for
  the other name again hands out the fake address but does not restore it.
\<close>

theorem shared_translation_lost:
  "\<exists>d1 d2 d3 d4 out1 out2 out3 out4 m2 m3 m4. ask ''a.example.com.'' TypeA [A [10, 0, 0, 1]] (ic_sample_routed ''android'') = Some (d1, out1) \<and>
    ask ''b.example.com.'' TypeA [A [10, 0, 0, 1]] d1 = Some (d2, out2) \<and> ask ''b.example.com.'' TypeA [A [10, 0, 0, 2]] d2 = Some (d3, out3) \<and>
    ask ''a.example.com.'' TypeA [A [10, 0, 0, 1]] d3 = Some (d4, out4) \<and>
    answered out1 = [A [240, 0, 0, 1]] \<and> answered out2 = [A [240, 0, 0, 1]] \<and> answered out4 = [A [240, 0, 0, 1]] \<and>
    internalDnatFw d2 = Some m2 \<and> getDNATTranslation (Addr4 0xF0000001) m2 = Some (Some (Addr4 0x0A000001)) \<and>
    internalDnatFw d3 = Some m3 \<and> getDNATTranslation (Addr4 0xF0000001) m3 = Some None \<and>
    internalDnatFw d4 = Some m4 \<and> getDNATTranslation (Addr4 0xF0000001) m4 = Some None"
proof -
  let ?t = "\<lambda>d. map_option (getDNATTranslation (Addr4 0xF0000001)) (internalDnatFw d)"
  have "(do { (d1, out1) \<leftarrow> ask ''a.example.com.'' TypeA [A [10, 0, 0, 1]] (ic_sample_routed ''android'');
              (d2, out2) \<leftarrow> ask ''b.example.com.'' TypeA [A [10, 0, 0, 1]] d1;
              (d3, out3) \<leftarrow> ask ''b.example.com.'' TypeA [A [10, 0, 0, 2]] d2;
              (d4, out4) \<leftarrow> ask ''a.example.com.'' TypeA [A [10, 0, 0, 1]] d3;
              Some (answered out1, answered out2, answered out4, ?t d2, ?t d3, ?t d4) }) =
        Some ([A [240, 0, 0, 1]], [A [240, 0, 0, 1]], [A [240, 0, 0, 1]],
          Some (Some (Some (Addr4 0x0A000001))), Some (Some None), Some (Some None))" by code_simp
  then show ?thesis by (auto simp: bind_eq_Some_conv)
qed

end
