(* ===== verification/AnonymousPolicy.thy ===== *)
theory AnonymousPolicy
  imports GoStrings
begin

text \<open>
  The anonymity policy of the client, \<open>client/internal/anonymous/anonymous.go\<close>: the transport
  configuration, its normal form and validation, the classification of hosts and endpoints, the
  validation of service URLs and of the network configuration sent by the management server, and the
  scrubbing of the system information. \<open>shared/anonymous/endpoint.go\<close> (the copy of the classification
  used by the servers, and its choice of dialer) and \<open>prepareURL\<close> of the relay's WebSocket dialer are
  modelled next to them, because they decide where an accepted endpoint is dialled.

  The texts of the errors are constructors of \<open>violation\<close>. The generator of I2P destinations and
  SHA-256 are arguments.
\<close>

section \<open>Transport configuration\<close>

definition TransportTorRelayOnly :: string where "TransportTorRelayOnly = ''tor-relay-only''"
definition TransportI2PDatagram :: string where "TransportI2PDatagram = ''i2p-datagram''"
definition EndpointTransportTor :: string where "EndpointTransportTor = ''tor''"
definition EndpointTransportI2P :: string where "EndpointTransportI2P = ''i2p''"
definition DefaultTorSOCKS5 :: string where "DefaultTorSOCKS5 = ''127.0.0.1:9050''"
definition DefaultI2PSAM :: string where "DefaultI2PSAM = ''127.0.0.1:7656''"
definition DefaultI2PTunnelLength :: byte where "DefaultI2PTunnelLength = 1"
definition DefaultI2PTunnelQuantity :: byte where "DefaultI2PTunnelQuantity = 3"
definition I2PDaemonExternal :: string where "I2PDaemonExternal = ''external''"
definition I2PDaemonAuto :: string where "I2PDaemonAuto = ''auto''"
definition I2PDaemonManaged :: string where "I2PDaemonManaged = ''managed''"
definition DefaultI2PDaemonMode :: string where "DefaultI2PDaemonMode = I2PDaemonAuto"
definition DefaultI2PDaemonPath :: string where "DefaultI2PDaemonPath = ''i2pd''"

lemmas transport_names = TransportTorRelayOnly_def TransportI2PDatagram_def EndpointTransportTor_def
  EndpointTransportI2P_def

lemmas transport_defaults = DefaultTorSOCKS5_def DefaultI2PSAM_def DefaultI2PTunnelLength_def
  DefaultI2PTunnelQuantity_def I2PDaemonExternal_def I2PDaemonAuto_def I2PDaemonManaged_def
  DefaultI2PDaemonMode_def DefaultI2PDaemonPath_def

record TransportConfig =
  Type :: string
  RequireAnonymous :: bool
  TorSOCKS5 :: string
  I2PSAM :: string
  I2PTunnelLength :: byte
  I2PTunnelQuantity :: byte
  I2PDestinationPublic :: string
  I2PDestinationPrivate :: string
  I2PDaemonMode :: string
  I2PDaemonPath :: string
  I2PDataDir :: string

definition TransportConfig0 :: TransportConfig where
  "TransportConfig0 = \<lparr> Type = [], RequireAnonymous = False, TorSOCKS5 = [], I2PSAM = [],
     I2PTunnelLength = 0, I2PTunnelQuantity = 0, I2PDestinationPublic = [], I2PDestinationPrivate = [],
     I2PDaemonMode = [], I2PDaemonPath = [], I2PDataDir = [] \<rparr>"

definition DefaultTransport :: TransportConfig where
  "DefaultTransport = TransportConfig0\<lparr> Type := TransportTorRelayOnly, RequireAnonymous := True,
     TorSOCKS5 := DefaultTorSOCKS5 \<rparr>"

definition or_default :: "'a \<Rightarrow> 'a \<Rightarrow> 'a \<Rightarrow> 'a" where
  "or_default zero d x = (if x = zero then d else x)"

definition trim_fields :: "TransportConfig \<Rightarrow> TransportConfig" where
  "trim_fields c = c\<lparr>
     Type := ToLower (TrimSpace (or_default [] TransportTorRelayOnly (Type c))),
     TorSOCKS5 := TrimSpace (TorSOCKS5 c), I2PSAM := TrimSpace (I2PSAM c),
     I2PDestinationPublic := TrimSpace (I2PDestinationPublic c),
     I2PDestinationPrivate := TrimSpace (I2PDestinationPrivate c),
     I2PDaemonMode := ToLower (TrimSpace (I2PDaemonMode c)),
     I2PDaemonPath := TrimSpace (I2PDaemonPath c), I2PDataDir := TrimSpace (I2PDataDir c),
     RequireAnonymous := True \<rparr>"

definition NormalizeTransport :: "TransportConfig \<Rightarrow> TransportConfig" where
  "NormalizeTransport inp =
     (let c = trim_fields inp
      in if Type c = TransportTorRelayOnly
         then c\<lparr> TorSOCKS5 := or_default [] DefaultTorSOCKS5 (TorSOCKS5 c) \<rparr>
         else if Type c = TransportI2PDatagram
         then c\<lparr> I2PSAM := or_default [] DefaultI2PSAM (I2PSAM c),
                 I2PTunnelLength := or_default 0 DefaultI2PTunnelLength (I2PTunnelLength c),
                 I2PTunnelQuantity := or_default 0 DefaultI2PTunnelQuantity (I2PTunnelQuantity c),
                 I2PDaemonMode := or_default [] DefaultI2PDaemonMode (I2PDaemonMode c),
                 I2PDaemonPath := or_default [] DefaultI2PDaemonPath (I2PDaemonPath c) \<rparr>
         else c)"

datatype violation =
    NotRequired | AddressEmpty string | NotHostPort string string | NoHostOrPort string string
  | NotLoopback string string | IncompleteDestination | BadDaemonMode string
  | BadTunnelLength byte | BadTunnelQuantity byte | UnsupportedTransport string
  | URLEmpty string | URLNotAnonymous string | EndpointEmpty string
  | EndpointNotAnonymous string string | EmptyNetworkConfig | STUNEnabled | TURNEnabled
  | WrongTransport string string string | GenerateFailed | GeneratedIncomplete | NATMappings

definition validateHostPort :: "string \<Rightarrow> string \<Rightarrow> violation + unit" where
  "validateHostPort name val =
     (if val = [] then Inl (AddressEmpty name)
      else case SplitHostPort val of
             Inl _ \<Rightarrow> Inl (NotHostPort name val)
           | Inr (host, port) \<Rightarrow>
               if TrimSpace host = [] \<or> TrimSpace port = [] then Inl (NoHostOrPort name val) else Inr ())"

definition validateLoopbackHostPort :: "string \<Rightarrow> string \<Rightarrow> violation + unit" where
  "validateLoopbackHostPort name val =
     (case SplitHostPort val of
        Inl _ \<Rightarrow> Inl (NotHostPort name val)
      | Inr (host, _) \<Rightarrow>
          (let host = Trim (TrimSpace host) ''[]''
           in if host = [] \<or> EqualFold host ''localhost'' then Inr ()
              else case ParseIP host of
                     None \<Rightarrow> Inl (NotLoopback name val)
                   | Some ip \<Rightarrow> if \<not> IsLoopback ip then Inl (NotLoopback name val) else Inr ()))"

definition ValidateTransport :: "TransportConfig \<Rightarrow> violation + unit" where
  "ValidateTransport c0 =
     (let c = NormalizeTransport c0
      in if \<not> RequireAnonymous c then Inl NotRequired
         else if Type c = TransportTorRelayOnly
         then (case validateHostPort ''tor socks5'' (TorSOCKS5 c) of
                 Inl e \<Rightarrow> Inl e
               | Inr _ \<Rightarrow> validateLoopbackHostPort ''tor socks5'' (TorSOCKS5 c))
         else if Type c = TransportI2PDatagram
         then (case validateHostPort ''i2p sam'' (I2PSAM c) of
                 Inl e \<Rightarrow> Inl e
               | Inr _ \<Rightarrow>
                   if (I2PDestinationPublic c = []) \<noteq> (I2PDestinationPrivate c = []) then Inl IncompleteDestination
                   else if I2PDaemonMode c \<notin> {I2PDaemonExternal, I2PDaemonAuto, I2PDaemonManaged}
                   then Inl (BadDaemonMode (I2PDaemonMode c))
                   else if I2PTunnelLength c > 7 then Inl (BadTunnelLength (I2PTunnelLength c))
                   else if I2PTunnelQuantity c > 16 then Inl (BadTunnelQuantity (I2PTunnelQuantity c))
                   else Inr ())
         else Inl (UnsupportedTransport (Type c)))"

text \<open>The generator of destinations (the SAM bridge) returns a pair of keys or fails.\<close>

definition EnsureI2PDestination ::
    "(string \<Rightarrow> (string \<times> string) option) \<Rightarrow> TransportConfig \<Rightarrow> (TransportConfig \<times> violation) + (TransportConfig \<times> bool)" where
  "EnsureI2PDestination generate c0 =
     (let c = NormalizeTransport c0
      in if Type c \<noteq> TransportI2PDatagram then Inr (c, False)
         else case ValidateTransport c of
                Inl e \<Rightarrow> Inl (c, e)
              | Inr _ \<Rightarrow>
                  if I2PDestinationPublic c \<noteq> [] \<and> I2PDestinationPrivate c \<noteq> [] then Inr (c, False)
                  else case generate (I2PSAM c) of
                         None \<Rightarrow> Inl (c, GenerateFailed)
                       | Some (pub, priv) \<Rightarrow>
                           (let c = c\<lparr> I2PDestinationPublic := TrimSpace pub, I2PDestinationPrivate := TrimSpace priv \<rparr>
                            in if I2PDestinationPublic c = [] \<or> I2PDestinationPrivate c = []
                               then Inl (c, GeneratedIncomplete) else Inr (c, True)))"

section \<open>Hosts and endpoints\<close>

definition HostTransport :: "string \<Rightarrow> string" where
  "HostTransport host =
     (let host = TrimSuffix (TrimSpace (ToLower host)) ''.''
      in if host = [] then []
         else let host = (if CHR '':'' \<in> set host
                          then (case SplitHostPort host of Inr (h, _) \<Rightarrow> Trim h ''[]'' | Inl _ \<Rightarrow> host)
                          else host)
              in if ParseIP (Trim host ''[]'') \<noteq> None then []
                 else if HasSuffix host ''.onion'' then EndpointTransportTor
                 else if HasSuffix host ''.b32.i2p'' then EndpointTransportI2P
                 else [])"

definition HostIsAnonymous :: "string \<Rightarrow> bool" where
  "HostIsAnonymous host = (HostTransport host \<noteq> [])"

definition URLIsAnonymous :: "url option \<Rightarrow> bool" where
  "URLIsAnonymous u = (case u of None \<Rightarrow> False | Some u \<Rightarrow> HostIsAnonymous (Hostname u))"

definition URLTransport :: "url option \<Rightarrow> string" where
  "URLTransport u = (case u of None \<Rightarrow> [] | Some u \<Rightarrow> HostTransport (Hostname u))"

definition EndpointTransport :: "string \<Rightarrow> string" where
  "EndpointTransport endpoint =
     (case url_Parse endpoint of
        None \<Rightarrow> HostTransport endpoint
      | Some parsed \<Rightarrow>
          if Hostname parsed \<noteq> [] then HostTransport (Hostname parsed) else HostTransport endpoint)"

definition EndpointIsAnonymous :: "string \<Rightarrow> bool" where
  "EndpointIsAnonymous endpoint = (EndpointTransport endpoint \<noteq> [])"

definition transportName :: "string \<Rightarrow> string" where
  "transportName t = (if t = EndpointTransportTor then ''.onion''
     else if t = EndpointTransportI2P then ''.b32.i2p'' else ''clearnet'')"

definition validateEndpointTransport :: "string \<Rightarrow> string \<Rightarrow> TransportConfig \<Rightarrow> violation + unit" where
  "validateEndpointTransport serviceName endpointTransport transport =
     (let t = NormalizeTransport transport;
          check = (\<lambda>expected. if endpointTransport \<noteq> expected
                    then Inl (WrongTransport serviceName (transportName endpointTransport) (Type t)) else Inr ())
      in if Type t = TransportTorRelayOnly then check EndpointTransportTor
         else if Type t = TransportI2PDatagram then check EndpointTransportI2P
         else Inl (UnsupportedTransport (Type t)))"

definition ValidateServiceURL :: "string \<Rightarrow> url option \<Rightarrow> violation + unit" where
  "ValidateServiceURL serviceName u =
     (if u = None then Inl (URLEmpty serviceName)
      else if \<not> URLIsAnonymous u then Inl (URLNotAnonymous serviceName)
      else Inr ())"

definition ValidateServiceURLForTransport :: "string \<Rightarrow> url option \<Rightarrow> TransportConfig \<Rightarrow> violation + unit" where
  "ValidateServiceURLForTransport serviceName u transport =
     (case ValidateServiceURL serviceName u of
        Inl e \<Rightarrow> Inl e
      | Inr _ \<Rightarrow> validateEndpointTransport (serviceName @ '' URL'') (URLTransport u) transport)"

definition ValidateEndpointForTransport :: "string \<Rightarrow> string \<Rightarrow> TransportConfig \<Rightarrow> violation + unit" where
  "ValidateEndpointForTransport serviceName endpoint transport =
     (if \<not> EndpointIsAnonymous endpoint then Inl (EndpointNotAnonymous serviceName endpoint)
      else validateEndpointTransport (serviceName @ '' endpoint'') (EndpointTransport endpoint) transport)"

text \<open>
  The messages of the management protocol, with the fields that are read: a nil message is \<open>None\<close>, and
  the getters of a nil message return empty values.
\<close>

record HostConfig =
  Uri :: string

record NetbirdConfig =
  Signal :: "HostConfig option"
  Stuns :: "HostConfig list"
  Turns :: "HostConfig list"
  RelayUrls :: "string list option"

definition relay_urls :: "NetbirdConfig \<Rightarrow> string list" where
  "relay_urls cfg = (case RelayUrls cfg of None \<Rightarrow> [] | Some us \<Rightarrow> us)"

definition ValidateHostConfig :: "string \<Rightarrow> HostConfig option \<Rightarrow> violation + unit" where
  "ValidateHostConfig serviceName cfg =
     (case cfg of
        None \<Rightarrow> Inl (EndpointEmpty serviceName)
      | Some h \<Rightarrow> if \<not> EndpointIsAnonymous (Uri h) then Inl (EndpointNotAnonymous serviceName (Uri h)) else Inr ())"

definition ValidateHostConfigForTransport :: "string \<Rightarrow> HostConfig option \<Rightarrow> TransportConfig \<Rightarrow> violation + unit" where
  "ValidateHostConfigForTransport serviceName cfg transport =
     (case ValidateHostConfig serviceName cfg of
        Inl e \<Rightarrow> Inl e
      | Inr _ \<Rightarrow> validateEndpointTransport (serviceName @ '' endpoint'') (EndpointTransport (Uri (the cfg))) transport)"

fun validate_relays :: "string list \<Rightarrow> violation + unit" where
  "validate_relays [] = Inr ()"
| "validate_relays (r # rs) =
     (if \<not> EndpointIsAnonymous r then Inl (EndpointNotAnonymous ''relay'' r) else validate_relays rs)"

definition ValidateNetbirdConfig :: "NetbirdConfig option \<Rightarrow> violation + unit" where
  "ValidateNetbirdConfig cfg =
     (case cfg of
        None \<Rightarrow> Inl EmptyNetworkConfig
      | Some c \<Rightarrow>
          (case ValidateHostConfig ''signal'' (Signal c) of
             Inl e \<Rightarrow> Inl e
           | Inr _ \<Rightarrow>
               if 0 < length (Stuns c) then Inl STUNEnabled
               else if 0 < length (Turns c) then Inl TURNEnabled
               else validate_relays (relay_urls c)))"

fun validate_relays_for :: "TransportConfig \<Rightarrow> string list \<Rightarrow> violation + unit" where
  "validate_relays_for t [] = Inr ()"
| "validate_relays_for t (r # rs) =
     (let relayTransport = EndpointTransport r
      in if relayTransport = [] then Inl (EndpointNotAnonymous ''relay'' r)
         else case validateEndpointTransport (''relay endpoint '' @ r) relayTransport t of
                Inl e \<Rightarrow> Inl e
              | Inr _ \<Rightarrow> validate_relays_for t rs)"

definition ValidateNetbirdConfigForTransport :: "NetbirdConfig option \<Rightarrow> TransportConfig \<Rightarrow> violation + unit" where
  "ValidateNetbirdConfigForTransport cfg transport =
     (case cfg of
        None \<Rightarrow> Inl EmptyNetworkConfig
      | Some c \<Rightarrow>
          (case ValidateHostConfigForTransport ''signal'' (Signal c) transport of
             Inl e \<Rightarrow> Inl e
           | Inr _ \<Rightarrow>
               if 0 < length (Stuns c) then Inl STUNEnabled
               else if 0 < length (Turns c) then Inl TURNEnabled
               else validate_relays_for transport (relay_urls c)))"

section \<open>System information\<close>

record NetworkAddress =
  NetIP :: prefix
  Mac :: string

record Environment =
  Cloud :: string
  EnvPlatform :: string

record File =
  FilePath :: string
  Exist :: bool
  ProcessIsRunning :: bool

record Info =
  GoOS :: string
  Kernel :: string
  InfoPlatform :: string
  OS :: string
  OSVersion :: string
  InfoHostname :: string
  CPUs :: int
  NetbirdVersion :: string
  UIVersion :: string
  KernelVersion :: string
  NetworkAddresses :: "NetworkAddress list"
  SystemSerialNumber :: string
  SystemProductName :: string
  SystemManufacturer :: string
  InfoEnvironment :: Environment
  Files :: "File list"
  InfoRosenpassEnabled :: bool
  InfoRosenpassPermissive :: bool
  InfoServerSSHAllowed :: bool
  InfoDisableClientRoutes :: bool
  InfoDisableServerRoutes :: bool
  InfoDisableDNS :: bool
  InfoDisableFirewall :: bool
  InfoBlockLANAccess :: bool
  InfoBlockInbound :: bool
  InfoDisableIPv6 :: bool
  InfoLazyConnectionEnabled :: bool
  InfoEnableSSHRoot :: bool
  InfoEnableSSHSFTP :: bool
  InfoEnableSSHLocalPortForwarding :: bool
  InfoEnableSSHRemotePortForwarding :: bool
  InfoDisableSSHAuth :: bool
  InfoAnonymousMode :: bool
  InfoAnonymousTransport :: string
  I2PDestination :: string

text \<open>\<open>SetFlags\<close>; a nil pointer leaves the field as it is.\<close>

definition set_opt :: "('a \<Rightarrow> 'b \<Rightarrow> 'b) \<Rightarrow> 'a option \<Rightarrow> 'b \<Rightarrow> 'b" where
  "set_opt upd v x = (case v of None \<Rightarrow> x | Some a \<Rightarrow> upd a x)"

definition SetFlags ::
    "bool \<Rightarrow> bool \<Rightarrow> bool option \<Rightarrow> bool \<Rightarrow> bool \<Rightarrow> bool \<Rightarrow> bool \<Rightarrow> bool \<Rightarrow> bool \<Rightarrow> bool \<Rightarrow> bool \<Rightarrow>
     bool option \<Rightarrow> bool option \<Rightarrow> bool option \<Rightarrow> bool option \<Rightarrow> bool option \<Rightarrow> Info \<Rightarrow> Info" where
  "SetFlags rosenpassEnabled rosenpassPermissive serverSSHAllowed disableClientRoutes disableServerRoutes
     disableDNS disableFirewall blockLANAccess blockInbound disableIPv6 lazyConnectionEnabled
     enableSSHRoot enableSSHSFTP enableSSHLocalPortForwarding enableSSHRemotePortForwarding disableSSHAuth i =
     set_opt (\<lambda>b i. i\<lparr> InfoDisableSSHAuth := b \<rparr>) disableSSHAuth
     (set_opt (\<lambda>b i. i\<lparr> InfoEnableSSHRemotePortForwarding := b \<rparr>) enableSSHRemotePortForwarding
     (set_opt (\<lambda>b i. i\<lparr> InfoEnableSSHLocalPortForwarding := b \<rparr>) enableSSHLocalPortForwarding
     (set_opt (\<lambda>b i. i\<lparr> InfoEnableSSHSFTP := b \<rparr>) enableSSHSFTP
     (set_opt (\<lambda>b i. i\<lparr> InfoEnableSSHRoot := b \<rparr>) enableSSHRoot
     (set_opt (\<lambda>b i. i\<lparr> InfoServerSSHAllowed := b \<rparr>) serverSSHAllowed
     (i\<lparr> InfoRosenpassEnabled := rosenpassEnabled, InfoRosenpassPermissive := rosenpassPermissive,
        InfoDisableClientRoutes := disableClientRoutes, InfoDisableServerRoutes := disableServerRoutes,
        InfoDisableDNS := disableDNS, InfoDisableFirewall := disableFirewall,
        InfoBlockLANAccess := blockLANAccess, InfoBlockInbound := blockInbound,
        InfoDisableIPv6 := disableIPv6, InfoLazyConnectionEnabled := lazyConnectionEnabled \<rparr>))))))"

definition hex_encode :: "bytes \<Rightarrow> string" where
  "hex_encode bs = concat (map (\<lambda>b. map (\<lambda>d. lower_char (hex_digit d)) [uint b div 16, uint b mod 16]) bs)"

definition StableHostname :: "(string \<Rightarrow> bytes) \<Rightarrow> string \<Rightarrow> string" where
  "StableHostname sha256 publicKey = ''anonbird-'' @ take 12 (hex_encode (sha256 publicKey))"

definition SanitizeSystemInfo :: "(string \<Rightarrow> bytes) \<Rightarrow> string \<Rightarrow> Info option \<Rightarrow> Info option" where
  "SanitizeSystemInfo sha256 publicKey info =
     (case info of
        None \<Rightarrow> None
      | Some i \<Rightarrow> Some (i\<lparr> InfoHostname := StableHostname sha256 publicKey, NetworkAddresses := [],
          SystemSerialNumber := [], SystemProductName := [], SystemManufacturer := [],
          InfoEnvironment := \<lparr> Cloud = [], EnvPlatform = [] \<rparr>, InfoAnonymousMode := True \<rparr>))"

definition SetSystemInfoTransport :: "TransportConfig \<Rightarrow> Info option \<Rightarrow> Info option" where
  "SetSystemInfoTransport transport info =
     (case info of
        None \<Rightarrow> None
      | Some i \<Rightarrow>
          (let t = NormalizeTransport transport
           in Some (i\<lparr> InfoAnonymousTransport := Type t,
                I2PDestination := (if Type t = TransportI2PDatagram then I2PDestinationPublic t else []) \<rparr>)))"

section \<open>Dialling\<close>

text \<open>\<open>prepareURL\<close> of the relay's WebSocket dialer; the path of the relay endpoint is \<open>/relay\<close>.\<close>

datatype dial_err = ParseAddress | UnsupportedScheme string | MissingHost

definition WebSocketURLPath :: string where "WebSocketURLPath = ''/relay''"

definition prepareURL :: "string \<Rightarrow> dial_err + url" where
  "prepareURL address =
     (case url_Parse address of
        None \<Rightarrow> Inl ParseAddress
      | Some parsed \<Rightarrow>
          (let withScheme = (\<lambda>s. if Host parsed = [] then Inl MissingHost
                 else Inr (parsed\<lparr> Scheme := s, Path := WebSocketURLPath \<rparr>))
           in if Scheme parsed = ''rel'' then withScheme ''ws''
              else if Scheme parsed = ''rels'' then withScheme ''wss''
              else Inl (UnsupportedScheme (Scheme parsed))))"

text \<open>
  \<open>shared/anonymous/endpoint.go\<close>: the servers' copy of the classification, and the dialer chosen for
  an HTTP client. Creating the SOCKS5 dialer may fail; the argument says whether it does.
\<close>

definition Shared_HostTransport :: "string \<Rightarrow> string" where
  "Shared_HostTransport host =
     (let host = TrimSuffix (TrimSpace (ToLower host)) ''.''
      in if host = [] then []
         else let host = (if CHR '':'' \<in> set host
                          then (case SplitHostPort host of Inr (h, _) \<Rightarrow> Trim h ''[]'' | Inl _ \<Rightarrow> host)
                          else host)
              in if ParseIP (Trim host ''[]'') \<noteq> None then []
                 else if HasSuffix host ''.onion'' then EndpointTransportTor
                 else if HasSuffix host ''.b32.i2p'' then EndpointTransportI2P
                 else [])"

definition Shared_EndpointTransport :: "string \<Rightarrow> string" where
  "Shared_EndpointTransport endpoint =
     (case url_Parse endpoint of
        None \<Rightarrow> Shared_HostTransport endpoint
      | Some parsed \<Rightarrow>
          if Hostname parsed \<noteq> [] then Shared_HostTransport (Hostname parsed) else Shared_HostTransport endpoint)"

definition Shared_EndpointIsAnonymous :: "string \<Rightarrow> bool" where
  "Shared_EndpointIsAnonymous endpoint = (Shared_EndpointTransport endpoint \<noteq> [])"

datatype dialer = SOCKS5Dialer string | SAMDialer string int byte byte | DirectDialer

definition HTTPClientForEndpoint :: "bool \<Rightarrow> string \<Rightarrow> int \<Rightarrow> (int \<times> dialer) option" where
  "HTTPClientForEndpoint socksOK endpoint timeout =
     (let timeout = (if timeout \<le> 0 then 30000000000 else timeout);
          t = Shared_EndpointTransport endpoint
      in if t = EndpointTransportTor
         then (if socksOK then Some (timeout, SOCKS5Dialer DefaultTorSOCKS5) else None)
         else if t = EndpointTransportI2P
         then Some (timeout, SAMDialer DefaultI2PSAM timeout DefaultI2PTunnelLength DefaultI2PTunnelQuantity)
         else Some (timeout, DirectDialer))"

section \<open>Normal form\<close>

lemma or_default_idem [simp]: "or_default z d (or_default z d x) = or_default z d x"
  by (simp add: or_default_def)

lemma lower_trim_idem: "ToLower (TrimSpace (ToLower (TrimSpace s))) = ToLower (TrimSpace s)"
  by (simp add: TrimSpace_ToLower)

lemma trim_default_ascii:
  "ToLower (TrimSpace TransportTorRelayOnly) = TransportTorRelayOnly"
  "ToLower (TrimSpace TransportI2PDatagram) = TransportI2PDatagram"
  "TrimSpace DefaultTorSOCKS5 = DefaultTorSOCKS5" "TrimSpace DefaultI2PSAM = DefaultI2PSAM"
  "ToLower (TrimSpace DefaultI2PDaemonMode) = DefaultI2PDaemonMode"
  "TrimSpace DefaultI2PDaemonPath = DefaultI2PDaemonPath"
  by code_simp+

lemma transport_distinct [simp]:
  "TransportTorRelayOnly \<noteq> TransportI2PDatagram" "TransportI2PDatagram \<noteq> TransportTorRelayOnly"
  "TransportTorRelayOnly \<noteq> []" "TransportI2PDatagram \<noteq> []"
  "EndpointTransportTor \<noteq> EndpointTransportI2P" "EndpointTransportI2P \<noteq> EndpointTransportTor"
  "EndpointTransportTor \<noteq> []" "EndpointTransportI2P \<noteq> []"
  "[] \<noteq> EndpointTransportTor" "[] \<noteq> EndpointTransportI2P"
  "[] \<noteq> TransportTorRelayOnly" "[] \<noteq> TransportI2PDatagram"
  by (simp_all add: transport_names)

lemma trim_or_default:
  "TrimSpace d = d \<Longrightarrow> TrimSpace (or_default [] d (TrimSpace x)) = or_default [] d (TrimSpace x)"
  "ToLower (TrimSpace d) = d \<Longrightarrow>
     ToLower (TrimSpace (or_default [] d (ToLower (TrimSpace x)))) = or_default [] d (ToLower (TrimSpace x))"
  by (simp_all add: or_default_def lower_trim_idem)

lemma Type_trim_fields:
  "ToLower (TrimSpace (Type (trim_fields c))) = Type (trim_fields c)"
  by (simp add: trim_fields_def lower_trim_idem)

text \<open>
  A type that is blank but not empty is trimmed to the empty type, which is a transport of its own
  (unsupported); normalising once more turns it into the default. Every other configuration is a
  fixed point after one step.
\<close>

lemma NormalizeTransport_idem:
  assumes "Type (NormalizeTransport c) \<noteq> []"
  shows "NormalizeTransport (NormalizeTransport c) = NormalizeTransport c"
proof -
  have ty: "Type (NormalizeTransport c) = Type (trim_fields c)"
    by (simp add: NormalizeTransport_def Let_def)
  have "trim_fields (NormalizeTransport c) = NormalizeTransport c"
    using assms Type_trim_fields [of c] unfolding ty
    by (cases c) (simp add: NormalizeTransport_def trim_fields_def Let_def or_default_def [of "[]" TransportTorRelayOnly]
        trim_or_default trim_default_ascii lower_trim_idem)
  moreover define N where "N = NormalizeTransport c"
  ultimately have trim: "trim_fields N = N" by simp
  have "Type (trim_fields c) = TransportTorRelayOnly \<Longrightarrow> or_default [] DefaultTorSOCKS5 (TorSOCKS5 N) = TorSOCKS5 N"
    and "Type (trim_fields c) = TransportI2PDatagram \<Longrightarrow> or_default [] DefaultI2PSAM (I2PSAM N) = I2PSAM N \<and>
      or_default 0 DefaultI2PTunnelLength (I2PTunnelLength N) = I2PTunnelLength N \<and>
      or_default 0 DefaultI2PTunnelQuantity (I2PTunnelQuantity N) = I2PTunnelQuantity N \<and>
      or_default [] DefaultI2PDaemonMode (I2PDaemonMode N) = I2PDaemonMode N \<and>
      or_default [] DefaultI2PDaemonPath (I2PDaemonPath N) = I2PDaemonPath N"
    unfolding N_def by (simp_all add: NormalizeTransport_def Let_def)
  then have "NormalizeTransport N = N"
    using ty [folded N_def] by (simp add: NormalizeTransport_def [of N] trim Let_def)
  then show ?thesis by (simp add: N_def)
qed

lemma NormalizeTransport_Type_cases:
  "Type (NormalizeTransport c) = ToLower (TrimSpace (or_default [] TransportTorRelayOnly (Type c)))"
  by (simp add: NormalizeTransport_def trim_fields_def Let_def)

lemma NormalizeTransport_RequireAnonymous [simp]: "RequireAnonymous (NormalizeTransport c)"
  by (simp add: NormalizeTransport_def trim_fields_def Let_def)

section \<open>What is accepted\<close>

text \<open>
  \<open>host_name\<close> is the name that \<open>HostTransport\<close> classifies, \<open>endpoint_host\<close> the host of an endpoint, and
  \<open>anonymous_name\<close> says that a name lies under a suffix and is not an address for \<open>net.ParseIP\<close>,
  which refuses addresses with a zone. \<open>network_suffix\<close> is the
  suffix of the configured network.
\<close>

definition host_name :: "string \<Rightarrow> string" where
  "host_name host =
     (let host = TrimSuffix (TrimSpace (ToLower host)) ''.''
      in if CHR '':'' \<in> set host
         then (case SplitHostPort host of Inr (h, _) \<Rightarrow> Trim h ''[]'' | Inl _ \<Rightarrow> host)
         else host)"

definition endpoint_host :: "string \<Rightarrow> string" where
  "endpoint_host endpoint =
     (case url_hostname endpoint of None \<Rightarrow> endpoint | Some h \<Rightarrow> if h \<noteq> [] then h else endpoint)"

definition anonymous_name :: "string \<Rightarrow> string \<Rightarrow> bool" where
  "anonymous_name suffix name = (HasSuffix name suffix \<and> ParseIP (Trim name ''[]'') = None)"

definition network_suffix :: "TransportConfig \<Rightarrow> string option" where
  "network_suffix t =
     (if Type (NormalizeTransport t) = TransportTorRelayOnly then Some ''.onion''
      else if Type (NormalizeTransport t) = TransportI2PDatagram then Some ''.b32.i2p'' else None)"

lemma suffixes_disjoint: "HasSuffix n ''.onion'' \<Longrightarrow> \<not> HasSuffix n ''.b32.i2p''"
  unfolding HasSuffix_iff
proof clarify
  fix p q assume "p @ ''.onion'' = q @ ''.b32.i2p''"
  then have "rev (p @ ''.onion'') = rev (q @ ''.b32.i2p'')" by (rule arg_cong)
  then show False by simp
qed

lemma host_name_blank: "TrimSuffix (TrimSpace (ToLower h)) ''.'' = [] \<Longrightarrow> host_name h = []"
  by (simp add: host_name_def)

lemma HostTransport_iff:
  "HostTransport h = EndpointTransportTor \<longleftrightarrow> anonymous_name ''.onion'' (host_name h)"
  "HostTransport h = EndpointTransportI2P \<longleftrightarrow> anonymous_name ''.b32.i2p'' (host_name h)"
  using suffixes_disjoint [of "host_name h"] host_name_blank [of h]
  by (auto simp: HostTransport_def host_name_def anonymous_name_def Let_def HasSuffix_def split: if_splits)

lemma HostTransport_cases: "HostTransport h \<in> {[], EndpointTransportTor, EndpointTransportI2P}"
  by (simp add: HostTransport_def Let_def)

lemma EndpointTransport_host: "EndpointTransport u = HostTransport (endpoint_host u)"
  by (auto simp: EndpointTransport_def endpoint_host_def url_hostname_def split: option.splits)

lemma validateEndpointTransport_iff:
  "validateEndpointTransport n (HostTransport h) t = Inr () \<longleftrightarrow>
     (\<exists>suffix. network_suffix t = Some suffix \<and> anonymous_name suffix (host_name h))"
  by (auto simp: validateEndpointTransport_def network_suffix_def Let_def HostTransport_iff)

lemma anonymous_imp_transport:
  "anonymous_name suffix (host_name h) \<Longrightarrow> network_suffix t = Some suffix \<Longrightarrow> HostTransport h \<noteq> []"
  by (auto simp: network_suffix_def HostTransport_iff(1) [symmetric] HostTransport_iff(2) [symmetric]
      split: if_splits)

definition accepted_endpoint :: "TransportConfig \<Rightarrow> string \<Rightarrow> bool" where
  "accepted_endpoint t u =
     (case network_suffix t of None \<Rightarrow> False | Some suffix \<Rightarrow> anonymous_name suffix (host_name (endpoint_host u)))"

lemma ValidateHostConfigForTransport_iff:
  "ValidateHostConfigForTransport n h t = Inr () \<longleftrightarrow> (\<exists>s. h = Some s \<and> accepted_endpoint t (Uri s))"
  using anonymous_imp_transport
  by (auto simp: ValidateHostConfigForTransport_def ValidateHostConfig_def EndpointIsAnonymous_def
      EndpointTransport_host validateEndpointTransport_iff accepted_endpoint_def split: option.splits)

lemma validate_relays_for_iff:
  "validate_relays_for t rs = Inr () \<longleftrightarrow> list_all (accepted_endpoint t) rs"
proof (induction rs)
  case (Cons r rs)
  have "(\<exists>suffix. network_suffix t = Some suffix \<and> anonymous_name suffix (host_name (endpoint_host r)))
      \<longleftrightarrow> accepted_endpoint t r"
    by (auto simp: accepted_endpoint_def split: option.splits)
  then show ?case using Cons anonymous_imp_transport [of _ "endpoint_host r" t]
      validateEndpointTransport_iff [of "''relay endpoint '' @ r" "endpoint_host r" t]
    by (auto simp: EndpointTransport_host Let_def case_sum_Inr_iff)
qed simp

text \<open>
  C4. The anonymity policy on the network configuration is exact. In anonymous mode the client accepts
  the configuration sent by the management server if and only if it names a signal server, no STUN
  and no TURN servers, and the signal endpoint and every relay endpoint is classified into the
  configured network: the host name of its URL (or the whole text, when it is no URL or has no host
  name), lower-cased and without port, brackets and final dot, ends in the suffix of the network
  (\<open>.onion\<close> for Tor, \<open>.b32.i2p\<close> for I2P) and is not an IP address that \<open>net.ParseIP\<close> accepts. The
  two gaps of this condition, an address whose zone ends in the suffix and an endpoint without a host,
  are the lemmas \<open>zoned_address_accepted\<close> and \<open>hostless_relay_accepted\<close>.
\<close>

theorem network_config_exact:
  "ValidateNetbirdConfigForTransport cfg t = Inr () \<longleftrightarrow>
     (\<exists>c s suffix. cfg = Some c \<and> Signal c = Some s \<and> Stuns c = [] \<and> Turns c = [] \<and>
        network_suffix t = Some suffix \<and>
        list_all (\<lambda>u. anonymous_name suffix (host_name (endpoint_host u))) (Uri s # relay_urls c))"
proof -
  have "ValidateNetbirdConfigForTransport cfg t = Inr () \<longleftrightarrow>
     (\<exists>c s. cfg = Some c \<and> Signal c = Some s \<and> Stuns c = [] \<and> Turns c = [] \<and>
        list_all (accepted_endpoint t) (Uri s # relay_urls c))"
    using ValidateHostConfigForTransport_iff [of "''signal''" _ t]
    by (cases cfg) (auto simp: ValidateNetbirdConfigForTransport_def case_sum_Inr_iff validate_relays_for_iff)
  then show ?thesis
    by (cases "network_suffix t") (simp_all add: accepted_endpoint_def [abs_def])
qed

lemma prepareURL_Hostname:
  assumes "prepareURL r = Inr u"
  shows "url_hostname r = Some (Hostname u)"
  using assms
  by (auto simp: prepareURL_def url_hostname_def Hostname_def Let_def split: option.splits if_splits)

lemma prepareURL_shape:
  assumes "prepareURL r = Inr u"
  shows "(\<exists>v. url_Parse r = Some v \<and> Host u = Host v) \<and> Scheme u \<in> {''ws'', ''wss''} \<and> Path u = WebSocketURLPath"
  using assms by (auto simp: prepareURL_def Let_def split: option.splits if_splits)


definition sample_network :: NetbirdConfig where
  "sample_network = \<lparr> Signal = Some \<lparr> Uri = ''https://signal.onion:443'' \<rparr>, Stuns = [], Turns = [],
     RelayUrls = Some [''rels://Relay.ONION:443''] \<rparr>"

lemma sample_network_accepted: "ValidateNetbirdConfigForTransport (Some sample_network) DefaultTransport = Inr ()"
  by code_simp


text \<open>An endpoint without a host is classified by its whole text, so that it may pass.\<close>

lemma hostless_relay_accepted:
  "EndpointTransport ''rel://:80/x.onion'' = EndpointTransportTor"
  "map_sum id Host (prepareURL ''rel://:80/x.onion'') = Inr '':80''"
  by code_simp+

text \<open>An IPv6 address whose zone ends in the suffix is no address for \<open>net.ParseIP\<close>, so that it passes.\<close>

lemma zoned_address_accepted:
  "EndpointTransport ''rels://[2001:db8::1%25x.onion]:443'' = EndpointTransportTor"
  "map_sum id Hostname (prepareURL ''rels://[2001:db8::1%25x.onion]:443'') = Inr ''2001:db8::1%x.onion''"
  by code_simp+

section \<open>The identity of the transport\<close>

lemma ValidateTransport_normalized:
  "Type (NormalizeTransport c) \<noteq> [] \<Longrightarrow> ValidateTransport (NormalizeTransport c) = ValidateTransport c"
  by (simp add: ValidateTransport_def NormalizeTransport_idem)

lemma NormalizeTransport_destination:
  "TrimSpace p = p \<Longrightarrow> TrimSpace q = q \<Longrightarrow>
   NormalizeTransport (c\<lparr> I2PDestinationPublic := p, I2PDestinationPrivate := q \<rparr>)
     = (NormalizeTransport c)\<lparr> I2PDestinationPublic := p, I2PDestinationPrivate := q \<rparr>"
  by (simp add: NormalizeTransport_def trim_fields_def Let_def)

lemma ValidateTransport_destination:
  assumes "ValidateTransport c = Inr ()" and "TrimSpace p = p" "TrimSpace q = q" "p \<noteq> []" "q \<noteq> []"
  shows "ValidateTransport (c\<lparr> I2PDestinationPublic := p, I2PDestinationPrivate := q \<rparr>) = Inr ()"
  using assms by (simp add: ValidateTransport_def NormalizeTransport_destination Let_def case_sum_Inr_iff split: if_splits)

lemma normalized_tunnels:
  "Type (NormalizeTransport c) = TransportI2PDatagram \<Longrightarrow>
     I2PTunnelLength (NormalizeTransport c) \<noteq> 0 \<and> I2PTunnelQuantity (NormalizeTransport c) \<noteq> 0"
  by (simp add: NormalizeTransport_def Let_def or_default_def transport_defaults split: if_splits)

lemma validated_tunnels:
  "ValidateTransport c = Inr () \<Longrightarrow> Type (NormalizeTransport c) = TransportI2PDatagram \<Longrightarrow>
     I2PTunnelLength (NormalizeTransport c) \<le> 7 \<and> I2PTunnelQuantity (NormalizeTransport c) \<le> 16"
  by (simp add: ValidateTransport_def Let_def case_sum_Inr_iff not_less split: if_splits)

lemma EnsureI2PDestination_shape:
  assumes "EnsureI2PDestination generate c = Inr (c', changed)" and "Type c' = TransportI2PDatagram"
  shows "Type (NormalizeTransport c) = TransportI2PDatagram \<and> ValidateTransport (NormalizeTransport c) = Inr () \<and>
    c' = (NormalizeTransport c)\<lparr> I2PDestinationPublic := I2PDestinationPublic c',
      I2PDestinationPrivate := I2PDestinationPrivate c' \<rparr> \<and>
    TrimSpace (I2PDestinationPublic c') = I2PDestinationPublic c' \<and>
    TrimSpace (I2PDestinationPrivate c') = I2PDestinationPrivate c' \<and>
    I2PDestinationPublic c' \<noteq> [] \<and> I2PDestinationPrivate c' \<noteq> []"
proof -
  have "TrimSpace (I2PDestinationPublic (NormalizeTransport c)) = I2PDestinationPublic (NormalizeTransport c)"
    "TrimSpace (I2PDestinationPrivate (NormalizeTransport c)) = I2PDestinationPrivate (NormalizeTransport c)"
    by (simp_all add: NormalizeTransport_def trim_fields_def Let_def)
  then show ?thesis using assms
    by (auto simp: EnsureI2PDestination_def Let_def split: if_splits sum.splits option.splits)
qed

text \<open>
  The I2P identity of a client is complete, valid and permanent. If ensuring the destination
  succeeds for an I2P transport, whatever the SAM bridge answered, the resulting transport has both
  halves of the destination, passes validation with tunnels of length 1 to 7 and quantity 1 to 16, and
  is left alone by every later run, whatever the bridge would answer then.
\<close>

theorem i2p_identity_permanent:
  assumes "EnsureI2PDestination generate c = Inr (c', changed)" and "Type c' = TransportI2PDatagram"
  shows "I2PDestinationPublic c' \<noteq> [] \<and> I2PDestinationPrivate c' \<noteq> [] \<and> ValidateTransport c' = Inr () \<and>
    1 \<le> I2PTunnelLength c' \<and> I2PTunnelLength c' \<le> 7 \<and> 1 \<le> I2PTunnelQuantity c' \<and> I2PTunnelQuantity c' \<le> 16 \<and>
    EnsureI2PDestination generate' c' = Inr (c', False)"
proof -
  let ?n = "NormalizeTransport c"
  let ?p = "I2PDestinationPublic c'" and ?q = "I2PDestinationPrivate c'"
  note sh = EnsureI2PDestination_shape [OF assms]
  from sh have ty: "Type ?n = TransportI2PDatagram" and val: "ValidateTransport ?n = Inr ()"
    and c': "c' = ?n\<lparr> I2PDestinationPublic := ?p, I2PDestinationPrivate := ?q \<rparr>"
    and pq: "TrimSpace ?p = ?p" "TrimSpace ?q = ?q" "?p \<noteq> []" "?q \<noteq> []" by blast+
  have idem: "NormalizeTransport ?n = ?n" by (rule NormalizeTransport_idem) (simp add: ty)
  have n': "NormalizeTransport c' = c'"
    using NormalizeTransport_destination [OF pq(1,2), of ?n] idem c' by simp
  have val': "ValidateTransport c' = Inr ()"
    using ValidateTransport_destination [OF val pq] c' by simp
  have "I2PTunnelLength c' \<noteq> 0" "I2PTunnelQuantity c' \<noteq> 0"
    using normalized_tunnels [of c'] assms(2) by (simp_all add: n')
  moreover have "x \<noteq> 0 \<Longrightarrow> 1 \<le> x" for x :: byte by (simp add: word_le_nat_alt unat_gt_0 Suc_leI)
  moreover have "EnsureI2PDestination generate' c' = Inr (c', False)"
    by (simp add: EnsureI2PDestination_def n' Let_def val' assms(2) pq)
  ultimately show ?thesis
    using validated_tunnels [OF val'] assms(2) pq(3,4) by (simp add: n' val')
qed

theorem i2p_identity_permanent_witness:
  "EnsureI2PDestination (\<lambda>_. Some ('' pub'', ''priv '')) (TransportConfig0\<lparr> Type := '' I2P-Datagram'' \<rparr>) =
     Inr (projr (EnsureI2PDestination (\<lambda>_. Some ('' pub'', ''priv '')) (TransportConfig0\<lparr> Type := '' I2P-Datagram'' \<rparr>))) \<and>
   EnsureI2PDestination (\<lambda>_. None)
     (fst (projr (EnsureI2PDestination (\<lambda>_. Some ('' pub'', ''priv '')) (TransportConfig0\<lparr> Type := '' I2P-Datagram'' \<rparr>))))
   = Inr (fst (projr (EnsureI2PDestination (\<lambda>_. Some ('' pub'', ''priv '')) (TransportConfig0\<lparr> Type := '' I2P-Datagram'' \<rparr>))), False)"
proof -
  define r where "r = EnsureI2PDestination (\<lambda>_. Some ('' pub'', ''priv '')) (TransportConfig0\<lparr> Type := '' I2P-Datagram'' \<rparr>)"
  have "r = Inr (fst (projr r), True)" "Type (fst (projr r)) = TransportI2PDatagram"
    unfolding r_def by code_simp+
  with i2p_identity_permanent [of "\<lambda>_. Some ('' pub'', ''priv '')" _ "fst (projr r)" True]
  show ?thesis unfolding r_def by (metis sum.sel(2))
qed

end
