(* ===== verification/ClientConfig.thy ===== *)
theory ClientConfig
  imports AnonymousPolicy
begin

text \<open>
  The client's configuration, \<open>client/internal/profilemanager/config.go\<close>: applying an input to a
  configuration, enforcing anonymous mode, and the operations that read, create and update the
  configuration file.

  \<^item> \<open>Config\<close> and \<open>ConfigInput\<close> have the fields of the Go structs; a nil pointer or slice of the input is
    \<open>None\<close>. Where the code compares pointers of the input with pointers of the configuration, they
    differ: the configuration was just decoded or created, so it shares no pointer with the input.
  \<^item> \<open>config_env\<close> holds what the code asks its surroundings for: the operating system, a new WireGuard
    key, a new SSH key (or failure), and the loading of a client certificate.
  \<^item> The file system maps paths to stored configurations. Storing drops the fields that have no JSON
    form: the path, the loaded certificate, and the credentials inside a URL. Reading and writing may
    fail; \<open>config_io\<close> says when. Permission fixing only logs.
\<close>

section \<open>Data\<close>

record ConfigInput =
  in_ManagementURL :: string
  in_AdminURL :: string
  in_ConfigPath :: string
  in_PreSharedKey :: "string option"
  in_ServerSSHAllowed :: "bool option"
  in_EnableSSHRoot :: "bool option"
  in_EnableSSHSFTP :: "bool option"
  in_EnableSSHLocalPortForwarding :: "bool option"
  in_EnableSSHRemotePortForwarding :: "bool option"
  in_DisableSSHAuth :: "bool option"
  in_SSHJWTCacheTTL :: "int option"
  in_NATExternalIPs :: "string list option"
  in_CustomDNSAddress :: "string option"
  in_RosenpassEnabled :: "bool option"
  in_RosenpassPermissive :: "bool option"
  in_InterfaceName :: "string option"
  in_WireguardPort :: "int option"
  in_NetworkMonitor :: "bool option"
  in_DisableAutoConnect :: "bool option"
  in_ExtraIFaceBlackList :: "string list"
  in_DNSRouteInterval :: "int option"
  in_ClientCertPath :: string
  in_ClientCertKeyPath :: string
  in_DisableClientRoutes :: "bool option"
  in_DisableServerRoutes :: "bool option"
  in_DisableDNS :: "bool option"
  in_DisableFirewall :: "bool option"
  in_BlockLANAccess :: "bool option"
  in_BlockInbound :: "bool option"
  in_DisableIPv6 :: "bool option"
  in_DisableNotifications :: "bool option"
  in_DNSLabels :: "string list option"
  in_LazyConnectionEnabled :: "bool option"
  in_MTU :: "u16 option"
  in_AnonymousMode :: "bool option"
  in_AnonymousTransport :: "TransportConfig option"

definition ConfigInput0 :: ConfigInput where
  "ConfigInput0 = \<lparr> in_ManagementURL = [], in_AdminURL = [], in_ConfigPath = [], in_PreSharedKey = None,
     in_ServerSSHAllowed = None, in_EnableSSHRoot = None, in_EnableSSHSFTP = None,
     in_EnableSSHLocalPortForwarding = None, in_EnableSSHRemotePortForwarding = None,
     in_DisableSSHAuth = None, in_SSHJWTCacheTTL = None, in_NATExternalIPs = None,
     in_CustomDNSAddress = None, in_RosenpassEnabled = None, in_RosenpassPermissive = None,
     in_InterfaceName = None, in_WireguardPort = None, in_NetworkMonitor = None,
     in_DisableAutoConnect = None, in_ExtraIFaceBlackList = [], in_DNSRouteInterval = None,
     in_ClientCertPath = [], in_ClientCertKeyPath = [], in_DisableClientRoutes = None,
     in_DisableServerRoutes = None, in_DisableDNS = None, in_DisableFirewall = None,
     in_BlockLANAccess = None, in_BlockInbound = None, in_DisableIPv6 = None,
     in_DisableNotifications = None, in_DNSLabels = None, in_LazyConnectionEnabled = None,
     in_MTU = None, in_AnonymousMode = None, in_AnonymousTransport = None \<rparr>"

record Config =
  ConfigPath :: string
  PrivateKey :: string
  PreSharedKey :: string
  ManagementURL :: "url option"
  AdminURL :: "url option"
  WgIface :: string
  WgPort :: int
  NetworkMonitor :: "bool option"
  IFaceBlackList :: "string list"
  DisableIPv6Discovery :: bool
  RosenpassEnabled :: bool
  RosenpassPermissive :: bool
  ServerSSHAllowed :: "bool option"
  EnableSSHRoot :: "bool option"
  EnableSSHSFTP :: "bool option"
  EnableSSHLocalPortForwarding :: "bool option"
  EnableSSHRemotePortForwarding :: "bool option"
  DisableSSHAuth :: "bool option"
  SSHJWTCacheTTL :: "int option"
  DisableClientRoutes :: bool
  DisableServerRoutes :: bool
  DisableDNS :: bool
  DisableFirewall :: bool
  BlockLANAccess :: bool
  BlockInbound :: bool
  DisableIPv6 :: bool
  DisableNotifications :: "bool option"
  DNSLabels :: "string list"
  SSHKey :: string
  NATExternalIPs :: "string list option"
  CustomDNSAddress :: string
  DisableAutoConnect :: bool
  DNSRouteInterval :: int
  ClientCertPath :: string
  ClientCertKeyPath :: string
  ClientCertKeyPair :: "nat option"
  LazyConnectionEnabled :: bool
  MTU :: u16
  AnonymousMode :: bool
  AnonymousTransport :: TransportConfig

definition Config0 :: Config where
  "Config0 = \<lparr> ConfigPath = [], PrivateKey = [], PreSharedKey = [], ManagementURL = None, AdminURL = None,
     WgIface = [], WgPort = 0, NetworkMonitor = None, IFaceBlackList = [], DisableIPv6Discovery = False,
     RosenpassEnabled = False, RosenpassPermissive = False, ServerSSHAllowed = None, EnableSSHRoot = None,
     EnableSSHSFTP = None, EnableSSHLocalPortForwarding = None, EnableSSHRemotePortForwarding = None,
     DisableSSHAuth = None, SSHJWTCacheTTL = None, DisableClientRoutes = False, DisableServerRoutes = False,
     DisableDNS = False, DisableFirewall = False, BlockLANAccess = False, BlockInbound = False,
     DisableIPv6 = False, DisableNotifications = None, DNSLabels = [], SSHKey = [], NATExternalIPs = None,
     CustomDNSAddress = [], DisableAutoConnect = False, DNSRouteInterval = 0, ClientCertPath = [],
     ClientCertKeyPath = [], ClientCertKeyPair = None, LazyConnectionEnabled = False, MTU = 0,
     AnonymousMode = False, AnonymousTransport = TransportConfig0 \<rparr>"

record config_env =
  goos :: string
  newPrivateKey :: string
  newSSHKey :: "string option"
  loadCert :: "string \<Rightarrow> string \<Rightarrow> nat option"

datatype config_err = BadURL string | BadScheme string | SSHKeyErr | Anon violation
  | NotExist string | StatErr string | ReadErr string | WriteErr string | DecodeErr

definition DefaultManagementURL :: string where "DefaultManagementURL = ''http://localhost:33073''"
definition DefaultAdminURL :: string where "DefaultAdminURL = ''http://localhost:33071''"
definition DefaultWgPort :: int where "DefaultWgPort = 51820"
definition DefaultMTU :: u16 where "DefaultMTU = 1280"
definition DefaultDNSRouteInterval :: int where "DefaultDNSRouteInterval = 60000000000"

definition WgInterfaceDefault :: "string \<Rightarrow> string" where
  "WgInterfaceDefault os = (if os = ''darwin'' then ''utun100'' else ''wt0'')"

definition DefaultInterfaceBlacklist :: "string \<Rightarrow> string list" where
  "DefaultInterfaceBlacklist os = [WgInterfaceDefault os, ''wt'', ''utun'', ''tun0'', ''zt'', ''ZeroTier'', ''wg'', ''ts'',
     ''Tailscale'', ''tailscale'', ''docker'', ''veth'', ''br-'', ''lo'']"

section \<open>URLs\<close>

definition parseURL :: "string \<Rightarrow> string \<Rightarrow> config_err + url" where
  "parseURL serviceName serviceURL =
     (case ParseRequestURI serviceURL of
        None \<Rightarrow> Inl (BadURL serviceName)
      | Some u \<Rightarrow>
          if Scheme u \<noteq> ''https'' \<and> Scheme u \<noteq> ''http'' then Inl (BadScheme serviceName)
          else if Port u = []
          then Inr (u\<lparr> Host := Host u @ (if Scheme u = ''https'' then '':443'' else '':80'') \<rparr>)
          else Inr u)"

definition isLegacyAdminURL :: "url option \<Rightarrow> bool" where
  "isLegacyAdminURL u =
     (case u of None \<Rightarrow> False | Some u \<Rightarrow> EqualFold (Hostname u) (Join ''.'' [''app'', ''netbird'', ''io'']))"

section \<open>Applying an input\<close>

text \<open>
  The state of \<open>apply\<close> is the configuration with the \<open>updated\<close> flag. \<open>set_val\<close> is the pattern "if the input
  has a value that differs, store it"; \<open>set_ptr\<close> is the same for fields that are pointers.
\<close>

type_synonym cfg_state = "Config \<times> bool"

definition set_when :: "bool \<Rightarrow> (Config \<Rightarrow> Config) \<Rightarrow> cfg_state \<Rightarrow> cfg_state" where
  "set_when b f s = (if b then (f (fst s), True) else s)"

definition set_val :: "'a option \<Rightarrow> (Config \<Rightarrow> 'a) \<Rightarrow> (('a \<Rightarrow> 'a) \<Rightarrow> Config \<Rightarrow> Config) \<Rightarrow> cfg_state \<Rightarrow> cfg_state" where
  "set_val v sel upd s =
     (case v of None \<Rightarrow> s | Some x \<Rightarrow> set_when (x \<noteq> sel (fst s)) (upd (\<lambda>_. x)) s)"

definition set_ptr :: "'a option \<Rightarrow> (('a option \<Rightarrow> 'a option) \<Rightarrow> Config \<Rightarrow> Config) \<Rightarrow> cfg_state \<Rightarrow> cfg_state" where
  "set_ptr v upd s = set_when (v \<noteq> None) (upd (\<lambda>_. v)) s"

type_synonym cfg_result = "(Config \<times> bool \<times> config_err) + cfg_state"

definition apply_management_url :: "ConfigInput \<Rightarrow> cfg_state \<Rightarrow> cfg_result" where
  "apply_management_url i s =
     (let c = (if in_ConfigPath i \<noteq> [] then (fst s)\<lparr> ConfigPath := in_ConfigPath i \<rparr> else fst s);
          check = (\<lambda>c u.
            if in_ManagementURL i \<noteq> [] \<and> in_ManagementURL i \<noteq> url_String u
            then (case parseURL ''Management URL'' (in_ManagementURL i) of
                    Inl e \<Rightarrow> Inl (c, False, e)
                  | Inr new \<Rightarrow> Inr (c\<lparr> ManagementURL := Some new \<rparr>, True))
            else Inr (c, snd s))
      in case ManagementURL c of
           None \<Rightarrow>
             (case parseURL ''Management URL'' DefaultManagementURL of
                Inl e \<Rightarrow> Inl (c, False, e)
              | Inr u \<Rightarrow> check (c\<lparr> ManagementURL := Some u \<rparr>) u)
         | Some u \<Rightarrow> check c u)"

definition apply_admin_url :: "ConfigInput \<Rightarrow> cfg_state \<Rightarrow> cfg_result" where
  "apply_admin_url i s =
     (let (c, upd) = s;
          check = (\<lambda>c upd u.
            if in_AdminURL i \<noteq> [] \<and> in_AdminURL i \<noteq> url_String u
            then (case parseURL ''Admin Panel URL'' (in_AdminURL i) of
                    Inl e \<Rightarrow> Inl (c, upd, e)
                  | Inr new \<Rightarrow> Inr (c\<lparr> AdminURL := Some new \<rparr>, True))
            else Inr (c, upd))
      in case AdminURL c of
           None \<Rightarrow>
             (case parseURL ''Admin URL'' DefaultAdminURL of
                Inl e \<Rightarrow> Inl (c, False, e)
              | Inr u \<Rightarrow> check (c\<lparr> AdminURL := Some u \<rparr>) upd u)
         | Some old \<Rightarrow>
             if in_AdminURL i = [] \<and> isLegacyAdminURL (Some old)
             then (case parseURL ''Admin URL'' DefaultAdminURL of
                     Inl e \<Rightarrow> Inl (c\<lparr> AdminURL := None \<rparr>, upd, e)
                   | Inr u \<Rightarrow> check (c\<lparr> AdminURL := Some u \<rparr>) True u)
             else check c upd old)"

definition apply_anonymous_input :: "config_env \<Rightarrow> ConfigInput \<Rightarrow> cfg_state \<Rightarrow> cfg_state" where
  "apply_anonymous_input E i s =
     (let s = set_when (PrivateKey (fst s) = []) (\<lambda>c. c\<lparr> PrivateKey := newPrivateKey E \<rparr>) s;
          s = set_val (in_AnonymousMode i) AnonymousMode AnonymousMode_update s
      in set_val (map_option NormalizeTransport (in_AnonymousTransport i)) AnonymousTransport
           AnonymousTransport_update s)"

definition apply_ssh_key :: "config_env \<Rightarrow> cfg_state \<Rightarrow> cfg_result" where
  "apply_ssh_key E s =
     (if SSHKey (fst s) = []
      then (case newSSHKey E of
              None \<Rightarrow> Inl (fst s, False, SSHKeyErr)
            | Some pem \<Rightarrow> Inr ((fst s)\<lparr> SSHKey := pem \<rparr>, True))
      else Inr s)"

definition apply_interface :: "config_env \<Rightarrow> ConfigInput \<Rightarrow> cfg_state \<Rightarrow> cfg_state" where
  "apply_interface E i s =
     (let s = set_val (in_WireguardPort i) WgPort WgPort_update s
      in if in_InterfaceName i \<noteq> None \<and> the (in_InterfaceName i) \<noteq> WgIface (fst s)
         then set_val (in_InterfaceName i) WgIface WgIface_update s
         else set_when (WgIface (fst s) = []) (\<lambda>c. c\<lparr> WgIface := WgInterfaceDefault (goos E) \<rparr>) s)"

definition apply_network :: "config_env \<Rightarrow> ConfigInput \<Rightarrow> cfg_state \<Rightarrow> cfg_state" where
  "apply_network E i s =
     (let s = set_when (in_NATExternalIPs i \<noteq> None \<and> NATExternalIPs (fst s) \<noteq> in_NATExternalIPs i)
                (\<lambda>c. c\<lparr> NATExternalIPs := in_NATExternalIPs i \<rparr>) s;
          s = set_val (in_PreSharedKey i) PreSharedKey PreSharedKey_update s;
          s = set_val (in_RosenpassEnabled i) RosenpassEnabled RosenpassEnabled_update s;
          s = set_val (in_RosenpassPermissive i) RosenpassPermissive RosenpassPermissive_update s;
          s = set_ptr (in_NetworkMonitor i) NetworkMonitor_update s;
          s = set_when (NetworkMonitor (fst s) = None \<and> goos E \<in> {''windows'', ''darwin''})
                (\<lambda>c. c\<lparr> NetworkMonitor := Some True \<rparr>) s
      in set_val (in_CustomDNSAddress i) CustomDNSAddress CustomDNSAddress_update s)"

definition SliceDiff :: "string list \<Rightarrow> string list \<Rightarrow> string list" where
  "SliceDiff x y = filter (\<lambda>v. v \<notin> set y) x"

definition apply_blacklist :: "config_env \<Rightarrow> ConfigInput \<Rightarrow> cfg_state \<Rightarrow> cfg_state" where
  "apply_blacklist E i s =
     (let s = set_when (length (IFaceBlackList (fst s)) = 0)
                (\<lambda>c. c\<lparr> IFaceBlackList := IFaceBlackList c @ DefaultInterfaceBlacklist (goos E) \<rparr>) s;
          diff = SliceDiff (in_ExtraIFaceBlackList i) (IFaceBlackList (fst s));
          s = set_when (0 < length (in_ExtraIFaceBlackList i) \<and> diff \<noteq> [])
                (\<lambda>c. c\<lparr> IFaceBlackList := IFaceBlackList c @ diff \<rparr>) s
      in set_val (in_DisableAutoConnect i) DisableAutoConnect DisableAutoConnect_update s)"

text \<open>The comparison dereferences the configuration's pointer whenever the input has a value.\<close>

definition apply_ssh_server :: "config_env \<Rightarrow> ConfigInput \<Rightarrow> cfg_state \<Rightarrow> cfg_state option" where
  "apply_ssh_server E i s =
     (let default = set_when (ServerSSHAllowed (fst s) = None)
                      (\<lambda>c. c\<lparr> ServerSSHAllowed := Some (goos E \<noteq> ''android'') \<rparr>) s
      in case in_ServerSSHAllowed i of
           None \<Rightarrow> Some default
         | Some allowed \<Rightarrow>
             (case ServerSSHAllowed (fst s) of
                None \<Rightarrow> None
              | Some cur \<Rightarrow>
                  if allowed \<noteq> cur then Some ((fst s)\<lparr> ServerSSHAllowed := Some allowed \<rparr>, True)
                  else Some default))"

definition apply_ssh_options :: "ConfigInput \<Rightarrow> cfg_state \<Rightarrow> cfg_state" where
  "apply_ssh_options i s =
     (let s = set_ptr (in_EnableSSHRoot i) EnableSSHRoot_update s;
          s = set_ptr (in_EnableSSHSFTP i) EnableSSHSFTP_update s;
          s = set_ptr (in_EnableSSHLocalPortForwarding i) EnableSSHLocalPortForwarding_update s;
          s = set_ptr (in_EnableSSHRemotePortForwarding i) EnableSSHRemotePortForwarding_update s;
          s = set_ptr (in_DisableSSHAuth i) DisableSSHAuth_update s
      in set_ptr (in_SSHJWTCacheTTL i) SSHJWTCacheTTL_update s)"

definition apply_dns_route_interval :: "ConfigInput \<Rightarrow> cfg_state \<Rightarrow> cfg_state" where
  "apply_dns_route_interval i s =
     (if in_DNSRouteInterval i \<noteq> None \<and> the (in_DNSRouteInterval i) \<noteq> DNSRouteInterval (fst s)
      then set_val (in_DNSRouteInterval i) DNSRouteInterval DNSRouteInterval_update s
      else set_when (DNSRouteInterval (fst s) = 0) (\<lambda>c. c\<lparr> DNSRouteInterval := DefaultDNSRouteInterval \<rparr>) s)"

definition apply_switches :: "ConfigInput \<Rightarrow> cfg_state \<Rightarrow> cfg_state" where
  "apply_switches i s =
     (let s = set_val (in_DisableClientRoutes i) DisableClientRoutes DisableClientRoutes_update s;
          s = set_val (in_DisableServerRoutes i) DisableServerRoutes DisableServerRoutes_update s;
          s = set_val (in_DisableDNS i) DisableDNS DisableDNS_update s;
          s = set_val (in_DisableFirewall i) DisableFirewall DisableFirewall_update s;
          s = set_val (in_BlockLANAccess i) BlockLANAccess BlockLANAccess_update s;
          s = set_val (in_BlockInbound i) BlockInbound BlockInbound_update s;
          s = set_val (in_DisableIPv6 i) DisableIPv6 DisableIPv6_update s;
          s = set_ptr (in_DisableNotifications i) DisableNotifications_update s
      in set_when (DisableNotifications (fst s) = None) (\<lambda>c. c\<lparr> DisableNotifications := Some True \<rparr>) s)"

definition apply_certificate :: "config_env \<Rightarrow> ConfigInput \<Rightarrow> cfg_state \<Rightarrow> cfg_state" where
  "apply_certificate E i s =
     (let s = set_when (in_ClientCertKeyPath i \<noteq> []) (\<lambda>c. c\<lparr> ClientCertKeyPath := in_ClientCertKeyPath i \<rparr>) s;
          s = set_when (in_ClientCertPath i \<noteq> []) (\<lambda>c. c\<lparr> ClientCertPath := in_ClientCertPath i \<rparr>) s;
          c = fst s
      in if ClientCertPath c \<noteq> [] \<and> ClientCertKeyPath c \<noteq> []
         then (case loadCert E (ClientCertPath c) (ClientCertKeyPath c) of
                 None \<Rightarrow> s
               | Some cert \<Rightarrow> (c\<lparr> ClientCertKeyPair := Some cert \<rparr>, snd s))
         else s)"

definition apply_rest :: "ConfigInput \<Rightarrow> cfg_state \<Rightarrow> cfg_state" where
  "apply_rest i s =
     (let s = set_val (in_DNSLabels i) DNSLabels DNSLabels_update s;
          s = set_val (in_LazyConnectionEnabled i) LazyConnectionEnabled LazyConnectionEnabled_update s
      in if in_MTU i \<noteq> None \<and> the (in_MTU i) \<noteq> MTU (fst s) then set_val (in_MTU i) MTU MTU_update s
         else set_when (MTU (fst s) = 0) (\<lambda>c. c\<lparr> MTU := DefaultMTU \<rparr>) s)"

definition enforce_switches :: "cfg_state \<Rightarrow> cfg_state" where
  "enforce_switches s =
     (let s = set_when (\<not> DisableClientRoutes (fst s)) (\<lambda>c. c\<lparr> DisableClientRoutes := True \<rparr>) s;
          s = set_when (\<not> DisableServerRoutes (fst s)) (\<lambda>c. c\<lparr> DisableServerRoutes := True \<rparr>) s;
          s = set_when (\<not> BlockLANAccess (fst s)) (\<lambda>c. c\<lparr> BlockLANAccess := True \<rparr>) s
      in set_when (LazyConnectionEnabled (fst s)) (\<lambda>c. c\<lparr> LazyConnectionEnabled := False \<rparr>) s)"

text \<open>On an error \<open>enforceAnonymousMode\<close> has already changed the transport.\<close>

definition enforceAnonymousMode :: "Config \<Rightarrow> cfg_result" where
  "enforceAnonymousMode c =
     (let s = (if Type (AnonymousTransport c) = [] then (c\<lparr> AnonymousTransport := DefaultTransport \<rparr>, True)
               else set_val (Some (NormalizeTransport (AnonymousTransport c))) AnonymousTransport
                      AnonymousTransport_update (c, False));
          t = AnonymousTransport (fst s)
      in case ValidateTransport t of
           Inl e \<Rightarrow> Inl (fst s, snd s, Anon e)
         | Inr _ \<Rightarrow>
             (case ValidateServiceURLForTransport ''management'' (ManagementURL c) t of
                Inl e \<Rightarrow> Inl (fst s, snd s, Anon e)
              | Inr _ \<Rightarrow>
                  if NATExternalIPs c \<noteq> None \<and> 0 < length (the (NATExternalIPs c))
                  then Inl (fst s, snd s, Anon NATMappings)
                  else Inr (enforce_switches s)))"

definition apply_enforce :: "cfg_state \<Rightarrow> cfg_result" where
  "apply_enforce s =
     (if AnonymousMode (fst s)
      then (case enforceAnonymousMode (fst s) of
              Inl (c, _, e) \<Rightarrow> Inl (c, snd s, e)
            | Inr (c, changed) \<Rightarrow> Inr (c, snd s \<or> changed))
      else Inr s)"

definition config_apply :: "config_env \<Rightarrow> ConfigInput \<Rightarrow> Config \<Rightarrow> cfg_result option" where
  "config_apply E i c =
     (case apply_management_url i (c, False) of Inl e \<Rightarrow> Some (Inl e) | Inr s \<Rightarrow>
     (case apply_admin_url i s of Inl e \<Rightarrow> Some (Inl e) | Inr s \<Rightarrow>
     (case apply_ssh_key E (apply_anonymous_input E i s) of Inl e \<Rightarrow> Some (Inl e) | Inr s \<Rightarrow>
     (case apply_ssh_server E i (apply_blacklist E i (apply_network E i (apply_interface E i s))) of
        None \<Rightarrow> None
      | Some s \<Rightarrow>
          Some (apply_enforce (apply_rest i (apply_certificate E i (apply_switches i
            (apply_dns_route_interval i (apply_ssh_options i s))))))))))"

section \<open>The configuration file\<close>

type_synonym config_fs = "(string, Config) gmap"

record config_io =
  statErr :: "string \<Rightarrow> bool"
  readErr :: "string \<Rightarrow> bool"
  writeErr :: "string \<Rightarrow> bool"

definition stored_url :: "url \<Rightarrow> url" where
  "stored_url u = u\<lparr> User := map_option (\<lambda>_. []) (User u) \<rparr>"

definition stored :: "Config \<Rightarrow> Config" where
  "stored c = c\<lparr> ConfigPath := [], ClientCertKeyPair := None,
     ManagementURL := map_option stored_url (ManagementURL c), AdminURL := map_option stored_url (AdminURL c) \<rparr>"

definition WriteOutConfig :: "config_io \<Rightarrow> string \<Rightarrow> Config \<Rightarrow> config_fs \<Rightarrow> config_fs option" where
  "WriteOutConfig io path c fs = (if writeErr io path then None else Some (gput path (stored c) fs))"

type_synonym cfg_outcome = "(config_err + Config) \<times> config_fs"

definition createNewConfig :: "config_env \<Rightarrow> ConfigInput \<Rightarrow> (config_err + Config) option" where
  "createNewConfig E i =
     (case config_apply E i (Config0\<lparr> ServerSSHAllowed := Some False, WgPort := DefaultWgPort \<rparr>) of
        None \<Rightarrow> None
      | Some (Inl (_, _, e)) \<Rightarrow> Some (Inl e)
      | Some (Inr (c, _)) \<Rightarrow> Some (Inr c))"

definition config_update :: "config_env \<Rightarrow> config_io \<Rightarrow> ConfigInput \<Rightarrow> config_fs \<Rightarrow> cfg_outcome option" where
  "config_update E io i fs =
     (case (if readErr io (in_ConfigPath i) then None else gget fs (in_ConfigPath i)) of
        None \<Rightarrow> Some (Inl (ReadErr (in_ConfigPath i)), fs)
      | Some c0 \<Rightarrow>
          (case config_apply E i c0 of
             None \<Rightarrow> None
           | Some (Inl (_, _, e)) \<Rightarrow> Some (Inl e, fs)
           | Some (Inr (c, updated)) \<Rightarrow>
               if updated
               then (case WriteOutConfig io (in_ConfigPath i) c fs of
                       None \<Rightarrow> Some (Inl (WriteErr (in_ConfigPath i)), fs)
                     | Some fs' \<Rightarrow> Some (Inr c, fs'))
               else Some (Inr c, fs)))"

definition UpdateConfig :: "config_env \<Rightarrow> config_io \<Rightarrow> ConfigInput \<Rightarrow> config_fs \<Rightarrow> cfg_outcome option" where
  "UpdateConfig E io i fs =
     (if statErr io (in_ConfigPath i) then Some (Inl (StatErr (in_ConfigPath i)), fs)
      else if gget fs (in_ConfigPath i) = None then Some (Inl (NotExist (in_ConfigPath i)), fs)
      else config_update E io i fs)"

definition isPreSharedKeyHidden :: "string option \<Rightarrow> bool" where
  "isPreSharedKeyHidden k = (k = Some ''**********'')"

definition write_new :: "config_io \<Rightarrow> string \<Rightarrow> (config_err + Config) option \<Rightarrow> config_fs \<Rightarrow> cfg_outcome option" where
  "write_new io path r fs =
     (case r of
        None \<Rightarrow> None
      | Some (Inl e) \<Rightarrow> Some (Inl e, fs)
      | Some (Inr c) \<Rightarrow>
          (case WriteOutConfig io path c fs of
             None \<Rightarrow> Some (Inl (WriteErr path), fs)
           | Some fs' \<Rightarrow> Some (Inr c, fs')))"

definition UpdateOrCreateConfig :: "config_env \<Rightarrow> config_io \<Rightarrow> ConfigInput \<Rightarrow> config_fs \<Rightarrow> cfg_outcome option" where
  "UpdateOrCreateConfig E io i fs =
     (if statErr io (in_ConfigPath i) then Some (Inl (StatErr (in_ConfigPath i)), fs)
      else if gget fs (in_ConfigPath i) = None then write_new io (in_ConfigPath i) (createNewConfig E i) fs
      else config_update E io (if isPreSharedKeyHidden (in_PreSharedKey i) then i\<lparr> in_PreSharedKey := None \<rparr> else i) fs)"

definition readConfig :: "config_env \<Rightarrow> config_io \<Rightarrow> string \<Rightarrow> bool \<Rightarrow> config_fs \<Rightarrow> cfg_outcome option" where
  "readConfig E io path createIfMissing fs =
     (if statErr io path then Some (Inl (StatErr path), fs)
      else if gget fs path \<noteq> None then config_update E io (ConfigInput0\<lparr> in_ConfigPath := path \<rparr>) fs
      else if \<not> createIfMissing then Some (Inl (NotExist path), fs)
      else write_new io path (createNewConfig E (ConfigInput0\<lparr> in_ConfigPath := path \<rparr>)) fs)"

definition GetConfig :: "config_env \<Rightarrow> config_io \<Rightarrow> string \<Rightarrow> config_fs \<Rightarrow> cfg_outcome option" where
  "GetConfig E io path fs = readConfig E io path False fs"

definition ReadConfig :: "config_env \<Rightarrow> config_io \<Rightarrow> string \<Rightarrow> config_fs \<Rightarrow> cfg_outcome option" where
  "ReadConfig E io path fs = readConfig E io path True fs"

definition EnsureAnonymousTransportIdentity ::
    "(string \<Rightarrow> (string \<times> string) option) \<Rightarrow> config_io \<Rightarrow> string \<Rightarrow> Config \<Rightarrow> config_fs \<Rightarrow>
     ((config_err + bool) \<times> Config \<times> config_fs)" where
  "EnsureAnonymousTransportIdentity generate io path c fs =
     (if \<not> AnonymousMode c then (Inr False, c, fs)
      else let path = (if path = [] then ConfigPath c else path)
           in case EnsureI2PDestination generate (AnonymousTransport c) of
                Inl (_, e) \<Rightarrow> (Inl (Anon e), c, fs)
              | Inr (t, changed) \<Rightarrow>
                  (let c' = c\<lparr> AnonymousTransport := t \<rparr>
                   in if \<not> changed then (Inr False, c', fs)
                      else if path = [] then (Inr True, c', fs)
                      else case WriteOutConfig io path c' fs of
                             None \<Rightarrow> (Inl (WriteErr path), c', fs)
                           | Some fs' \<Rightarrow> (Inr True, c', fs')))"

text \<open>
  The variants without a temporary file. \<open>DirectWriteJson\<close> opens the file, truncates it and writes it in
  place: it may fail before the file is touched (\<open>Untouched\<close>) or after (\<open>Torn\<close>), which leaves a file that
  does not decode; the surroundings of the next operation then have a read error at that path.
\<close>

datatype direct_write = Written | Untouched | Torn

definition DirectWriteOutConfig ::
    "(string \<Rightarrow> direct_write) \<Rightarrow> string \<Rightarrow> Config \<Rightarrow> config_io \<times> config_fs \<Rightarrow> bool \<times> config_io \<times> config_fs" where
  "DirectWriteOutConfig w path c = (\<lambda>(io, fs).
     case w path of
       Written \<Rightarrow> (True, io, gput path (stored c) fs)
     | Untouched \<Rightarrow> (False, io, fs)
     | Torn \<Rightarrow> (False, io\<lparr> readErr := (readErr io)(path := True) \<rparr>,
                if gget fs path = None then gput path Config0 fs else fs))"

definition direct_written ::
    "(string \<Rightarrow> direct_write) \<Rightarrow> string \<Rightarrow> Config \<Rightarrow> config_io \<times> config_fs \<Rightarrow> (config_err + Config) \<times> config_io \<times> config_fs" where
  "direct_written w path c s =
     (let (ok, s') = DirectWriteOutConfig w path c s in (if ok then Inr c else Inl (WriteErr path), s'))"

definition directUpdate ::
    "config_env \<Rightarrow> (string \<Rightarrow> direct_write) \<Rightarrow> ConfigInput \<Rightarrow> config_io \<times> config_fs \<Rightarrow>
     ((config_err + Config) \<times> config_io \<times> config_fs) option" where
  "directUpdate E w i s =
     (case (if readErr (fst s) (in_ConfigPath i) then None else gget (snd s) (in_ConfigPath i)) of
        None \<Rightarrow> Some (Inl (ReadErr (in_ConfigPath i)), s)
      | Some c0 \<Rightarrow>
          (case config_apply E i c0 of
             None \<Rightarrow> None
           | Some (Inl (_, _, e)) \<Rightarrow> Some (Inl e, s)
           | Some (Inr (c, updated)) \<Rightarrow>
               if updated then Some (direct_written w (in_ConfigPath i) c s) else Some (Inr c, s)))"

definition DirectUpdateOrCreateConfig ::
    "config_env \<Rightarrow> (string \<Rightarrow> direct_write) \<Rightarrow> ConfigInput \<Rightarrow> config_io \<times> config_fs \<Rightarrow>
     ((config_err + Config) \<times> config_io \<times> config_fs) option" where
  "DirectUpdateOrCreateConfig E w i s =
     (if statErr (fst s) (in_ConfigPath i) then Some (Inl (StatErr (in_ConfigPath i)), s)
      else if gget (snd s) (in_ConfigPath i) = None
      then (case createNewConfig E i of
              None \<Rightarrow> None
            | Some (Inl e) \<Rightarrow> Some (Inl e, s)
            | Some (Inr c) \<Rightarrow> Some (direct_written w (in_ConfigPath i) c s))
      else directUpdate E w (if isPreSharedKeyHidden (in_PreSharedKey i) then i\<lparr> in_PreSharedKey := None \<rparr> else i) s)"

definition CreateInMemoryConfig :: "config_env \<Rightarrow> ConfigInput \<Rightarrow> (config_err + Config) option" where
  "CreateInMemoryConfig E i = createNewConfig E i"

text \<open>
  A JSON text stands for the configuration that it decodes to, as the contents of a file do; a text that
  does not decode is \<open>None\<close>.
\<close>

definition ConfigToJSON :: "Config \<Rightarrow> Config option" where
  "ConfigToJSON c = Some (stored c)"

definition ConfigFromJSON :: "config_env \<Rightarrow> Config option \<Rightarrow> (config_err + Config) option" where
  "ConfigFromJSON E json =
     (case json of
        None \<Rightarrow> Some (Inl DecodeErr)
      | Some c0 \<Rightarrow>
          (case config_apply E ConfigInput0 c0 of
             None \<Rightarrow> None
           | Some (Inl (_, _, e)) \<Rightarrow> Some (Inl e)
           | Some (Inr (c, _)) \<Rightarrow> Some (Inr c)))"

section \<open>Anonymous mode\<close>

text \<open>What a configuration must satisfy in anonymous mode.\<close>

definition anonymised :: "Config \<Rightarrow> bool" where
  "anonymised c =
     (ValidateTransport (AnonymousTransport c) = Inr () \<and>
      (\<exists>u suffix. ManagementURL c = Some u \<and> network_suffix (AnonymousTransport c) = Some suffix \<and>
         anonymous_name suffix (host_name (Hostname u))) \<and>
      (NATExternalIPs c = None \<or> NATExternalIPs c = Some []) \<and>
      DisableClientRoutes c \<and> DisableServerRoutes c \<and> BlockLANAccess c \<and> \<not> LazyConnectionEnabled c)"

lemma fst_set_when: "fst (set_when b f s) = (if b then f (fst s) else fst s)"
  by (simp add: set_when_def)

lemma ValidateServiceURLForTransport_iff:
  "ValidateServiceURLForTransport n u t = Inr () \<longleftrightarrow>
     (\<exists>v suffix. u = Some v \<and> network_suffix t = Some suffix \<and> anonymous_name suffix (host_name (Hostname v)))"
  using anonymous_imp_transport
  by (cases u) (auto simp: ValidateServiceURLForTransport_def ValidateServiceURL_def URLIsAnonymous_def
      HostIsAnonymous_def URLTransport_def case_sum_Inr_iff validateEndpointTransport_iff)

lemma enforce_switches_eq:
  "enforce_switches s = ((fst s)\<lparr> DisableClientRoutes := True, DisableServerRoutes := True,
     BlockLANAccess := True, LazyConnectionEnabled := False \<rparr>,
     snd s \<or> \<not> DisableClientRoutes (fst s) \<or> \<not> DisableServerRoutes (fst s) \<or> \<not> BlockLANAccess (fst s) \<or>
     LazyConnectionEnabled (fst s))"
  by (cases s) (simp add: enforce_switches_def set_when_def Let_def)

definition enforced_transport :: "Config \<Rightarrow> cfg_state" where
  "enforced_transport c =
     (if Type (AnonymousTransport c) = [] then (c\<lparr> AnonymousTransport := DefaultTransport \<rparr>, True)
      else set_val (Some (NormalizeTransport (AnonymousTransport c))) AnonymousTransport
             AnonymousTransport_update (c, False))"

lemma enforceAnonymousMode_Inr:
  "enforceAnonymousMode c = Inr r \<longleftrightarrow>
     (let s = enforced_transport c; t = AnonymousTransport (fst s) in
      r = enforce_switches s \<and> ValidateTransport t = Inr () \<and>
      ValidateServiceURLForTransport ''management'' (ManagementURL c) t = Inr () \<and>
      (NATExternalIPs c = None \<or> NATExternalIPs c = Some []))"
  unfolding enforceAnonymousMode_def enforced_transport_def [symmetric] Let_def
  by (cases "NATExternalIPs c") (auto simp: case_sum_Inr_iff)

lemma enforced_transport_keeps:
  "ManagementURL (fst (enforced_transport c)) = ManagementURL c"
  "NATExternalIPs (fst (enforced_transport c)) = NATExternalIPs c"
  by (simp_all add: enforced_transport_def set_val_def fst_set_when)

lemma enforce_anonymised:
  assumes "enforceAnonymousMode c = Inr (c', changed)"
  shows "anonymised c'"
  using assms unfolding enforceAnonymousMode_Inr Let_def
  by (auto simp: ValidateServiceURLForTransport_iff anonymised_def enforce_switches_eq enforced_transport_keeps)

lemma enforce_keeps_mode: "enforceAnonymousMode c = Inr (c', changed) \<Longrightarrow> AnonymousMode c' = AnonymousMode c"
  by (auto simp: enforceAnonymousMode_Inr Let_def enforce_switches_eq enforced_transport_def set_val_def
      fst_set_when)

lemma apply_enforce_anonymised:
  "apply_enforce s = Inr (c, u) \<Longrightarrow> AnonymousMode c \<Longrightarrow> anonymised c"
  by (auto simp: apply_enforce_def dest: enforce_anonymised enforce_keeps_mode split: if_splits sum.splits)

lemma apply_anonymised:
  "config_apply E i c0 = Some (Inr (c, u)) \<Longrightarrow> AnonymousMode c \<Longrightarrow> anonymised c"
  by (auto simp: config_apply_def dest: apply_enforce_anonymised split: sum.splits option.splits)

lemma create_anonymised: "createNewConfig E i = Some (Inr c) \<Longrightarrow> AnonymousMode c \<Longrightarrow> anonymised c"
  by (auto simp: createNewConfig_def dest: apply_anonymised split: option.splits sum.splits)

lemma update_anonymised:
  "config_update E io i fs = Some (Inr c, fs') \<Longrightarrow> AnonymousMode c \<Longrightarrow> anonymised c"
  by (auto simp: config_update_def dest: apply_anonymised split: option.splits sum.splits if_splits)

lemma write_new_Inr: "write_new io path r fs = Some (Inr c, fs') \<Longrightarrow> r = Some (Inr c)"
  by (auto simp: write_new_def split: option.splits sum.splits)

lemma direct_written_Inr: "direct_written w path c s = (Inr c', s') \<Longrightarrow> c' = c"
  by (auto simp: direct_written_def Let_def split: prod.splits if_splits)

lemma direct_anonymised:
  "directUpdate E w i s = Some (Inr c, s') \<Longrightarrow> AnonymousMode c \<Longrightarrow> anonymised c"
  "DirectUpdateOrCreateConfig E w i s = Some (Inr c, s') \<Longrightarrow> AnonymousMode c \<Longrightarrow> anonymised c"
proof -
  show "anonymised c" if "directUpdate E w i s = Some (Inr c, s')" "AnonymousMode c" for i
    using that by (auto simp: directUpdate_def dest!: direct_written_Inr dest: apply_anonymised
        split: option.splits sum.splits if_splits)
  then show "DirectUpdateOrCreateConfig E w i s = Some (Inr c, s') \<Longrightarrow> AnonymousMode c \<Longrightarrow> anonymised c"
    by (auto simp: DirectUpdateOrCreateConfig_def dest!: direct_written_Inr dest: create_anonymised
        split: option.splits sum.splits if_splits)
qed

lemma json_anonymised: "ConfigFromJSON E json = Some (Inr c) \<Longrightarrow> AnonymousMode c \<Longrightarrow> anonymised c"
  by (auto simp: ConfigFromJSON_def dest: apply_anonymised split: option.splits sum.splits)

lemma EnsureI2PDestination_keeps:
  assumes "EnsureI2PDestination generate t = Inr (t', changed)" "ValidateTransport t = Inr ()"
  shows "ValidateTransport t' = Inr () \<and> network_suffix t' = network_suffix t"
proof -
  have ty: "Type (NormalizeTransport t) \<in> {TransportTorRelayOnly, TransportI2PDatagram}"
    using assms(2) by (auto simp: ValidateTransport_def Let_def split: if_splits)
  then have ne: "Type (NormalizeTransport t) \<noteq> []" by auto
  note n = NormalizeTransport_idem [OF ne]
  show ?thesis
  proof (cases "Type (NormalizeTransport t) = TransportI2PDatagram")
    case False
    then have "t' = NormalizeTransport t" using assms(1) by (simp add: EnsureI2PDestination_def Let_def)
    then show ?thesis using ValidateTransport_normalized [OF ne] assms(2) by (simp add: network_suffix_def n)
  next
    case True
    have "Type t' = TransportI2PDatagram"
      using assms(1) True by (auto simp: EnsureI2PDestination_def Let_def split: if_splits sum.splits option.splits)
    note sh = EnsureI2PDestination_shape [OF assms(1) this]
    have "ValidateTransport t' = Inr ()"
      using sh ValidateTransport_destination by metis
    moreover have "NormalizeTransport t' = t'"
      using sh NormalizeTransport_destination [of "I2PDestinationPublic t'" "I2PDestinationPrivate t'" "NormalizeTransport t"] n
      by metis
    ultimately show ?thesis using True \<open>Type t' = TransportI2PDatagram\<close> by (simp add: network_suffix_def)
  qed
qed

lemma identity_anonymised:
  assumes "anonymised c"
  shows "anonymised (fst (snd (EnsureAnonymousTransportIdentity generate io path c fs)))"
proof (cases "EnsureI2PDestination generate (AnonymousTransport c)")
  case (Inr r)
  then obtain t changed where r: "EnsureI2PDestination generate (AnonymousTransport c) = Inr (t, changed)" by (cases r) auto
  have "anonymised (c\<lparr> AnonymousTransport := t \<rparr>)"
    using assms EnsureI2PDestination_keeps [OF r] by (auto simp: anonymised_def)
  then show ?thesis
    using assms r by (auto simp: EnsureAnonymousTransportIdentity_def Let_def split: option.splits)
qed (auto simp: EnsureAnonymousTransportIdentity_def Let_def assms split: prod.splits)

text \<open>
  C1. Anonymous mode cannot be weakened. Whatever the input, the stored file or JSON text and the
  surroundings, each of \<open>UpdateConfig\<close>, \<open>UpdateOrCreateConfig\<close>, \<open>DirectUpdateOrCreateConfig\<close>, \<open>readConfig\<close>
  (hence \<open>ReadConfig\<close> and \<open>GetConfig\<close>), \<open>CreateInMemoryConfig\<close> and \<open>ConfigFromJSON\<close> either fails or, if
  anonymous mode is on, hands out a configuration whose transport is valid, whose management host is
  classified into the transport's network, which has no external NAT mappings, with client and server
  routes disabled, LAN access blocked and lazy connections off, even when the same input asks for the
  opposite; and ensuring the transport identity of such a configuration, whether it succeeds or fails,
  leaves one of the same kind.
\<close>

theorem anonymous_mode_enforced:
  assumes "UpdateConfig E io i fs = Some (Inr c, fs') \<or> UpdateOrCreateConfig E io i fs = Some (Inr c, fs') \<or>
      DirectUpdateOrCreateConfig E w i s = Some (Inr c, s') \<or>
      readConfig E io path createIfMissing fs = Some (Inr c, fs') \<or> CreateInMemoryConfig E i = Some (Inr c) \<or>
      ConfigFromJSON E json = Some (Inr c)"
    and "AnonymousMode c"
  shows "anonymised c \<and> anonymised (fst (snd (EnsureAnonymousTransportIdentity generate io' path' c fs'')))"
proof -
  have "anonymised c" using assms
    by (auto simp: UpdateConfig_def UpdateOrCreateConfig_def readConfig_def CreateInMemoryConfig_def
      dest: update_anonymised create_anonymised write_new_Inr direct_anonymised(2) json_anonymised split: if_splits)
  then show ?thesis using identity_anonymised by blast
qed

definition sample_env :: config_env where
  "sample_env = \<lparr> goos = ''linux'', newPrivateKey = ''key'', newSSHKey = Some ''pem'', loadCert = (\<lambda>_ _. None) \<rparr>"

definition sample_input :: ConfigInput where
  "sample_input = ConfigInput0\<lparr> in_ManagementURL := ''https://mgmt.onion'', in_AnonymousMode := Some True,
     in_DisableClientRoutes := Some False, in_BlockLANAccess := Some False, in_LazyConnectionEnabled := Some True \<rparr>"

lemma sample_created:
  "\<exists>c. createNewConfig sample_env sample_input = Some (Inr c) \<and> AnonymousMode c"
proof -
  have "case createNewConfig sample_env sample_input of Some (Inr c) \<Rightarrow> AnonymousMode c | _ \<Rightarrow> False"
    by code_simp
  then show ?thesis by (auto split: option.splits sum.splits)
qed

theorem anonymous_mode_enforced_witness:
  "\<exists>c. CreateInMemoryConfig sample_env sample_input = Some (Inr c) \<and> anonymised c"
  using sample_created anonymous_mode_enforced unfolding CreateInMemoryConfig_def by blast

section \<open>Stability\<close>

text \<open>
  A configuration is settled when none of the defaults of \<open>apply\<close> is still missing; reading a settled
  configuration changes nothing.
\<close>

definition settled :: "config_env \<Rightarrow> Config \<Rightarrow> bool" where
  "settled E c \<longleftrightarrow> ManagementURL c \<noteq> None \<and> AdminURL c \<noteq> None \<and> \<not> isLegacyAdminURL (AdminURL c) \<and>
     PrivateKey c \<noteq> [] \<and> SSHKey c \<noteq> [] \<and> WgIface c \<noteq> [] \<and>
     (NetworkMonitor c = None \<longrightarrow> goos E \<notin> {''windows'', ''darwin''}) \<and> IFaceBlackList c \<noteq> [] \<and>
     ServerSSHAllowed c \<noteq> None \<and> DNSRouteInterval c \<noteq> 0 \<and> DisableNotifications c \<noteq> None \<and> MTU c \<noteq> 0"

abbreviation read_input :: "string \<Rightarrow> ConfigInput" where
  "read_input path \<equiv> ConfigInput0\<lparr> in_ConfigPath := path \<rparr>"

definition load_cert :: "config_env \<Rightarrow> Config \<Rightarrow> Config" where
  "load_cert E c =
     (if ClientCertPath c \<noteq> [] \<and> ClientCertKeyPath c \<noteq> []
      then (case loadCert E (ClientCertPath c) (ClientCertKeyPath c) of
              None \<Rightarrow> c | Some cert \<Rightarrow> c\<lparr> ClientCertKeyPair := Some cert \<rparr>)
      else c)"

definition with_path :: "string \<Rightarrow> Config \<Rightarrow> Config" where
  "with_path path c = (if path \<noteq> [] then c\<lparr> ConfigPath := path \<rparr> else c)"

lemmas read_steps = apply_management_url_def apply_admin_url_def apply_anonymous_input_def apply_ssh_key_def
  apply_interface_def apply_network_def apply_blacklist_def apply_ssh_server_def apply_ssh_options_def
  apply_dns_route_interval_def apply_switches_def apply_certificate_def apply_rest_def

text \<open>With an empty input, each step only fills in a default.\<close>

lemma default_urls:
  "parseURL ''Management URL'' DefaultManagementURL = Inr (projr (parseURL ''Management URL'' DefaultManagementURL))"
  "parseURL ''Admin URL'' DefaultAdminURL = Inr (projr (parseURL ''Admin URL'' DefaultAdminURL))"
  "\<not> isLegacyAdminURL (Some (projr (parseURL ''Admin URL'' DefaultAdminURL)))"
  "User (projr (parseURL ''Management URL'' DefaultManagementURL)) = None"
  "User (projr (parseURL ''Admin URL'' DefaultAdminURL)) = None"
  by code_simp+

definition default_to :: "('b \<Rightarrow> bool) \<Rightarrow> 'b \<Rightarrow> 'b \<Rightarrow> 'b" where
  "default_to missing d x = (if missing x then d else x)"

definition fill_defaults :: "config_env \<Rightarrow> string \<Rightarrow> Config \<Rightarrow> Config" where
  "fill_defaults E path c = (with_path path c)\<lparr>
     ManagementURL := default_to (\<lambda>u. u = None) (Some (projr (parseURL ''Management URL'' DefaultManagementURL))) (ManagementURL c),
     AdminURL := default_to (\<lambda>u. u = None \<or> isLegacyAdminURL u) (Some (projr (parseURL ''Admin URL'' DefaultAdminURL))) (AdminURL c),
     PrivateKey := default_to (\<lambda>k. k = []) (newPrivateKey E) (PrivateKey c),
     SSHKey := default_to (\<lambda>k. k = []) (the (newSSHKey E)) (SSHKey c),
     WgIface := default_to (\<lambda>n. n = []) (WgInterfaceDefault (goos E)) (WgIface c),
     NetworkMonitor := default_to (\<lambda>m. m = None \<and> goos E \<in> {''windows'', ''darwin''}) (Some True) (NetworkMonitor c),
     IFaceBlackList := default_to (\<lambda>b. b = []) (DefaultInterfaceBlacklist (goos E)) (IFaceBlackList c),
     ServerSSHAllowed := default_to (\<lambda>a. a = None) (Some (goos E \<noteq> ''android'')) (ServerSSHAllowed c),
     DNSRouteInterval := default_to (\<lambda>d. d = 0) DefaultDNSRouteInterval (DNSRouteInterval c),
     DisableNotifications := default_to (\<lambda>d. d = None) (Some True) (DisableNotifications c),
     MTU := default_to (\<lambda>m. m = 0) DefaultMTU (MTU c) \<rparr>"

lemma read_input_None [simp]:
  "in_ManagementURL (read_input p) = []" "in_AdminURL (read_input p) = []" "in_ConfigPath (read_input p) = p"
  "in_AnonymousMode (read_input p) = None" "in_AnonymousTransport (read_input p) = None"
  "in_WireguardPort (read_input p) = None" "in_InterfaceName (read_input p) = None"
  "in_NATExternalIPs (read_input p) = None" "in_PreSharedKey (read_input p) = None"
  "in_RosenpassEnabled (read_input p) = None" "in_RosenpassPermissive (read_input p) = None"
  "in_NetworkMonitor (read_input p) = None" "in_CustomDNSAddress (read_input p) = None"
  "in_ExtraIFaceBlackList (read_input p) = []" "in_DisableAutoConnect (read_input p) = None"
  "in_ServerSSHAllowed (read_input p) = None" "in_DNSRouteInterval (read_input p) = None"
  "in_DisableNotifications (read_input p) = None" "in_DNSLabels (read_input p) = None"
  "in_LazyConnectionEnabled (read_input p) = None" "in_MTU (read_input p) = None"
  "in_ClientCertPath (read_input p) = []" "in_ClientCertKeyPath (read_input p) = []"
  "in_DisableClientRoutes (read_input p) = None" "in_DisableServerRoutes (read_input p) = None"
  "in_DisableDNS (read_input p) = None" "in_DisableFirewall (read_input p) = None"
  "in_BlockLANAccess (read_input p) = None" "in_BlockInbound (read_input p) = None"
  "in_DisableIPv6 (read_input p) = None"
  by (simp_all add: ConfigInput0_def)

lemma set_val_None [simp]: "set_val None sel upd s = s"
  by (simp add: set_val_def)

lemma set_ptr_None [simp]: "set_ptr None upd s = s"
  by (simp add: set_ptr_def set_when_def)

lemma apply_ssh_options_read [simp]: "apply_ssh_options (read_input p) s = s"
  by (simp add: apply_ssh_options_def ConfigInput0_def)

lemma read_management:
  "apply_management_url (read_input p) (c, False) =
     Inr ((with_path p c)\<lparr> ManagementURL := default_to (\<lambda>u. u = None)
       (Some (projr (parseURL ''Management URL'' DefaultManagementURL))) (ManagementURL c) \<rparr>, False)"
  using default_urls(1)
  by (cases "ManagementURL c") (auto simp: apply_management_url_def with_path_def default_to_def Let_def split: sum.splits)

lemma read_admin:
  "\<exists>u'. apply_admin_url (read_input p) (c, u) =
     Inr (c\<lparr> AdminURL := default_to (\<lambda>u. u = None \<or> isLegacyAdminURL u)
       (Some (projr (parseURL ''Admin URL'' DefaultAdminURL))) (AdminURL c) \<rparr>, u') \<and>
     (AdminURL c \<noteq> None \<longrightarrow> \<not> isLegacyAdminURL (AdminURL c) \<longrightarrow> u' = u)"
  using default_urls(2)
  by (cases "AdminURL c") (auto simp: apply_admin_url_def default_to_def Let_def split: sum.splits)

lemma read_identity:
  "apply_anonymous_input E (read_input p) (c, u) =
     (c\<lparr> PrivateKey := default_to (\<lambda>k. k = []) (newPrivateKey E) (PrivateKey c) \<rparr>, u \<or> PrivateKey c = [])"
  by (simp add: apply_anonymous_input_def set_when_def default_to_def)

lemma read_ssh_key:
  "apply_ssh_key E (c, u) = Inr s \<Longrightarrow>
     s = (c\<lparr> SSHKey := default_to (\<lambda>k. k = []) (the (newSSHKey E)) (SSHKey c) \<rparr>, u \<or> SSHKey c = [])"
  by (auto simp: apply_ssh_key_def default_to_def split: if_splits option.splits)

lemma read_interface:
  "apply_interface E (read_input p) (c, u) =
     (c\<lparr> WgIface := default_to (\<lambda>n. n = []) (WgInterfaceDefault (goos E)) (WgIface c) \<rparr>, u \<or> WgIface c = [])"
  by (simp add: apply_interface_def set_when_def default_to_def)

lemma read_network:
  "apply_network E (read_input p) (c, u) =
     (c\<lparr> NetworkMonitor := default_to (\<lambda>m. m = None \<and> goos E \<in> {''windows'', ''darwin''}) (Some True) (NetworkMonitor c) \<rparr>,
      u \<or> (NetworkMonitor c = None \<and> goos E \<in> {''windows'', ''darwin''}))"
  by (auto simp: apply_network_def set_when_def default_to_def)

lemma read_blacklist:
  "apply_blacklist E (read_input p) (c, u) =
     (c\<lparr> IFaceBlackList := default_to (\<lambda>b. b = []) (DefaultInterfaceBlacklist (goos E)) (IFaceBlackList c) \<rparr>,
      u \<or> IFaceBlackList c = [])"
  by (simp add: apply_blacklist_def set_when_def default_to_def SliceDiff_def)

lemma read_ssh_server:
  "apply_ssh_server E (read_input p) (c, u) =
     Some (c\<lparr> ServerSSHAllowed := default_to (\<lambda>a. a = None) (Some (goos E \<noteq> ''android'')) (ServerSSHAllowed c) \<rparr>,
       u \<or> ServerSSHAllowed c = None)"
  by (cases "ServerSSHAllowed c") (simp_all add: apply_ssh_server_def set_when_def default_to_def)

lemma read_interval:
  "apply_dns_route_interval (read_input p) (c, u) =
     (c\<lparr> DNSRouteInterval := default_to (\<lambda>d. d = 0) DefaultDNSRouteInterval (DNSRouteInterval c) \<rparr>,
      u \<or> DNSRouteInterval c = 0)"
  by (simp add: apply_dns_route_interval_def set_when_def default_to_def)

lemma read_switches:
  "apply_switches (read_input p) (c, u) =
     (c\<lparr> DisableNotifications := default_to (\<lambda>d. d = None) (Some True) (DisableNotifications c) \<rparr>,
      u \<or> DisableNotifications c = None)"
  by (cases "DisableNotifications c") (simp_all add: apply_switches_def set_when_def default_to_def)

lemma read_certificate: "apply_certificate E (read_input p) (c, u) = (load_cert E c, u)"
  by (simp add: apply_certificate_def set_when_def load_cert_def split: option.splits)

lemma read_rest:
  "apply_rest (read_input p) (c, u) = (c\<lparr> MTU := default_to (\<lambda>m. m = 0) DefaultMTU (MTU c) \<rparr>, u \<or> MTU c = 0)"
  by (simp add: apply_rest_def set_when_def default_to_def)

lemma load_cert_MTU: "(load_cert E c)\<lparr> MTU := m \<rparr> = load_cert E (c\<lparr> MTU := m \<rparr>)" "MTU (load_cert E c) = MTU c"
  by (simp_all add: load_cert_def split: option.splits)

lemma with_path_sel [simp]:
  "AdminURL (with_path p c) = AdminURL c" "PrivateKey (with_path p c) = PrivateKey c" "SSHKey (with_path p c) = SSHKey c"
  "WgIface (with_path p c) = WgIface c" "NetworkMonitor (with_path p c) = NetworkMonitor c"
  "IFaceBlackList (with_path p c) = IFaceBlackList c" "ServerSSHAllowed (with_path p c) = ServerSSHAllowed c"
  "DNSRouteInterval (with_path p c) = DNSRouteInterval c" "DisableNotifications (with_path p c) = DisableNotifications c"
  "MTU (with_path p c) = MTU c" "ManagementURL (with_path p c) = ManagementURL c"
  by (simp_all add: with_path_def)

lemmas read_defaults = read_identity read_interface read_network read_blacklist read_ssh_server
  read_interval read_switches read_certificate read_rest load_cert_MTU

lemmas read_simps = read_management read_defaults

lemma read_fills:
  assumes "config_apply E (read_input p) c = Some (Inr (c', u))"
  shows "\<exists>u0. apply_enforce (load_cert E (fill_defaults E p c), u0) = Inr (c', u) \<and> (settled E c \<longrightarrow> \<not> u0)"
proof -
  obtain u1 where admin: "\<And>c1. c1 = (with_path p c)\<lparr> ManagementURL := default_to (\<lambda>u. u = None)
       (Some (projr (parseURL ''Management URL'' DefaultManagementURL))) (ManagementURL c) \<rparr> \<Longrightarrow>
     apply_admin_url (read_input p) (c1, False) =
     Inr (c1\<lparr> AdminURL := default_to (\<lambda>u. u = None \<or> isLegacyAdminURL u)
       (Some (projr (parseURL ''Admin URL'' DefaultAdminURL))) (AdminURL c) \<rparr>, u1)"
    and u1: "AdminURL c \<noteq> None \<longrightarrow> \<not> isLegacyAdminURL (AdminURL c) \<longrightarrow> \<not> u1"
    using read_admin [of p "(with_path p c)\<lparr> ManagementURL := default_to (\<lambda>u. u = None)
       (Some (projr (parseURL ''Management URL'' DefaultManagementURL))) (ManagementURL c) \<rparr>" False]
    by auto
  show ?thesis
    using assms u1 unfolding config_apply_def read_management
    by (auto simp: admin read_simps settled_def fill_defaults_def dest!: read_ssh_key split: sum.splits)
qed

lemma default_to_id: "\<not> missing x \<Longrightarrow> default_to missing d x = x"
  by (simp add: default_to_def)

lemma settled_steps:
  assumes "settled E d"
  shows "apply_anonymous_input E (read_input p) (d, False) = (d, False)"
    and "apply_ssh_key E (d, False) = Inr (d, False)"
    and "apply_interface E (read_input p) (d, False) = (d, False)"
    and "apply_network E (read_input p) (d, False) = (d, False)"
    and "apply_blacklist E (read_input p) (d, False) = (d, False)"
    and "apply_ssh_server E (read_input p) (d, False) = Some (d, False)"
    and "apply_dns_route_interval (read_input p) (d, False) = (d, False)"
    and "apply_switches (read_input p) (d, False) = (d, False)"
  using assms
  by (auto simp: read_defaults default_to_id settled_def apply_ssh_key_def)

lemma settled_load_cert [simp]: "settled E (load_cert E d) = settled E d" "settled E (with_path p d) = settled E d"
  by (simp_all add: settled_def load_cert_def with_path_def split: option.splits)

lemma settled_rest: "settled E d \<Longrightarrow> apply_rest (read_input p) (d, False) = (d, False)"
  by (simp add: read_rest default_to_id settled_def)

lemma settled_apply:
  assumes "settled E c"
  shows "config_apply E (read_input p) c = Some (apply_enforce (load_cert E (with_path p c), False))"
proof -
  have "apply_management_url (read_input p) (c, False) = Inr (with_path p c, False)"
    using assms by (auto simp: read_management default_to_def settled_def with_path_def)
  moreover have "apply_admin_url (read_input p) (with_path p c, False) = Inr (with_path p c, False)"
    using assms by (auto simp: apply_admin_url_def settled_def Let_def)
  moreover have "settled E (with_path p c)" "settled E (load_cert E (with_path p c))" using assms by simp_all
  ultimately show ?thesis
    by (simp add: config_apply_def settled_steps [of E] settled_rest [of E] read_certificate)
qed

definition keys_ok :: "config_env \<Rightarrow> bool" where
  "keys_ok E \<longleftrightarrow> newPrivateKey E \<noteq> [] \<and> (\<exists>k. newSSHKey E = Some k \<and> k \<noteq> [])"

lemma fill_settled: "keys_ok E \<Longrightarrow> settled E (fill_defaults E p c)"
  using default_urls(3)
  by (auto simp: keys_ok_def settled_def fill_defaults_def default_to_def WgInterfaceDefault_def
      DefaultInterfaceBlacklist_def DefaultDNSRouteInterval_def DefaultMTU_def)

text \<open>Enforcement changes five fields, and does nothing the second time.\<close>

lemma enforce_shape:
  assumes "apply_enforce (c, u) = Inr (c', u')"
  shows "\<exists>t a b d e. c' = c\<lparr> AnonymousTransport := t, DisableClientRoutes := a, DisableServerRoutes := b,
    BlockLANAccess := d, LazyConnectionEnabled := e \<rparr>"
proof (cases "AnonymousMode c")
  case True
  then obtain ch where "enforceAnonymousMode c = Inr (c', ch)"
    using assms by (auto simp: apply_enforce_def split: sum.splits)
  then have "(c', ch) = enforce_switches (enforced_transport c)"
    by (simp add: enforceAnonymousMode_Inr Let_def)
  moreover obtain t where "fst (enforced_transport c) = c\<lparr> AnonymousTransport := t \<rparr>"
  proof (cases "fst (enforced_transport c) = c")
    case True
    then have "fst (enforced_transport c) = c\<lparr> AnonymousTransport := AnonymousTransport c \<rparr>" by simp
    then show ?thesis by (rule that)
  next
    case False
    then show ?thesis using that
      by (simp add: enforced_transport_def set_val_def set_when_def split: if_splits)
  qed
  ultimately have "c' = c\<lparr> AnonymousTransport := t, DisableClientRoutes := True, DisableServerRoutes := True,
    BlockLANAccess := True, LazyConnectionEnabled := False \<rparr>" by (simp add: enforce_switches_eq)
  then show ?thesis by blast
next
  case False
  then have "c' = c" using assms by (simp add: apply_enforce_def)
  then have "c' = c\<lparr> AnonymousTransport := AnonymousTransport c, DisableClientRoutes := DisableClientRoutes c,
    DisableServerRoutes := DisableServerRoutes c, BlockLANAccess := BlockLANAccess c,
    LazyConnectionEnabled := LazyConnectionEnabled c \<rparr>" by simp
  then show ?thesis by blast
qed

lemma NormalizeTransport_Default: "NormalizeTransport DefaultTransport = DefaultTransport"
  by code_simp

lemma enforced_transport_again:
  assumes "Type (AnonymousTransport (fst (enforced_transport c))) \<noteq> []"
    and "AnonymousTransport c' = AnonymousTransport (fst (enforced_transport c))"
  shows "enforced_transport c' = (c', False)"
proof -
  have t: "AnonymousTransport c' = (if Type (AnonymousTransport c) = [] then DefaultTransport
      else NormalizeTransport (AnonymousTransport c))"
    unfolding assms(2) by (auto simp: enforced_transport_def set_val_def set_when_def)
  have "NormalizeTransport (AnonymousTransport c') = AnonymousTransport c'"
    using assms(1) unfolding assms(2) [symmetric] t
    by (simp add: NormalizeTransport_Default NormalizeTransport_idem split: if_splits)
  then show ?thesis using assms(1) unfolding assms(2) [symmetric]
    by (simp add: enforced_transport_def set_val_def set_when_def)
qed

lemma enforce_again:
  assumes "apply_enforce (c, u) = Inr (c', u')" and "AnonymousMode c' \<Longrightarrow> Type (AnonymousTransport c') \<noteq> []"
  shows "apply_enforce (c', False) = Inr (c', False)"
proof (cases "AnonymousMode c'")
  case True
  then have "AnonymousMode c" using assms(1) enforce_shape [OF assms(1)] by auto
  then obtain ch where en: "enforceAnonymousMode c = Inr (c', ch)"
    using assms(1) by (auto simp: apply_enforce_def split: sum.splits)
  then have sw: "(c', ch) = enforce_switches (enforced_transport c)"
    and val: "ValidateTransport (AnonymousTransport (fst (enforced_transport c))) = Inr ()"
      "ValidateServiceURLForTransport ''management'' (ManagementURL c) (AnonymousTransport (fst (enforced_transport c))) = Inr ()"
      "NATExternalIPs c = None \<or> NATExternalIPs c = Some []"
    by (simp_all add: enforceAnonymousMode_Inr Let_def)
  from sw have c': "c' = (fst (enforced_transport c))\<lparr> DisableClientRoutes := True, DisableServerRoutes := True,
      BlockLANAccess := True, LazyConnectionEnabled := False \<rparr>" by (simp add: enforce_switches_eq)
  have again: "enforced_transport c' = (c', False)"
    by (rule enforced_transport_again [of c]) (use assms(2) True c' in simp_all)
  have same: "ManagementURL c' = ManagementURL c" "NATExternalIPs c' = NATExternalIPs c"
      "AnonymousTransport c' = AnonymousTransport (fst (enforced_transport c))"
    by (simp_all add: c' enforced_transport_keeps)
  have "enforce_switches (c', False) = (c', False)" by (simp add: enforce_switches_eq c')
  then have "enforceAnonymousMode c' = Inr (c', False)"
    using val by (simp add: enforceAnonymousMode_Inr Let_def again same)
  then show ?thesis by (simp add: apply_enforce_def)
qed (simp add: apply_enforce_def)

lemma Hostname_stored [simp]: "Hostname (stored_url u) = Hostname u"
  by (simp add: stored_url_def Hostname_def)

lemma isLegacy_stored [simp]: "isLegacyAdminURL (map_option stored_url u) = isLegacyAdminURL u"
  by (cases u) (simp_all add: isLegacyAdminURL_def)

lemma settled_stored [simp]: "settled E (stored c) = settled E c"
  by (simp add: settled_def stored_def)

lemma stored_url_id: "User u = None \<Longrightarrow> stored_url u = u"
  by (simp add: stored_url_def)

lemma stored_fields:
  assumes "stored c = c"
  shows "ConfigPath c = []" "ClientCertKeyPair c = None" "map_option stored_url (ManagementURL c) = ManagementURL c"
    "map_option stored_url (AdminURL c) = AdminURL c"
proof -
  have "ConfigPath (stored c) = []" "ClientCertKeyPair (stored c) = None"
    "ManagementURL (stored c) = map_option stored_url (ManagementURL c)"
    "AdminURL (stored c) = map_option stored_url (AdminURL c)" by (simp_all add: stored_def)
  then show "ConfigPath c = []" "ClientCertKeyPair c = None" "map_option stored_url (ManagementURL c) = ManagementURL c"
    "map_option stored_url (AdminURL c) = AdminURL c" using assms by simp_all
qed

lemma set_path_cert: "ConfigPath c = q \<Longrightarrow> ClientCertKeyPair c = k \<Longrightarrow> c\<lparr> ConfigPath := q, ClientCertKeyPair := k \<rparr> = c"
  by auto

text \<open>Storing a configuration that was read and reading it again restores it.\<close>

lemma reload_stored:
  assumes st: "stored c = c" and c': "c' = (load_cert E (fill_defaults E p c))\<lparr> AnonymousTransport := t,
    DisableClientRoutes := a, DisableServerRoutes := b, BlockLANAccess := d, LazyConnectionEnabled := e \<rparr>"
  shows "load_cert E (with_path p (stored c')) = c'"
proof -
  let ?f = "fill_defaults E p c"
  have lc: "ManagementURL (load_cert E f) = ManagementURL f" "AdminURL (load_cert E f) = AdminURL f"
    "ConfigPath (load_cert E f) = ConfigPath f" "ClientCertPath (load_cert E f) = ClientCertPath f"
    "ClientCertKeyPath (load_cert E f) = ClientCertKeyPath f" for f
    by (simp_all add: load_cert_def split: option.splits)
  have url: "map_option stored_url (ManagementURL ?f) = ManagementURL ?f"
    "map_option stored_url (AdminURL ?f) = AdminURL ?f"
    using stored_fields [OF st] default_urls(4,5)
    by (simp_all add: fill_defaults_def default_to_def stored_url_id)
  have path: "ConfigPath ?f = p" using stored_fields(1) [OF st] by (simp add: fill_defaults_def with_path_def)
  have cert: "ClientCertKeyPair (load_cert E ?f) =
      (if ClientCertPath ?f \<noteq> [] \<and> ClientCertKeyPath ?f \<noteq> [] then loadCert E (ClientCertPath ?f) (ClientCertKeyPath ?f) else None)"
    using stored_fields(2) [OF st] by (simp add: load_cert_def fill_defaults_def with_path_def split: option.splits)
  have "stored c' = c'\<lparr> ConfigPath := [], ClientCertKeyPair := None \<rparr>"
    using url by (simp add: stored_def c' lc)
  then have "load_cert E (with_path p (stored c')) =
      c'\<lparr> ConfigPath := p, ClientCertKeyPair := ClientCertKeyPair (load_cert E ?f) \<rparr>"
    unfolding cert by (cases "p = []") (auto simp: load_cert_def [of E "_\<lparr> ConfigPath := _ \<rparr>"]
        load_cert_def [of E "_\<lparr> ClientCertKeyPair := _ \<rparr>"] with_path_def c' lc split: option.splits)
  also have "\<dots> = c'" by (rule set_path_cert) (simp_all add: c' lc path)
  finally show ?thesis .
qed

lemma settled_enforced:
  "settled E (c\<lparr> AnonymousTransport := t, DisableClientRoutes := a, DisableServerRoutes := b,
     BlockLANAccess := d, LazyConnectionEnabled := e \<rparr>) = settled E c"
  by (simp add: settled_def)

lemma apply_read_again:
  assumes "stored c = c" and "keys_ok E" and ap: "config_apply E (read_input p) c = Some (Inr (c', u))"
    and ty: "AnonymousMode c' \<Longrightarrow> Type (AnonymousTransport c') \<noteq> []"
  shows "config_apply E (read_input p) (stored c') = Some (Inr (c', False))"
proof -
  obtain u0 where en: "apply_enforce (load_cert E (fill_defaults E p c), u0) = Inr (c', u)"
    using read_fills [OF ap] by blast
  then obtain t a b d e where c': "c' = (load_cert E (fill_defaults E p c))\<lparr> AnonymousTransport := t,
    DisableClientRoutes := a, DisableServerRoutes := b, BlockLANAccess := d, LazyConnectionEnabled := e \<rparr>"
    using enforce_shape by blast
  have "settled E (load_cert E (fill_defaults E p c))" using fill_settled [OF assms(2)] by simp
  then have "settled E (stored c')" by (simp only: c' settled_stored settled_enforced)
  from settled_apply [OF this, of p]
  show ?thesis using enforce_again [OF en ty] reload_stored [OF assms(1) c'] by simp
qed

text \<open>
  Reading the configuration is stable. If reading a configuration file (or creating a missing one)
  succeeds, then reading it again returns exactly the same configuration and leaves the file alone:
  every default, migration and enforcement of \<open>apply\<close> takes effect at once and never again. The file
  system holds what JSON can hold, the key generators return non-empty keys, and in anonymous mode
  the transport's type is not blank.
\<close>

theorem config_read_stable:
  assumes "list_all (\<lambda>(q, c). stored c = c) fs" and "keys_ok E" and "\<not> readErr io path"
    and "readConfig E io path create fs = Some (Inr c, fs')"
    and "AnonymousMode c \<Longrightarrow> Type (AnonymousTransport c) \<noteq> []"
  shows "readConfig E io path create' fs' = Some (Inr c, fs')"
proof (cases "gget fs path")
  case None
  let ?new = "Config0\<lparr> ServerSSHAllowed := Some False, WgPort := DefaultWgPort \<rparr>"
  from None assms(4) have st: "\<not> statErr io path" and "createNewConfig E (read_input path) = Some (Inr c)"
    and fs': "fs' = gput path (stored c) fs"
    by (auto simp: readConfig_def write_new_def WriteOutConfig_def split: if_splits option.splits sum.splits)
  then obtain u where "config_apply E (read_input path) ?new = Some (Inr (c, u))"
    by (auto simp: createNewConfig_def split: option.splits sum.splits)
  moreover have "stored ?new = ?new" by (simp add: stored_def Config0_def)
  ultimately have "config_apply E (read_input path) (stored c) = Some (Inr (c, False))"
    using apply_read_again assms(2,5) by blast
  then show ?thesis using st assms(3) by (simp add: readConfig_def config_update_def fs')
next
  case (Some c0)
  then have st0: "stored c0 = c0" using assms(1) by (auto simp: list_all_iff dest: map_of_SomeD)
  from Some assms(3,4) obtain u where st: "\<not> statErr io path"
    and ap: "config_apply E (read_input path) c0 = Some (Inr (c, u))"
    and fs': "fs' = (if u then gput path (stored c) fs else fs)"
    by (auto simp: readConfig_def config_update_def WriteOutConfig_def split: if_splits option.splits sum.splits)
  show ?thesis
  proof (cases u)
    case True
    then show ?thesis using apply_read_again [OF st0 assms(2) ap assms(5)] st assms(3)
      by (simp add: readConfig_def config_update_def fs')
  next
    case False
    then show ?thesis using ap Some st assms(3) by (simp add: readConfig_def config_update_def fs')
  qed
qed

lemma sample_read:
  "\<exists>c. readConfig sample_env \<lparr> statErr = (\<lambda>_. False), readErr = (\<lambda>_. False), writeErr = (\<lambda>_. False) \<rparr> ''cfg'' True []
     = Some (Inr c, [(''cfg'', stored c)]) \<and> \<not> AnonymousMode c"
proof -
  have "case createNewConfig sample_env (read_input ''cfg'') of Some (Inr c) \<Rightarrow> \<not> AnonymousMode c | _ \<Rightarrow> False"
    by code_simp
  then show ?thesis
    by (auto simp: readConfig_def write_new_def WriteOutConfig_def split: option.splits sum.splits)
qed

theorem config_read_stable_witness:
  "\<exists>c. readConfig sample_env \<lparr> statErr = (\<lambda>_. False), readErr = (\<lambda>_. False), writeErr = (\<lambda>_. False) \<rparr> ''cfg'' False
     [(''cfg'', stored c)] = Some (Inr c, [(''cfg'', stored c)])"
proof -
  let ?io = "\<lparr> statErr = (\<lambda>_. False), readErr = (\<lambda>_. False), writeErr = (\<lambda>_. False) \<rparr>"
  obtain c where c: "readConfig sample_env ?io ''cfg'' True [] = Some (Inr c, [(''cfg'', stored c)])"
    "\<not> AnonymousMode c" using sample_read by blast
  have "keys_ok sample_env" by (simp add: keys_ok_def sample_env_def)
  from config_read_stable [OF _ this _ c(1)] c(2) show ?thesis by (intro exI [of _ c]) simp
qed

section \<open>A panic\<close>

text \<open>
  C40. Updating the SSH switch of a configuration from an old version panics. If the stored
  configuration has no SSH switch (as the fall-back for pre-existing configurations expects) but is
  otherwise complete, then an input that sets the switch dereferences the missing pointer before the
  fall-back is reached, whatever value it sets.
\<close>

theorem ssh_switch_panics:
  assumes "ServerSSHAllowed c = None" and "ManagementURL c \<noteq> None" "AdminURL c \<noteq> None"
    "\<not> isLegacyAdminURL (AdminURL c)" "PrivateKey c \<noteq> []" "SSHKey c \<noteq> []"
  shows "config_apply E (ConfigInput0\<lparr> in_ServerSSHAllowed := Some b \<rparr>) c = None"
proof -
  let ?i = "ConfigInput0\<lparr> in_ServerSSHAllowed := Some b \<rparr>"
  have "apply_management_url ?i (c, False) = Inr (c, False)" "apply_admin_url ?i (c, False) = Inr (c, False)"
    using assms by (auto simp: apply_management_url_def apply_admin_url_def ConfigInput0_def)
  moreover have "apply_ssh_key E (apply_anonymous_input E ?i (c, False)) = Inr (c, False)"
    using assms by (simp add: apply_anonymous_input_def apply_ssh_key_def ConfigInput0_def set_when_def)
  moreover have "ServerSSHAllowed (fst (apply_blacklist E ?i (apply_network E ?i (apply_interface E ?i (c, False))))) = None"
    using assms(1) by (simp add: apply_blacklist_def apply_network_def apply_interface_def ConfigInput0_def
        set_when_def Let_def)
  ultimately show ?thesis by (simp add: config_apply_def apply_ssh_server_def ConfigInput0_def Let_def)
qed

theorem ssh_switch_panics_witness:
  "config_apply sample_env (ConfigInput0\<lparr> in_ServerSSHAllowed := Some True \<rparr>)
     (Config0\<lparr> ManagementURL := Some url0, AdminURL := Some url0, PrivateKey := ''k'', SSHKey := ''s'' \<rparr>) = None"
proof (rule ssh_switch_panics)
  show "\<not> isLegacyAdminURL (AdminURL (Config0\<lparr> ManagementURL := Some url0, AdminURL := Some url0,
      PrivateKey := ''k'', SSHKey := ''s'' \<rparr>))"
    by code_simp
qed (simp_all add: Config0_def)

end
