(* ===== verification/AnonRuntime.thy ===== *)
theory AnonRuntime
  imports AnonymousPolicy
begin

text \<open>
  The runtime dependencies of anonymous mode, \<open>client/internal/anonymous\<close>: finding and installing the
  binaries (\<open>dependency.go\<close>), starting and checking a Tor daemon (\<open>tor.go\<close>) or an I2P daemon (\<open>i2pd.go\<close>)
  and the runtime that holds one of them (\<open>runtime.go\<close>).

  The operating system is a record of operations on a world of any type: looking up and running
  programs, creating directories and files, connecting to the proxy. The waiting loops get the events
  of the program and of the clock as a list; an exhausted list means that the loop is still waiting.
\<close>

section \<open>The operating system\<close>

datatype wait_event = Exited | TimedOut | Tick

record 'w os =
  GOOS :: string
  euid :: int
  UserConfigDir :: "string option"
  UserHomeDir :: "string option"
  lookPath :: "'w \<Rightarrow> string \<Rightarrow> string option"
  osStat :: "'w \<Rightarrow> string \<Rightarrow> bool"
  runInstallStep :: "string \<Rightarrow> string list \<Rightarrow> 'w \<Rightarrow> bool \<times> 'w"
  MkdirAll :: "string \<Rightarrow> 'w \<Rightarrow> 'w option"
  WriteFile :: "string \<Rightarrow> string \<Rightarrow> 'w \<Rightarrow> 'w option"
  OpenLog :: "string \<Rightarrow> 'w \<Rightarrow> 'w option"
  StartProcess :: "string \<Rightarrow> string list \<Rightarrow> 'w \<Rightarrow> 'w option"
  StopProcess :: "'w \<Rightarrow> 'w"
  ReadFile :: "'w \<Rightarrow> string \<Rightarrow> string option"
  exchange :: "'w \<Rightarrow> string \<Rightarrow> bytes \<Rightarrow> nat \<Rightarrow> bytes option"
  samCheck :: "'w \<Rightarrow> string \<Rightarrow> bool"
  nextEvent :: "'w \<Rightarrow> wait_event \<times> 'w"

datatype runtime_err = BinaryUnavailable string | NotInPath string | NoPackageManager string
  | StepFailed string | InstallFailed string | StillUnavailable string | Policy violation
  | SOCKSUnavailable | BadSOCKSReply bytes | NoConfigDir | CreateDirErr string | BadAddress string
  | BadPort string | WriteConfigErr | OpenLogErr string | StartErr string | ExitedBefore bool
  | WaitTimeout bool | AutoStartFailed string | ExternalUnavailable string

definition joinPath :: "string \<Rightarrow> string \<Rightarrow> string" where
  "joinPath dir name = dir @ ''/'' @ name"

section \<open>Programs and packages\<close>

definition resolveExecutablePath :: "'w os \<Rightarrow> 'w \<Rightarrow> string \<Rightarrow> string \<Rightarrow> runtime_err + string" where
  "resolveExecutablePath os w path defaultName =
     (let path = (if TrimSpace path = [] then defaultName else TrimSpace path)
      in if CHR ''/'' \<in> set path
         then (if osStat os w path then Inr path else Inl (BinaryUnavailable path))
         else (case lookPath os w path of None \<Rightarrow> Inl (NotInPath path) | Some p \<Rightarrow> Inr p))"

definition canAutoInstallBinary :: "string \<Rightarrow> string \<Rightarrow> bool" where
  "canAutoInstallBinary path defaultName = (TrimSpace path = [] \<or> TrimSpace path = defaultName)"

type_synonym installStep = "string \<times> string list"

definition packageManagersForOS :: "string \<Rightarrow> string \<Rightarrow> (string \<times> installStep list) list" where
  "packageManagersForOS goos packageName =
     (if goos = ''linux''
      then [(''apt-get'', [(''apt-get'', [''update'']), (''apt-get'', [''install'', ''-y'', packageName])]),
            (''dnf'', [(''dnf'', [''install'', ''-y'', packageName])]),
            (''yum'', [(''yum'', [''install'', ''-y'', packageName])]),
            (''zypper'', [(''zypper'', [''--non-interactive'', ''install'', packageName])]),
            (''apk'', [(''apk'', [''add'', packageName])]),
            (''pacman'', [(''pacman'', [''-Sy'', ''--noconfirm'', packageName])])]
      else if goos = ''darwin'' then [(''brew'', [(''brew'', [''install'', packageName])])]
      else if goos \<in> {''freebsd'', ''openbsd'', ''netbsd'', ''dragonfly''}
      then [(''pkg'', [(''pkg'', [''install'', ''-y'', packageName])])]
      else [])"

definition installSteps :: "'w os \<Rightarrow> 'w \<Rightarrow> string \<Rightarrow> runtime_err + installStep list \<times> string" where
  "installSteps os w packageName =
     (case find (\<lambda>(name, _). lookPath os w name \<noteq> None) (packageManagersForOS (GOOS os) packageName) of
        None \<Rightarrow> Inl (NoPackageManager packageName)
      | Some (name, steps) \<Rightarrow> Inr (steps, name))"

definition managerAllowsSudo :: "string \<Rightarrow> bool" where
  "managerAllowsSudo manager = (manager \<noteq> ''brew'')"

fun runInstallSteps :: "'w os \<Rightarrow> installStep list \<Rightarrow> 'w \<Rightarrow> (runtime_err + unit) \<times> 'w" where
  "runInstallSteps os [] w = (Inr (), w)"
| "runInstallSteps os ((name, args) # steps) w =
     (case runInstallStep os name args w of
        (False, w) \<Rightarrow> (Inl (StepFailed name), w)
      | (True, w) \<Rightarrow> runInstallSteps os steps w)"

fun runInstallStepsWithSudo :: "'w os \<Rightarrow> string \<Rightarrow> installStep list \<Rightarrow> 'w \<Rightarrow> (runtime_err + unit) \<times> 'w" where
  "runInstallStepsWithSudo os sudoPath [] w = (Inr (), w)"
| "runInstallStepsWithSudo os sudoPath ((name, args) # steps) w =
     (case runInstallStep os sudoPath ([''-n'', name] @ args) w of
        (False, w) \<Rightarrow> (Inl (StepFailed sudoPath), w)
      | (True, w) \<Rightarrow> runInstallStepsWithSudo os sudoPath steps w)"

definition installSystemPackage :: "'w os \<Rightarrow> string \<Rightarrow> 'w \<Rightarrow> (runtime_err + unit) \<times> 'w" where
  "installSystemPackage os packageName w =
     (case installSteps os w packageName of
        Inl e \<Rightarrow> (Inl e, w)
      | Inr (steps, manager) \<Rightarrow>
          (case runInstallSteps os steps w of
             (Inr _, w) \<Rightarrow> (Inr (), w)
           | (Inl e, w) \<Rightarrow>
               if managerAllowsSudo manager
               then (case lookPath os w ''sudo'' of
                       None \<Rightarrow> (Inl e, w)
                     | Some sudoPath \<Rightarrow> runInstallStepsWithSudo os sudoPath steps w)
               else (Inl e, w)))"

definition ensurePackagedBinary ::
    "'w os \<Rightarrow> string \<Rightarrow> string \<Rightarrow> string \<Rightarrow> 'w \<Rightarrow> (runtime_err + string) \<times> 'w" where
  "ensurePackagedBinary os path defaultName packageName w =
     (case resolveExecutablePath os w path defaultName of
        Inr resolved \<Rightarrow> (Inr resolved, w)
      | Inl err \<Rightarrow>
          if \<not> canAutoInstallBinary path defaultName then (Inl err, w)
          else (case installSystemPackage os packageName w of
                  (Inl _, w) \<Rightarrow> (Inl (InstallFailed packageName), w)
                | (Inr _, w) \<Rightarrow>
                    (case resolveExecutablePath os w path defaultName of
                       Inl _ \<Rightarrow> (Inl (StillUnavailable packageName), w)
                     | Inr resolved \<Rightarrow> (Inr resolved, w))))"

definition installStepLimit :: nat where "installStepLimit = 4 * 1024"

definition formatCommandOutput :: "string \<Rightarrow> string" where
  "formatCommandOutput out =
     (let trimmed = TrimSpace out
      in if trimmed = [] then []
         else '': '' @ (if installStepLimit < length trimmed then drop (length trimmed - installStepLimit) trimmed
                        else trimmed))"

section \<open>Tor\<close>

record daemon =
  dataDir :: string
  logPath :: string
  started :: bool

definition no_daemon :: daemon where
  "no_daemon = \<lparr> dataDir = [], logPath = [], started = False \<rparr>"

definition CheckSOCKS5 :: "'w os \<Rightarrow> 'w \<Rightarrow> string \<Rightarrow> runtime_err + unit" where
  "CheckSOCKS5 os w address =
     (case validateHostPort ''tor socks5'' address of
        Inl e \<Rightarrow> Inl (Policy e)
      | Inr _ \<Rightarrow>
          (case exchange os w address [0x05, 0x01, 0x00] 2 of
             None \<Rightarrow> Inl SOCKSUnavailable
           | Some resp \<Rightarrow>
               if resp ! 0 \<noteq> 0x05 \<or> resp ! 1 = 0xff then Inl (BadSOCKSReply resp) else Inr ()))"

definition replace_char :: "char \<Rightarrow> string \<Rightarrow> string \<Rightarrow> string" where
  "replace_char c new s = concat (map (\<lambda>x. if x = c then new else [x]) s)"

definition torrcQuote :: "string \<Rightarrow> string" where
  "torrcQuote val =
     (let v = replace_char CHR 0x5C [CHR 0x5C, CHR 0x5C] val;
          v = replace_char CHR 0x22 [CHR 0x5C, CHR 0x22] v
      in [CHR 0x22] @ v @ [CHR 0x22])"

definition normalizeLoopbackHost :: "string \<Rightarrow> string" where
  "normalizeLoopbackHost host =
     (let host = Trim (TrimSpace host) ''[]''
      in if host = [] \<or> EqualFold host ''localhost'' then ''127.0.0.1'' else host)"

definition newline :: string where "newline = [CHR 0x0A]"

definition torrc_lines :: "string \<Rightarrow> string \<Rightarrow> string \<Rightarrow> string list" where
  "torrc_lines dir host port =
     [''DataDirectory '' @ torrcQuote dir, ''SocksPort '' @ JoinHostPort host port, ''ClientOnly 1'',
      ''SafeSocks 1'', ''TestSocks 1'', ''ControlPort 0'', ''DNSPort 0'', ''TransPort 0'', ''RunAsDaemon 0'',
      ''Log notice file '' @ torrcQuote (joinPath dir ''tor.log''), []]"

definition writeTorConfig :: "'w os \<Rightarrow> string \<Rightarrow> string \<Rightarrow> 'w \<Rightarrow> (runtime_err + unit) \<times> 'w" where
  "writeTorConfig os dir socksAddress w =
     (case SplitHostPort socksAddress of
        Inl _ \<Rightarrow> (Inl (BadAddress socksAddress), w)
      | Inr (host, port) \<Rightarrow>
          if \<not> Atoi_ok port then (Inl (BadPort port), w)
          else (case WriteFile os (joinPath dir ''torrc'')
                  (Join newline (torrc_lines dir (normalizeLoopbackHost host) port)) w of
                  None \<Rightarrow> (Inl WriteConfigErr, w)
                | Some w \<Rightarrow> (Inr (), w)))"

definition defaultTorDataDir :: "'w os \<Rightarrow> runtime_err + string" where
  "defaultTorDataDir os =
     (if GOOS os = ''linux'' \<and> euid os = 0 then Inr ''/var/lib/anonbird/tor''
      else case UserConfigDir os of
             None \<Rightarrow> Inl NoConfigDir
           | Some d \<Rightarrow> Inr (joinPath (joinPath d ''anonbird'') ''tor''))"

definition contains_sub :: "string \<Rightarrow> string \<Rightarrow> bool" where
  "contains_sub s t = (find_sub t s \<noteq> None)"

definition torLogBootstrapped :: "'w os \<Rightarrow> 'w \<Rightarrow> string \<Rightarrow> bool" where
  "torLogBootstrapped os w path =
     (case ReadFile os w path of None \<Rightarrow> False | Some text \<Rightarrow> contains_sub text ''Bootstrapped 100%'')"

text \<open>One unit of fuel per turn of the loop; the code's clock ends it after at most two minutes.\<close>

fun waitForTor :: "nat \<Rightarrow> 'w os \<Rightarrow> string \<Rightarrow> daemon \<Rightarrow> bool \<Rightarrow> 'w \<Rightarrow> ((runtime_err + unit) \<times> 'w) option" where
  "waitForTor 0 os addr d ready w = None"
| "waitForTor (Suc n) os addr d ready w =
     (let ok = (CheckSOCKS5 os w addr = Inr ()); ready = (ready \<or> ok)
      in if ok \<and> torLogBootstrapped os w (logPath d) then Some (Inr (), w)
         else (case nextEvent os w of
                 (Exited, w) \<Rightarrow> Some (Inl (ExitedBefore ready), w)
               | (TimedOut, w) \<Rightarrow> Some (Inl (WaitTimeout ready), w)
               | (Tick, w) \<Rightarrow> waitForTor n os addr d ready w))"

text \<open>The part of starting a daemon that both programs share: directories, configuration, log, process.\<close>

definition launch :: "'w os \<Rightarrow> string \<Rightarrow> string \<Rightarrow> string list \<Rightarrow> 'w \<Rightarrow> (runtime_err + daemon) \<times> 'w" where
  "launch os binaryPath logName args w =
     (case OpenLog os logName w of
        None \<Rightarrow> (Inl (OpenLogErr logName), w)
      | Some w \<Rightarrow>
          (case StartProcess os binaryPath args w of
             None \<Rightarrow> (Inl (StartErr binaryPath), w)
           | Some w \<Rightarrow> (Inr (no_daemon\<lparr> logPath := logName, started := True \<rparr>), w)))"

definition startTorDaemon ::
    "nat \<Rightarrow> 'w os \<Rightarrow> TransportConfig \<Rightarrow> 'w \<Rightarrow> ((runtime_err + daemon) \<times> 'w) option" where
  "startTorDaemon fuel os t w =
     (case ensurePackagedBinary os ''tor'' ''tor'' ''tor'' w of
        (Inl e, w) \<Rightarrow> Some (Inl e, w)
      | (Inr binaryPath, w) \<Rightarrow>
          if CheckSOCKS5 os w (TorSOCKS5 t) = Inr () then Some (Inr no_daemon, w)
          else (case defaultTorDataDir os of
                  Inl e \<Rightarrow> Some (Inl e, w)
                | Inr dir \<Rightarrow>
                    (case MkdirAll os dir w of
                       None \<Rightarrow> Some (Inl (CreateDirErr dir), w)
                     | Some w \<Rightarrow>
                         (case writeTorConfig os dir (TorSOCKS5 t) w of
                            (Inl e, w) \<Rightarrow> Some (Inl e, w)
                          | (Inr _, w) \<Rightarrow>
                              (case launch os binaryPath (joinPath dir ''tor.log'') [''-f'', joinPath dir ''torrc''] w of
                                 (Inl e, w) \<Rightarrow> Some (Inl e, w)
                               | (Inr d, w) \<Rightarrow>
                                   (let d = d\<lparr> dataDir := dir \<rparr>
                                    in case waitForTor fuel os (TorSOCKS5 t) d False w of
                                         None \<Rightarrow> None
                                       | Some (Inl e, w) \<Rightarrow> Some (Inl e, StopProcess os w)
                                       | Some (Inr _, w) \<Rightarrow> Some (Inr d, w)))))))"

definition EnsureTorDaemon ::
    "nat \<Rightarrow> 'w os \<Rightarrow> TransportConfig \<Rightarrow> 'w \<Rightarrow> ((runtime_err + daemon) \<times> 'w) option" where
  "EnsureTorDaemon fuel os t w =
     (let t = NormalizeTransport t
      in if Type t \<noteq> TransportTorRelayOnly then Some (Inr no_daemon, w)
         else case ValidateTransport t of
                Inl e \<Rightarrow> Some (Inl (Policy e), w)
              | Inr _ \<Rightarrow>
                  if CheckSOCKS5 os w (TorSOCKS5 t) = Inr () then Some (Inr no_daemon, w)
                  else (case startTorDaemon fuel os t w of
                          None \<Rightarrow> None
                        | Some (Inl _, w) \<Rightarrow> Some (Inl (AutoStartFailed (TorSOCKS5 t)), w)
                        | Some (Inr d, w) \<Rightarrow> Some (Inr d, w)))"

section \<open>I2P\<close>

definition resolveI2PDaemonPath :: "'w os \<Rightarrow> string \<Rightarrow> 'w \<Rightarrow> (runtime_err + string) \<times> 'w" where
  "resolveI2PDaemonPath os path w =
     (let path = (if TrimSpace path = [] then DefaultI2PDaemonPath else TrimSpace path)
      in if CHR ''/'' \<in> set path
         then (if osStat os w path then (Inr path, w) else (Inl (BinaryUnavailable path), w))
         else (case lookPath os w path of
                 Some resolved \<Rightarrow> (Inr resolved, w)
               | None \<Rightarrow>
                   if canAutoInstallBinary path DefaultI2PDaemonPath
                   then (case ensurePackagedBinary os path DefaultI2PDaemonPath ''i2pd'' w of
                           (Inr installed, w) \<Rightarrow> (Inr installed, w)
                         | (Inl _, w) \<Rightarrow> (Inl (InstallFailed ''i2pd''), w))
                   else (Inl (NotInPath path), w)))"

fun waitForI2PSAM :: "nat \<Rightarrow> 'w os \<Rightarrow> string \<Rightarrow> 'w \<Rightarrow> ((runtime_err + unit) \<times> 'w) option" where
  "waitForI2PSAM 0 os addr w = None"
| "waitForI2PSAM (Suc n) os addr w =
     (if samCheck os w addr then Some (Inr (), w)
      else (case nextEvent os w of
              (Exited, w) \<Rightarrow> Some (Inl (ExitedBefore False), w)
            | (TimedOut, w) \<Rightarrow> Some (Inl (WaitTimeout False), w)
            | (Tick, w) \<Rightarrow> waitForI2PSAM n os addr w))"

definition i2pdArgs :: "string \<Rightarrow> string list" where
  "i2pdArgs dir = [''--datadir='' @ dir, ''--conf='' @ joinPath dir ''i2pd.conf'',
     ''--tunconf='' @ joinPath dir ''tunnels.conf'', ''--tunnelsdir='' @ joinPath dir ''tunnels.d'',
     ''--pidfile='' @ joinPath dir ''i2pd.pid'']"

definition i2pd_lines :: "string \<Rightarrow> string \<Rightarrow> string \<Rightarrow> string list" where
  "i2pd_lines dir host port =
     [''log = file'', ''loglevel = warn'', ''logfile = '' @ joinPath dir ''i2pd.log'', ''notransit = true'',
      ''upnp.enabled = false'', [], ''[http]'', ''enabled = false'', [], ''[httpproxy]'', ''enabled = false'', [],
      ''[socksproxy]'', ''enabled = false'', [], ''[i2cp]'', ''enabled = false'', [], ''[sam]'', ''enabled = true'',
      ''address = '' @ host, ''port = '' @ port, []]"

definition writeI2PDConfig :: "'w os \<Rightarrow> string \<Rightarrow> string \<Rightarrow> 'w \<Rightarrow> (runtime_err + unit) \<times> 'w" where
  "writeI2PDConfig os dir samAddress w =
     (case SplitHostPort samAddress of
        Inl _ \<Rightarrow> (Inl (BadAddress samAddress), w)
      | Inr (host, port) \<Rightarrow>
          if \<not> Atoi_ok port then (Inl (BadPort port), w)
          else (let host = (if host = [] then ''127.0.0.1'' else host)
                in case WriteFile os (joinPath dir ''i2pd.conf'') (Join newline (i2pd_lines dir host port)) w of
                     None \<Rightarrow> (Inl WriteConfigErr, w)
                   | Some w \<Rightarrow>
                       (case WriteFile os (joinPath dir ''tunnels.conf'')
                          (''# AnonBird uses SAM sessions; static tunnels are not required.'' @ newline) w of
                          None \<Rightarrow> (Inl WriteConfigErr, w)
                        | Some w \<Rightarrow> (Inr (), w))))"

definition defaultI2PDataDir :: "'w os \<Rightarrow> runtime_err + string" where
  "defaultI2PDataDir os =
     (let fallback = (case UserConfigDir os of
            None \<Rightarrow> Inl NoConfigDir
          | Some d \<Rightarrow> Inr (joinPath (joinPath d ''anonbird'') ''i2pd''))
      in if GOOS os = ''linux''
         then (if euid os = 0 then Inr ''/var/lib/i2pd/anonbird''
               else (case UserHomeDir os of
                       None \<Rightarrow> fallback
                     | Some home \<Rightarrow> if home \<noteq> [] then Inr (joinPath (joinPath home ''.i2pd'') ''anonbird'') else fallback))
         else fallback)"

definition startI2PDaemon ::
    "nat \<Rightarrow> 'w os \<Rightarrow> TransportConfig \<Rightarrow> 'w \<Rightarrow> ((runtime_err + daemon) \<times> 'w) option" where
  "startI2PDaemon fuel os t w =
     (case resolveI2PDaemonPath os (I2PDaemonPath t) w of
        (Inl e, w) \<Rightarrow> Some (Inl e, w)
      | (Inr binaryPath, w) \<Rightarrow>
          if samCheck os w (I2PSAM t) then Some (Inr no_daemon, w)
          else (case (if I2PDataDir t = [] then defaultI2PDataDir os else Inr (I2PDataDir t)) of
                  Inl e \<Rightarrow> Some (Inl e, w)
                | Inr dir \<Rightarrow>
                    (case MkdirAll os dir w of
                       None \<Rightarrow> Some (Inl (CreateDirErr dir), w)
                     | Some w \<Rightarrow>
                    (case MkdirAll os (joinPath dir ''tunnels.d'') w of
                       None \<Rightarrow> Some (Inl (CreateDirErr dir), w)
                     | Some w \<Rightarrow>
                         (case writeI2PDConfig os dir (I2PSAM t) w of
                            (Inl e, w) \<Rightarrow> Some (Inl e, w)
                          | (Inr _, w) \<Rightarrow>
                              (case launch os binaryPath (joinPath dir ''i2pd.log'') (i2pdArgs dir) w of
                                 (Inl e, w) \<Rightarrow> Some (Inl e, w)
                               | (Inr d, w) \<Rightarrow>
                                   (let d = d\<lparr> dataDir := dir \<rparr>
                                    in case waitForI2PSAM fuel os (I2PSAM t) w of
                                         None \<Rightarrow> None
                                       | Some (Inl e, w) \<Rightarrow> Some (Inl e, StopProcess os w)
                                       | Some (Inr _, w) \<Rightarrow> Some (Inr d, w))))))))"

definition EnsureI2PDaemon ::
    "nat \<Rightarrow> 'w os \<Rightarrow> TransportConfig \<Rightarrow> 'w \<Rightarrow> ((runtime_err + daemon) \<times> 'w) option" where
  "EnsureI2PDaemon fuel os t w =
     (let t = NormalizeTransport t
      in if Type t \<noteq> TransportI2PDatagram then Some (Inr no_daemon, w)
         else case ValidateTransport t of
                Inl e \<Rightarrow> Some (Inl (Policy e), w)
              | Inr _ \<Rightarrow>
                  if samCheck os w (I2PSAM t) then Some (Inr no_daemon, w)
                  else if I2PDaemonMode t = I2PDaemonExternal
                  then Some (Inl (ExternalUnavailable (I2PSAM t)), w)
                  else (case startI2PDaemon fuel os t w of
                          None \<Rightarrow> None
                        | Some (Inl e, w) \<Rightarrow>
                            Some (Inl (if I2PDaemonMode t = I2PDaemonAuto then AutoStartFailed (I2PSAM t) else e), w)
                        | Some (Inr d, w) \<Rightarrow> Some (Inr d, w)))"

section \<open>The runtime\<close>

record Runtime =
  transport :: TransportConfig
  tor :: "daemon option"
  i2p :: "daemon option"

text \<open>A nil runtime is \<open>None\<close>.\<close>

definition EnsureRuntime ::
    "nat \<Rightarrow> 'w os \<Rightarrow> TransportConfig \<Rightarrow> 'w \<Rightarrow> ((runtime_err + Runtime option) \<times> 'w) option" where
  "EnsureRuntime fuel os t0 w =
     (let t = NormalizeTransport t0
      in case ValidateTransport t of
           Inl e \<Rightarrow> Some (Inl (Policy e), w)
         | Inr _ \<Rightarrow>
             if Type t = TransportTorRelayOnly
             then (case EnsureTorDaemon fuel os t w of
                     None \<Rightarrow> None
                   | Some (Inl e, w) \<Rightarrow> Some (Inl e, w)
                   | Some (Inr d, w) \<Rightarrow> Some (Inr (Some \<lparr> transport = t, tor = Some d, i2p = None \<rparr>), w))
             else if Type t = TransportI2PDatagram
             then (case EnsureI2PDaemon fuel os t w of
                     None \<Rightarrow> None
                   | Some (Inl e, w) \<Rightarrow> Some (Inl e, w)
                   | Some (Inr d, w) \<Rightarrow> Some (Inr (Some \<lparr> transport = t, tor = None, i2p = Some d \<rparr>), w))
             else (case ValidateTransport t of
                     Inl e \<Rightarrow> Some (Inl (Policy e), w)
                   | Inr _ \<Rightarrow> Some (Inr None, w)))"

definition daemon_started :: "daemon option \<Rightarrow> bool" where
  "daemon_started d = (case d of None \<Rightarrow> False | Some d \<Rightarrow> started d)"

definition Started :: "Runtime option \<Rightarrow> bool" where
  "Started r = (case r of None \<Rightarrow> False | Some r \<Rightarrow> daemon_started (tor r) \<or> daemon_started (i2p r))"

definition runtimeTransportKey :: "TransportConfig \<Rightarrow> TransportConfig" where
  "runtimeTransportKey t0 =
     (let t = NormalizeTransport t0
      in if Type t = TransportTorRelayOnly
         then TransportConfig0\<lparr> Type := Type t, RequireAnonymous := True, TorSOCKS5 := TorSOCKS5 t \<rparr>
         else if Type t = TransportI2PDatagram
         then TransportConfig0\<lparr> Type := Type t, RequireAnonymous := True, I2PSAM := I2PSAM t,
                I2PTunnelLength := I2PTunnelLength t, I2PTunnelQuantity := I2PTunnelQuantity t,
                I2PDaemonMode := I2PDaemonMode t, I2PDaemonPath := I2PDaemonPath t, I2PDataDir := I2PDataDir t \<rparr>
         else t)"

definition Matches :: "Runtime option \<Rightarrow> TransportConfig \<Rightarrow> bool" where
  "Matches r t = (case r of
     None \<Rightarrow> False
   | Some rt \<Rightarrow> Started r \<and> runtimeTransportKey (transport rt) = runtimeTransportKey (NormalizeTransport t))"

text \<open>Closing stops a started process and forgets both daemons.\<close>

definition daemon_Close :: "'w os \<Rightarrow> daemon option \<Rightarrow> 'w \<Rightarrow> 'w" where
  "daemon_Close os d w = (if daemon_started d then StopProcess os w else w)"

definition Runtime_Close :: "'w os \<Rightarrow> Runtime option \<Rightarrow> 'w \<Rightarrow> Runtime option \<times> 'w" where
  "Runtime_Close os r w =
     (case r of
        None \<Rightarrow> (None, w)
      | Some rt \<Rightarrow> (Some (rt\<lparr> tor := None, i2p := None \<rparr>), daemon_Close os (i2p rt) (daemon_Close os (tor rt) w)))"

section \<open>The proxy that is used\<close>

lemma waitForTor_ready:
  "waitForTor n os addr d ready w = Some (Inr (), w') \<Longrightarrow> CheckSOCKS5 os w' addr = Inr ()"
  by (induction n arbitrary: ready w)
    (auto simp: Let_def split: if_splits prod.splits wait_event.splits)

lemma waitForI2PSAM_ready: "waitForI2PSAM n os addr w = Some (Inr (), w') \<Longrightarrow> samCheck os w' addr"
  by (induction n arbitrary: w) (auto split: if_splits prod.splits wait_event.splits)

lemma startTorDaemon_ready:
  "startTorDaemon fuel os t w = Some (Inr d, w') \<Longrightarrow> CheckSOCKS5 os w' (TorSOCKS5 t) = Inr ()"
  by (auto simp: startTorDaemon_def Let_def dest: waitForTor_ready
      split: prod.splits sum.splits if_splits option.splits)

lemma startI2PDaemon_ready:
  "startI2PDaemon fuel os t w = Some (Inr d, w') \<Longrightarrow> samCheck os w' (I2PSAM t)"
  by (auto simp: startI2PDaemon_def Let_def dest: waitForI2PSAM_ready
      split: prod.splits sum.splits if_splits option.splits)

lemma EnsureTorDaemon_ready:
  "EnsureTorDaemon fuel os t w = Some (Inr d, w') \<Longrightarrow> Type (NormalizeTransport t) = TransportTorRelayOnly \<Longrightarrow>
     CheckSOCKS5 os w' (TorSOCKS5 (NormalizeTransport t)) = Inr ()"
  by (auto simp: EnsureTorDaemon_def Let_def dest: startTorDaemon_ready
      split: prod.splits sum.splits if_splits option.splits)

lemma EnsureI2PDaemon_ready:
  "EnsureI2PDaemon fuel os t w = Some (Inr d, w') \<Longrightarrow> Type (NormalizeTransport t) = TransportI2PDatagram \<Longrightarrow>
     samCheck os w' (I2PSAM (NormalizeTransport t))"
  by (auto simp: EnsureI2PDaemon_def Let_def dest: startI2PDaemon_ready
      split: prod.splits sum.splits if_splits option.splits)

text \<open>A host that passed the loopback check is written to the Tor configuration as a loopback address.\<close>

lemma loopback_host:
  assumes "validateLoopbackHostPort name addr = Inr ()"
  shows "\<exists>host port ip. SplitHostPort addr = Inr (host, port) \<and>
    ParseIP (normalizeLoopbackHost host) = Some ip \<and> IsLoopback ip"
proof -
  have lo: "IsLoopback (Addr4 0x7F000001)" by code_simp
  from assms obtain host port where sp: "SplitHostPort addr = Inr (host, port)"
    and ok: "Trim (TrimSpace host) ''[]'' = [] \<or> EqualFold (Trim (TrimSpace host) ''[]'') ''localhost'' \<or>
      (\<exists>ip. ParseIP (Trim (TrimSpace host) ''[]'') = Some ip \<and> IsLoopback ip)"
    by (auto simp: validateLoopbackHostPort_def Let_def split: sum.splits if_splits option.splits)
  then have "\<exists>ip. ParseIP (normalizeLoopbackHost host) = Some ip \<and> IsLoopback ip"
    using lo parse_addr_examples(1) by (auto simp: normalizeLoopbackHost_def Let_def)
  then show ?thesis using sp by blast
qed

lemma ValidateTransport_loopback:
  "ValidateTransport t = Inr () \<Longrightarrow> Type (NormalizeTransport t) = TransportTorRelayOnly \<Longrightarrow>
     validateLoopbackHostPort ''tor socks5'' (TorSOCKS5 (NormalizeTransport t)) = Inr ()"
  by (auto simp: ValidateTransport_def Let_def case_sum_Inr_iff)

text \<open>The text of an address without zone is made of hexadecimal digits, dots and colons.\<close>

definition addr_char :: "char \<Rightarrow> bool" where
  "addr_char c = (is_hex c \<or> c = CHR ''.'' \<or> c = CHR '':'')"

lemma in_Split: "x \<in> set s \<Longrightarrow> x \<noteq> c \<Longrightarrow> \<exists>f \<in> set (Split c s). x \<in> set f"
  by (induction s) (auto split: list.splits)

lemma parse_v4_fields_chars:
  assumes "parse_v4_fields s = Some b"
  shows "list_all addr_char s"
proof -
  from assms have "list_all (\<lambda>f. dec_octet f \<noteq> None) (Split CHR ''.'' s)"
    by (auto simp: parse_v4_fields_def map_eq_Cons_conv split: list.splits option.splits)
  then have "\<forall>f \<in> set (Split CHR ''.'' s). list_all is_digit f"
    by (auto simp: list_all_iff dec_octet_def split: if_splits)
  moreover have "is_digit c \<Longrightarrow> addr_char c" for c by (simp add: addr_char_def is_hex_def is_digit_def)
  ultimately show ?thesis
    using in_Split [of _ s "CHR ''.''"] by (metis addr_char_def list_all_iff)
qed

lemma v6_groups_chars: "v6_groups n s e ip = Some b \<Longrightarrow> list_all addr_char s"
proof (induction n s e ip rule: v6_groups.induct)
  case (2 n s e ip)
  define ds rest where "ds = takeWhile is_hex s" and "rest = drop (length ds) s"
  have s: "s = ds @ rest"
    unfolding rest_def ds_def by (metis takeWhile_dropWhile_id dropWhile_eq_drop)
  have ds: "list_all addr_char ds"
    unfolding ds_def list_all_iff addr_char_def using set_takeWhileD by fast
  note run = 2(3) [unfolded v6_groups.simps Let_def, folded ds_def, folded rest_def]
  note ih = 2(1,2) [OF ds_def rest_def refl]
  have "rest = [] \<or> list_all addr_char s \<or> (\<exists>x y zs. rest = x # y # zs \<and> x = CHR '':'' \<and> list_all addr_char (y # zs))"
  proof (cases "rest = [] \<or> hd rest = CHR ''.''")
    case True
    then show ?thesis using run parse_v4_fields_chars [of s] by (auto split: if_splits option.splits)
  next
    case False
    then obtain x y zs where r: "rest = x # y # zs" "x = CHR '':''"
      using run by (cases rest; cases "tl rest") (auto split: if_splits)
    have "list_all addr_char (y # zs)"
      using run ih False r by (auto simp: addr_char_def [of "CHR '':''"] split: if_splits)
    then show ?thesis using r by blast
  qed
  then show ?case using s ds by (auto simp: addr_char_def [of "CHR '':''"])
qed (simp add: v6_finish_def split: if_splits)

lemma ParseIP_chars:
  assumes "ParseIP s = Some a"
  shows "list_all addr_char s"
proof -
  have cut: "Cut CHR ''%'' s = (t, [], False) \<Longrightarrow> t = s" for t
    by (auto simp: Cut_def split: option.splits)
  have "list_all addr_char s" if v6: "parse_v6 s = Some (a, [])"
  proof -
    from v6 have c: "Cut CHR ''%'' s = (s, [], False)"
      using cut by (auto simp: parse_v6_def Let_def split: prod.splits if_splits)
    show ?thesis
    proof (cases "HasPrefix s ''::''")
      case True
      then have "s = '':'' @ '':'' @ drop 2 s"
        using append_take_drop_id [of 2 s] by (simp add: HasPrefix_def numeral_2_eq_2)
      moreover have "list_all addr_char (drop 2 s)"
        using v6 c True v6_groups_chars by (auto simp: parse_v6_def split: if_splits)
      ultimately show ?thesis by (metis addr_char_def append_Cons append_Nil list.pred_inject(2))
    qed (use v6 c v6_groups_chars in \<open>auto simp: parse_v6_def split: if_splits\<close>)
  qed
  then show ?thesis
    using assms parse_v4_fields_chars by (auto simp: ParseIP_def ParseAddr_def split: list.splits option.splits if_splits)
qed

text \<open>
  The lines of a Tor configuration that open a listener: the options named after a port or a listening
  address, in any spelling, unless their argument is 0.
\<close>

definition listener_keyword :: "string \<Rightarrow> bool" where
  "listener_keyword k = (HasSuffix (ToLower k) ''port'' \<or> HasSuffix (ToLower k) ''listenaddress'')"

definition opens_listener :: "string \<Rightarrow> bool" where
  "opens_listener line =
     (let keyword = takeWhile (\<lambda>c. c \<noteq> CHR '' '') line
      in listener_keyword keyword \<and> drop (length keyword + 1) line \<noteq> ''0'')"

lemma torrc_no_newline:
  assumes "ParseIP host = Some ip" "Atoi_ok port" "CHR 0x0A \<notin> set dir"
  shows "list_all (\<lambda>l. CHR 0x0A \<notin> set l) (torrc_lines dir host port)"
proof -
  have no: "\<not> addr_char CHR 0x0A" "\<not> is_digit CHR 0x0A" by code_simp+
  then have "CHR 0x0A \<notin> set host"
    using ParseIP_chars [OF assms(1)] unfolding list_all_iff by blast
  moreover have "CHR 0x0A \<notin> set port"
    using assms(2) no(2) by (cases port) (auto simp: Atoi_ok_def list_all_iff split: if_splits)
  ultimately show ?thesis
    using assms(3) by (simp add: torrc_lines_def JoinHostPort_def torrcQuote_def replace_char_def joinPath_def Let_def)
qed

lemma torrc_listeners:
  "filter opens_listener (torrc_lines dir host port) = [''SocksPort '' @ JoinHostPort host port]"
proof -
  have "JoinHostPort host port \<noteq> ''0''" by (auto simp: JoinHostPort_def append_eq_Cons_conv)
  moreover have k: "listener_keyword ''SocksPort''" "\<not> listener_keyword ''DataDirectory''" "\<not> listener_keyword ''Log''"
    by code_simp+
  have "opens_listener (''SocksPort '' @ a) = (a \<noteq> ''0'')" "\<not> opens_listener (''DataDirectory '' @ a)"
    "\<not> opens_listener (''Log notice file '' @ a)" for a
    using k by (simp_all add: opens_listener_def Let_def)
  moreover have "filter opens_listener [''ClientOnly 1'', ''SafeSocks 1'', ''TestSocks 1'', ''ControlPort 0'', ''DNSPort 0'',
      ''TransPort 0'', ''RunAsDaemon 0''] = []" by code_simp
  moreover have "\<not> opens_listener []" by code_simp
  ultimately show ?thesis
    unfolding torrc_lines_def by (simp only: filter.simps simp_thms if_True if_False list.distinct split: if_splits)
qed

text \<open>
  C6. A managed Tor daemon listens on the loopback interface only. If the transport was validated,
  then whenever the client writes a Tor configuration for it into a directory whose name has no
  newline, the only line of the whole file that opens a listener of any kind (SOCKS, control, DNS,
  transparent, relay or other port) is the SOCKS port, on the port of the validated address and on a
  host that parses as a loopback address.
\<close>

theorem torrc_loopback:
  assumes "ValidateTransport t = Inr ()" and "Type (NormalizeTransport t) = TransportTorRelayOnly"
    and "writeTorConfig os dir (TorSOCKS5 (NormalizeTransport t)) w = (Inr (), w')"
    and "CHR 0x0A \<notin> set dir"
  shows "\<exists>content h host port ip. WriteFile os (joinPath dir ''torrc'') content w = Some w' \<and>
    SplitHostPort (TorSOCKS5 (NormalizeTransport t)) = Inr (h, port) \<and>
    filter opens_listener (Split CHR 0x0A content) = [''SocksPort '' @ JoinHostPort host port] \<and>
    ParseIP host = Some ip \<and> IsLoopback ip"
proof -
  obtain h port ip where sp: "SplitHostPort (TorSOCKS5 (NormalizeTransport t)) = Inr (h, port)"
    and ip: "ParseIP (normalizeLoopbackHost h) = Some ip" "IsLoopback ip"
    using loopback_host [OF ValidateTransport_loopback [OF assms(1,2)]] by blast
  let ?ls = "torrc_lines dir (normalizeLoopbackHost h) port"
  from assms(3) sp have w: "WriteFile os (joinPath dir ''torrc'') (Join newline ?ls) w = Some w'" and "Atoi_ok port"
    by (auto simp: writeTorConfig_def split: if_splits option.splits)
  then have "Split CHR 0x0A (Join newline ?ls) = ?ls"
    unfolding newline_def
    by (intro Split_Join torrc_no_newline [OF ip(1) _ assms(4)]) (simp_all add: torrc_lines_def)
  then show ?thesis using w sp ip torrc_listeners by metis
qed

text \<open>A small world: the files written so far, and whether the proxy answers once a program runs.\<close>

type_synonym sample_world = "(string \<times> string) list \<times> bool"

definition sample_os :: "sample_world os" where
  "sample_os = \<lparr> GOOS = ''linux'', euid = 0, UserConfigDir = None, UserHomeDir = None,
     lookPath = (\<lambda>w p. if p = ''tor'' then Some ''/usr/bin/tor'' else None), osStat = (\<lambda>w p. False),
     runInstallStep = (\<lambda>n a w. (False, w)), MkdirAll = (\<lambda>d w. Some w),
     WriteFile = (\<lambda>p t w. Some ((p, t) # fst w, snd w)), OpenLog = (\<lambda>p w. Some w),
     StartProcess = (\<lambda>b a w. Some (fst w, True)), StopProcess = (\<lambda>w. (fst w, False)),
     ReadFile = (\<lambda>w p. Some ''Bootstrapped 100% (done)''),
     exchange = (\<lambda>w a q n. if snd w then Some [5, 0] else None), samCheck = (\<lambda>w a. False),
     nextEvent = (\<lambda>w. (TimedOut, w)) \<rparr>"

theorem torrc_loopback_witness:
  "\<exists>content h host port ip. WriteFile sample_os (joinPath ''/d'' ''torrc'') content ([], False) =
      Some (snd (writeTorConfig sample_os ''/d'' DefaultTorSOCKS5 ([], False))) \<and>
    SplitHostPort DefaultTorSOCKS5 = Inr (h, port) \<and>
    filter opens_listener (Split CHR 0x0A content) = [''SocksPort '' @ JoinHostPort host port] \<and>
    ParseIP host = Some ip \<and> IsLoopback ip"
proof -
  have d: "NormalizeTransport DefaultTransport = DefaultTransport" "TorSOCKS5 DefaultTransport = DefaultTorSOCKS5"
    and "Type DefaultTransport = TransportTorRelayOnly" "ValidateTransport DefaultTransport = Inr ()"
    and "fst (writeTorConfig sample_os ''/d'' DefaultTorSOCKS5 ([], False)) = Inr ()" "CHR 0x0A \<notin> set ''/d''"
    by code_simp+
  then show ?thesis
    using torrc_loopback [of DefaultTransport sample_os "''/d''" "([], False)"
        "snd (writeTorConfig sample_os ''/d'' DefaultTorSOCKS5 ([], False))"]
    by (metis prod.collapse)
qed

text \<open>
  C7. The client never starts on a proxy that does not answer. Whenever ensuring the runtime succeeds,
  the transport passed validation and either the proxy of exactly that transport answers in the
  resulting state (the SOCKS5 greeting of Tor, or the SAM bridge of I2P) and the runtime holds the
  daemon of that network and of no other; or no runtime is returned at all, which happens only when
  the type of the transport is blank.
\<close>

theorem runtime_ready:
  assumes "EnsureRuntime fuel os t w = Some (Inr r, w')"
  shows "ValidateTransport (NormalizeTransport t) = Inr () \<and>
    (case r of
       Some rt \<Rightarrow> transport rt = NormalizeTransport t \<and>
         (Type (transport rt) = TransportTorRelayOnly \<and> CheckSOCKS5 os w' (TorSOCKS5 (transport rt)) = Inr () \<and>
            tor rt \<noteq> None \<and> i2p rt = None \<or>
          Type (transport rt) = TransportI2PDatagram \<and> samCheck os w' (I2PSAM (transport rt)) \<and>
            i2p rt \<noteq> None \<and> tor rt = None)
     | None \<Rightarrow> Type (NormalizeTransport t) = [] \<and> w' = w)"
proof -
  let ?t = "NormalizeTransport t"
  from assms have val: "ValidateTransport ?t = Inr ()"
    by (auto simp: EnsureRuntime_def Let_def split: sum.splits)
  have blank: "Type ?t = TransportTorRelayOnly \<or> Type ?t = TransportI2PDatagram \<or> Type ?t = []"
  proof (cases "Type ?t = []")
    case False
    then have "NormalizeTransport ?t = ?t" by (rule NormalizeTransport_idem)
    with val show ?thesis by (auto simp: ValidateTransport_def Let_def split: if_splits)
  qed simp
  have idem: "Type ?t \<noteq> [] \<Longrightarrow> NormalizeTransport ?t = ?t" by (rule NormalizeTransport_idem)
  show ?thesis
    using assms val blank idem EnsureTorDaemon_ready [of fuel os ?t w _ w'] EnsureI2PDaemon_ready [of fuel os ?t w _ w']
    by (auto simp: EnsureRuntime_def Let_def split: sum.splits option.splits if_splits prod.splits)
qed

theorem runtime_ready_witness:
  "\<exists>rt w'. EnsureRuntime 1 sample_os DefaultTransport ([], False) = Some (Inr (Some rt), w') \<and>
     CheckSOCKS5 sample_os w' (TorSOCKS5 (transport rt)) = Inr () \<and> Started (Some rt)"
proof -
  have "case EnsureRuntime 1 sample_os DefaultTransport ([], False) of
      Some (Inr (Some rt), w') \<Rightarrow> Started (Some rt) \<and> Type (transport rt) \<noteq> TransportI2PDatagram | _ \<Rightarrow> False"
    by code_simp
  then obtain rt w' where r: "EnsureRuntime 1 sample_os DefaultTransport ([], False) = Some (Inr (Some rt), w')"
    and "Started (Some rt)" "Type (transport rt) \<noteq> TransportI2PDatagram"
    by (auto split: option.splits prod.splits sum.splits)
  with runtime_ready [OF r] show ?thesis by auto
qed

lemma blank_transport_no_runtime:
  "EnsureRuntime fuel os (TransportConfig0\<lparr> Type := '' '' \<rparr>) w = Some (Inr None, w)"
proof -
  have "ValidateTransport (NormalizeTransport (TransportConfig0\<lparr> Type := '' '' \<rparr>)) = Inr ()"
    "Type (NormalizeTransport (TransportConfig0\<lparr> Type := '' '' \<rparr>)) = []" by code_simp+
  then show ?thesis by (simp add: EnsureRuntime_def Let_def)
qed

section \<open>Termination and quoting\<close>

text \<open>The loops return as soon as the clock or the program ends the wait: fuel beyond the ticks is enough.\<close>

fun only_ticks :: "nat \<Rightarrow> 'w os \<Rightarrow> 'w \<Rightarrow> bool" where
  "only_ticks 0 os w = True"
| "only_ticks (Suc n) os w = (case nextEvent os w of (Tick, w) \<Rightarrow> only_ticks n os w | _ \<Rightarrow> False)"

lemma wait_returns:
  "\<not> only_ticks n os w \<Longrightarrow> waitForTor n os addr d ready w \<noteq> None"
  "\<not> only_ticks n os w \<Longrightarrow> waitForI2PSAM n os addr w \<noteq> None"
proof -
  show "\<not> only_ticks n os w \<Longrightarrow> waitForTor n os addr d ready w \<noteq> None"
    by (induction n arbitrary: ready w) (auto simp: Let_def split: prod.splits wait_event.splits)
  show "\<not> only_ticks n os w \<Longrightarrow> waitForI2PSAM n os addr w \<noteq> None"
    by (induction n arbitrary: w) (auto split: prod.splits wait_event.splits)
qed

text \<open>Unquoting a quoted value of the Tor configuration gives the value back.\<close>

fun torrc_unescape :: "string \<Rightarrow> string option" where
  "torrc_unescape [] = None"
| "torrc_unescape (c # cs) =
     (if c = CHR 0x22 then (if cs = [] then Some [] else None)
      else if c = CHR 0x5C
      then (case cs of [] \<Rightarrow> None | x # rest \<Rightarrow> map_option ((#) x) (torrc_unescape rest))
      else map_option ((#) c) (torrc_unescape cs))"

lemma torrcQuote_roundtrip: "torrc_unescape (tl (torrcQuote v)) = Some v"
proof -
  have esc: "replace_char CHR 0x22 [CHR 0x5C, CHR 0x22] (replace_char CHR 0x5C [CHR 0x5C, CHR 0x5C] v) =
      concat (map (\<lambda>x. if x = CHR 0x5C then [CHR 0x5C, CHR 0x5C] else if x = CHR 0x22 then [CHR 0x5C, CHR 0x22] else [x]) v)" for v
    by (induction v) (simp_all add: replace_char_def)
  have "torrc_unescape (concat (map (\<lambda>x. if x = CHR 0x5C then [CHR 0x5C, CHR 0x5C]
      else if x = CHR 0x22 then [CHR 0x5C, CHR 0x22] else [x]) v) @ [CHR 0x22]) = Some v"
    by (induction v) auto
  then show ?thesis by (simp add: torrcQuote_def esc)
qed

end
