(* ===== verification/I2PSam.thy ===== *)
theory I2PSam
  imports GoStrings
begin

text \<open>
  The client of the I2P SAM bridge, \<open>shared/anonymous/i2psam\<close>: commands and replies, name lookup,
  destinations and streams (\<open>sam.go\<close>), and datagram sessions (\<open>datagram.go\<close>).

  A connection to the bridge is the text the bridge is going to send on it together with the lines
  sent so far; dialling yields such a connection or fails, so the dial results are arguments. Writing
  to a connection does not fail, deadlines do not expire, and random session identifiers are
  arguments. Payloads and texts are strings of bytes.
\<close>

section \<open>Constants and data\<close>

definition DefaultAddress :: string where "DefaultAddress = ''127.0.0.1:7656''"
definition DefaultTimeout :: int where "DefaultTimeout = 30000000000"
definition DefaultTunnelLength :: byte where "DefaultTunnelLength = 1"
definition DefaultTunnelQuantity :: byte where "DefaultTunnelQuantity = 3"
definition MaxTunnelLength :: byte where "MaxTunnelLength = 7"
definition MaxTunnelQuantity :: byte where "MaxTunnelQuantity = 16"
definition DatagramStyleRepliable :: string where "DatagramStyleRepliable = ''DATAGRAM''"
definition DatagramStyleRaw :: string where "DatagramStyleRaw = ''RAW''"
definition DefaultSAMUDPPort :: string where "DefaultSAMUDPPort = ''7655''"
definition DefaultRawProtocol :: byte where "DefaultRawProtocol = 18"
definition MaxRepliableDatagramLen :: nat where "MaxRepliableDatagramLen = 31744"
definition MaxRawDatagramLen :: nat where "MaxRawDatagramLen = 32768"

lemmas sam_consts = DefaultTunnelLength_def DefaultTunnelQuantity_def MaxTunnelLength_def MaxTunnelQuantity_def
  DatagramStyleRepliable_def DatagramStyleRaw_def DefaultRawProtocol_def MaxRepliableDatagramLen_def MaxRawDatagramLen_def

record conn =
  pending :: string
  sent :: "string list"

datatype sam_err = DialErr | ReadErr | NotOK string string | EmptyName | EmptyValue string | IncompleteReply string
  | BadNetwork string | EmptyDestination | BadPort string | BadDestination addr_err | BadLength byte
  | BadQuantity byte | NoSessionID | BadStyle string | ReservedProtocol byte | EmptyUDPAddress
  | EmptyPayload | PayloadTooLong string nat | MissingKey string | BadNumber string | ShortPayload | NilSession

record Reply =
  Raw :: string
  Values :: "(string, string) gmap"

section \<open>Commands and replies\<close>

definition sendCommand :: "string \<Rightarrow> conn \<Rightarrow> conn" where
  "sendCommand command c = c\<lparr> sent := sent c @ [command] \<rparr>"

record fields_state =
  split_fields :: "string list"
  current :: string
  quoted :: bool
  escaped :: bool

definition flush :: "fields_state \<Rightarrow> fields_state" where
  "flush s = (if current s \<noteq> [] then s\<lparr> split_fields := split_fields s @ [current s], current := [] \<rparr> else s)"

definition fields_step :: "fields_state \<Rightarrow> char \<Rightarrow> fields_state" where
  "fields_step s r =
     (if escaped s then s\<lparr> current := current s @ [r], escaped := False \<rparr>
      else if quoted s \<and> r = CHR 0x5C then s\<lparr> escaped := True \<rparr>
      else if r = CHR 0x22 then s\<lparr> quoted := \<not> quoted s \<rparr>
      else if is_space r \<and> \<not> quoted s then flush s
      else s\<lparr> current := current s @ [r] \<rparr>)"

definition splitFields :: "string \<Rightarrow> string list" where
  "splitFields line =
     split_fields (flush (foldl fields_step \<lparr> split_fields = [], current = [], quoted = False, escaped = False \<rparr> line))"

definition reply_values :: "string list \<Rightarrow> (string, string) gmap" where
  "reply_values fs = foldl (\<lambda>m f. case Cut CHR ''='' f of
     (key, val, ok) \<Rightarrow> if ok then gput (ToUpper key) val m else m) [] fs"

definition parse_reply :: "string \<Rightarrow> Reply" where
  "parse_reply line = (let l = TrimSpace line in \<lparr> Raw = l, Values = reply_values (splitFields l) \<rparr>)"

definition readReply :: "conn \<Rightarrow> (sam_err + Reply) \<times> conn" where
  "readReply c =
     (case index_of CHR 0x0A (pending c) of
        None \<Rightarrow> (Inl ReadErr, c\<lparr> pending := [] \<rparr>)
      | Some i \<Rightarrow> (Inr (parse_reply (take (i + 1) (pending c))), c\<lparr> pending := drop (i + 1) (pending c) \<rparr>))"

definition reply_get :: "Reply \<Rightarrow> string \<Rightarrow> string" where
  "reply_get r key = (case gget (Values r) key of None \<Rightarrow> [] | Some v \<Rightarrow> v)"

definition Reply_OK :: "Reply \<Rightarrow> sam_err + unit" where
  "Reply_OK r =
     (if EqualFold (reply_get r ''RESULT'') ''OK'' then Inr ()
      else Inl (NotOK (if reply_get r ''RESULT'' = [] then ''UNKNOWN'' else reply_get r ''RESULT'')
                      (if reply_get r ''MESSAGE'' = [] then Raw r else reply_get r ''MESSAGE'')))"

definition expectOK :: "conn \<Rightarrow> (sam_err + Reply) \<times> conn" where
  "expectOK c = (case readReply c of
     (Inl e, c) \<Rightarrow> (Inl e, c)
   | (Inr r, c) \<Rightarrow> (case Reply_OK r of Inl e \<Rightarrow> (Inl e, c) | Inr _ \<Rightarrow> (Inr r, c)))"

definition hello :: "conn \<Rightarrow> (sam_err + Reply) \<times> conn" where
  "hello c = expectOK (sendCommand ''HELLO VERSION MIN=3.0 MAX=3.3'' c)"

section \<open>Lookups, destinations and streams\<close>

definition sam_address :: "string \<Rightarrow> string" where
  "sam_address a = (if TrimSpace a = [] then DefaultAddress else a)"

definition Check :: "conn option \<Rightarrow> (sam_err + unit) \<times> conn option" where
  "Check dial = (case dial of
     None \<Rightarrow> (Inl DialErr, None)
   | Some c \<Rightarrow> (case hello c of (Inl e, c) \<Rightarrow> (Inl e, Some c) | (Inr _, c) \<Rightarrow> (Inr (), Some c)))"

definition GenerateDestination :: "conn option \<Rightarrow> (sam_err + string \<times> string) \<times> conn option" where
  "GenerateDestination dial = (case dial of
     None \<Rightarrow> (Inl DialErr, None)
   | Some c \<Rightarrow>
       (case hello c of
          (Inl e, c) \<Rightarrow> (Inl e, Some c)
        | (Inr _, c) \<Rightarrow>
            (case readReply (sendCommand ''DEST GENERATE SIGNATURE_TYPE=7'' c) of
               (Inl e, c) \<Rightarrow> (Inl e, Some c)
             | (Inr reply, c) \<Rightarrow>
                 (let pub = TrimSpace (reply_get reply ''PUB''); priv = TrimSpace (reply_get reply ''PRIV'')
                  in if pub = [] \<or> priv = [] then (Inl (IncompleteReply (Raw reply)), Some c)
                     else (Inr (pub, priv), Some c)))))"

definition Lookup :: "conn option \<Rightarrow> string \<Rightarrow> (sam_err + string) \<times> conn option" where
  "Lookup dial name0 =
     (let name = TrimSpace name0
      in if name = [] then (Inl EmptyName, dial)
         else case dial of
           None \<Rightarrow> (Inl DialErr, None)
         | Some c \<Rightarrow>
             (case hello c of
                (Inl e, c) \<Rightarrow> (Inl e, Some c)
              | (Inr _, c) \<Rightarrow>
                  (case expectOK (sendCommand (''NAMING LOOKUP NAME='' @ name) c) of
                     (Inl e, c) \<Rightarrow> (Inl e, Some c)
                   | (Inr reply, c) \<Rightarrow>
                       (let val = TrimSpace (reply_get reply ''VALUE'')
                        in if val = [] then (Inl (EmptyValue name), Some c) else (Inr val, Some c)))))"

definition u8 :: "byte \<Rightarrow> string" where "u8 b = FormatUint (uint b)"

definition sessionTunnelOptions :: "byte \<Rightarrow> byte \<Rightarrow> string list" where
  "sessionTunnelOptions tunnelLength tunnelQuantity =
     (let l = (if tunnelLength = 0 then DefaultTunnelLength else tunnelLength);
          q = (if tunnelQuantity = 0 then DefaultTunnelQuantity else tunnelQuantity)
      in [''inbound.length='' @ u8 l, ''outbound.length='' @ u8 l,
          ''inbound.quantity='' @ u8 q, ''outbound.quantity='' @ u8 q])"

definition validateTunnelSettings :: "byte \<Rightarrow> byte \<Rightarrow> sam_err + unit" where
  "validateTunnelSettings tunnelLength tunnelQuantity =
     (if tunnelLength > MaxTunnelLength then Inl (BadLength tunnelLength)
      else if tunnelQuantity > MaxTunnelQuantity then Inl (BadQuantity tunnelQuantity)
      else Inr ())"

definition hasOptionPrefix :: "string list \<Rightarrow> string \<Rightarrow> bool" where
  "hasOptionPrefix options prefix = list_ex (\<lambda>x. HasPrefix x prefix) options"

definition option_default :: "string list \<Rightarrow> string \<Rightarrow> byte \<Rightarrow> string" where
  "option_default options prefix d = (if \<not> hasOptionPrefix options prefix then '' '' @ prefix @ u8 d else [])"

definition sessionCreateCommandWithDestination :: "string \<Rightarrow> string \<Rightarrow> string \<Rightarrow> string list \<Rightarrow> string" where
  "sessionCreateCommandWithDestination style sessionID destination options =
     (let destination = (if TrimSpace destination = [] then ''TRANSIENT'' else destination)
      in ''SESSION CREATE STYLE='' @ style @ '' ID='' @ sessionID @ '' DESTINATION='' @ destination @ '' SIGNATURE_TYPE=7'' @
         option_default options ''inbound.length='' DefaultTunnelLength @
         option_default options ''outbound.length='' DefaultTunnelLength @
         option_default options ''inbound.quantity='' DefaultTunnelQuantity @
         option_default options ''outbound.quantity='' DefaultTunnelQuantity @
         (if 0 < length options then '' '' @ Join '' '' options else []))"

definition sessionCreateCommand :: "string \<Rightarrow> string \<Rightarrow> string list \<Rightarrow> string" where
  "sessionCreateCommand style sessionID options =
     sessionCreateCommandWithDestination style sessionID ''TRANSIENT'' options"

definition splitDestination :: "string \<Rightarrow> sam_err + string \<times> string" where
  "splitDestination address0 =
     (let address = TrimSpace address0
      in if address = [] then Inl EmptyDestination
         else case SplitHostPort address of
                Inr (host, port) \<Rightarrow>
                  if port \<noteq> [] \<and> ParseUint 16 port = None then Inl (BadPort port)
                  else Inr (Trim host ''[]'', port)
              | Inl MissingPort \<Rightarrow> Inr (Trim address ''[]'', [])
              | Inl e \<Rightarrow> Inl (BadDestination e))"

text \<open>A stream uses a control and a data connection; on failure both are closed.\<close>

definition dialStream :: "conn option \<Rightarrow> conn option \<Rightarrow> string \<Rightarrow> string \<Rightarrow> byte \<Rightarrow> byte \<Rightarrow> sam_err + conn \<times> conn" where
  "dialStream dialControl dialData sessionID address tunnelLength tunnelQuantity =
     (case splitDestination address of
        Inl e \<Rightarrow> Inl e
      | Inr (destination, toPort) \<Rightarrow>
          (case dialControl of
             None \<Rightarrow> Inl DialErr
           | Some control \<Rightarrow>
          (case hello control of
             (Inl e, _) \<Rightarrow> Inl e
           | (Inr _, control) \<Rightarrow>
          (case expectOK (sendCommand (sessionCreateCommand ''STREAM'' sessionID
                  (sessionTunnelOptions tunnelLength tunnelQuantity)) control) of
             (Inl e, _) \<Rightarrow> Inl e
           | (Inr _, control) \<Rightarrow>
          (case dialData of
             None \<Rightarrow> Inl DialErr
           | Some data \<Rightarrow>
          (case hello data of
             (Inl e, _) \<Rightarrow> Inl e
           | (Inr _, data) \<Rightarrow>
          (case expectOK (sendCommand (''STREAM CONNECT ID='' @ sessionID @ '' DESTINATION='' @ destination @ '' SILENT=false'' @
                  (if toPort \<noteq> [] then '' TO_PORT='' @ toPort else [])) data) of
             (Inl e, _) \<Rightarrow> Inl e
           | (Inr _, data) \<Rightarrow> Inr (data, control))))))))"

definition DialContext ::
    "conn option \<Rightarrow> conn option \<Rightarrow> string \<Rightarrow> string \<Rightarrow> string \<Rightarrow> byte \<Rightarrow> byte \<Rightarrow> sam_err + conn \<times> conn" where
  "DialContext dialControl dialData sessionID network address tunnelLength tunnelQuantity =
     (if network \<noteq> ''tcp'' then Inl (BadNetwork network)
      else case validateTunnelSettings tunnelLength tunnelQuantity of
             Inl e \<Rightarrow> Inl e
           | Inr _ \<Rightarrow> dialStream dialControl dialData sessionID address tunnelLength tunnelQuantity)"

section \<open>Datagram sessions\<close>

record DatagramConfig =
  SAMAddress :: string
  SAMUDPAddress :: string
  Timeout :: int
  Style :: string
  SessionID :: string
  PrivateKey :: string
  FromPort :: u16
  ToPort :: u16
  Protocol :: byte
  InboundLength :: byte
  OutboundLength :: byte
  InboundQuantity :: byte
  OutboundQuantity :: byte

record Datagram =
  Source :: string
  dgPayload :: string
  dgFromPort :: u16
  dgToPort :: u16
  dgProtocol :: byte
  AnonymousRaw :: bool

record DatagramSession =
  ds_id :: string
  ds_style :: string
  control :: conn
  udp :: "string list"

definition protocolIsDisallowedForRaw :: "byte \<Rightarrow> bool" where
  "protocolIsDisallowedForRaw p = (p \<in> {6, 17, 19, 20})"

definition defaultSAMUDPAddress :: "string \<Rightarrow> string" where
  "defaultSAMUDPAddress samAddress =
     (let host = (case SplitHostPort samAddress of Inl _ \<Rightarrow> [] | Inr (h, _) \<Rightarrow> h)
      in JoinHostPort (if TrimSpace host = [] then ''127.0.0.1'' else host) DefaultSAMUDPPort)"

text \<open>The random identifier may fail to be generated.\<close>

definition normalizeDatagramConfig :: "string option \<Rightarrow> DatagramConfig \<Rightarrow> DatagramConfig" where
  "normalizeDatagramConfig newID cfg =
     (let sam = sam_address (SAMAddress cfg);
          style = ToUpper (TrimSpace (Style cfg));
          or0 = (\<lambda>d x :: byte. if x = 0 then d else x)
      in cfg\<lparr> SAMAddress := sam, Timeout := (if Timeout cfg \<le> 0 then DefaultTimeout else Timeout cfg),
           Style := (if style = [] then DatagramStyleRaw else style),
           SessionID := (if TrimSpace (SessionID cfg) = []
                         then (case newID of None \<Rightarrow> SessionID cfg | Some i \<Rightarrow> i) else SessionID cfg),
           SAMUDPAddress := (if TrimSpace (SAMUDPAddress cfg) = [] then defaultSAMUDPAddress sam else SAMUDPAddress cfg),
           Protocol := or0 DefaultRawProtocol (Protocol cfg),
           InboundLength := or0 DefaultTunnelLength (InboundLength cfg),
           OutboundLength := or0 DefaultTunnelLength (OutboundLength cfg),
           InboundQuantity := or0 DefaultTunnelQuantity (InboundQuantity cfg),
           OutboundQuantity := or0 DefaultTunnelQuantity (OutboundQuantity cfg) \<rparr>)"

definition validateDatagramConfig :: "DatagramConfig \<Rightarrow> sam_err + unit" where
  "validateDatagramConfig cfg =
     (if TrimSpace (SessionID cfg) = [] then Inl NoSessionID
      else if Style cfg \<noteq> DatagramStyleRepliable \<and> Style cfg \<noteq> DatagramStyleRaw then Inl (BadStyle (Style cfg))
      else if Style cfg = DatagramStyleRaw \<and> protocolIsDisallowedForRaw (Protocol cfg)
      then Inl (ReservedProtocol (Protocol cfg))
      else case validateTunnelSettings (InboundLength cfg) (InboundQuantity cfg) of
             Inl e \<Rightarrow> Inl e
           | Inr _ \<Rightarrow>
               (case validateTunnelSettings (OutboundLength cfg) (OutboundQuantity cfg) of
                  Inl e \<Rightarrow> Inl e
                | Inr _ \<Rightarrow> if TrimSpace (SAMUDPAddress cfg) = [] then Inl EmptyUDPAddress else Inr ()))"

definition datagram_options :: "DatagramConfig \<Rightarrow> string list" where
  "datagram_options cfg =
     [''inbound.length='' @ u8 (InboundLength cfg), ''outbound.length='' @ u8 (OutboundLength cfg),
      ''inbound.quantity='' @ u8 (InboundQuantity cfg), ''outbound.quantity='' @ u8 (OutboundQuantity cfg)] @
     (if FromPort cfg \<noteq> 0 then [''FROM_PORT='' @ FormatUint (uint (FromPort cfg))] else []) @
     (if ToPort cfg \<noteq> 0 then [''TO_PORT='' @ FormatUint (uint (ToPort cfg))] else []) @
     (if Style cfg = DatagramStyleRaw \<and> Protocol cfg \<noteq> 0 then [''PROTOCOL='' @ u8 (Protocol cfg)] else [])"

definition datagramSessionCreateCommand :: "DatagramConfig \<Rightarrow> string" where
  "datagramSessionCreateCommand cfg =
     (let destination = (if TrimSpace (PrivateKey cfg) = [] then ''TRANSIENT'' else TrimSpace (PrivateKey cfg))
      in sessionCreateCommandWithDestination (Style cfg) (SessionID cfg) destination (datagram_options cfg))"

definition NewDatagramSession ::
    "string option \<Rightarrow> conn option \<Rightarrow> bool \<Rightarrow> DatagramConfig \<Rightarrow> sam_err + DatagramSession" where
  "NewDatagramSession newID dialControl udpOK cfg0 =
     (let cfg = normalizeDatagramConfig newID cfg0
      in case validateDatagramConfig cfg of
           Inl e \<Rightarrow> Inl e
         | Inr _ \<Rightarrow>
        (case dialControl of
           None \<Rightarrow> Inl DialErr
         | Some c \<Rightarrow>
        (case hello c of
           (Inl e, _) \<Rightarrow> Inl e
         | (Inr _, c) \<Rightarrow>
        (case expectOK (sendCommand (datagramSessionCreateCommand cfg) c) of
           (Inl e, _) \<Rightarrow> Inl e
         | (Inr _, c) \<Rightarrow>
             if \<not> udpOK then Inl DialErr
             else Inr \<lparr> ds_id = SessionID cfg, ds_style = Style cfg, control = c, udp = [] \<rparr>))))"

definition validateDatagramPayload :: "string \<Rightarrow> nat \<Rightarrow> sam_err + unit" where
  "validateDatagramPayload style n =
     (let limit = (if style = DatagramStyleRaw then MaxRawDatagramLen else MaxRepliableDatagramLen)
      in if n < 1 then Inl EmptyPayload
         else if n > limit then Inl (PayloadTooLong style n)
         else Inr ())"

record SendOptions =
  optFromPort :: u16
  optToPort :: u16
  optProtocol :: byte

definition datagram_header :: "DatagramSession \<Rightarrow> string \<Rightarrow> SendOptions \<Rightarrow> string" where
  "datagram_header s destination opts =
     ''3.0 '' @ ds_id s @ '' '' @ destination @
     (if optFromPort opts \<noteq> 0 then '' FROM_PORT='' @ FormatUint (uint (optFromPort opts)) else []) @
     (if optToPort opts \<noteq> 0 then '' TO_PORT='' @ FormatUint (uint (optToPort opts)) else []) @
     (if ds_style s = DatagramStyleRaw
      then '' PROTOCOL='' @ u8 (if optProtocol opts = 0 then DefaultRawProtocol else optProtocol opts) else [])"

definition Send :: "string \<Rightarrow> string \<Rightarrow> SendOptions \<Rightarrow> DatagramSession \<Rightarrow> (sam_err + unit) \<times> DatagramSession" where
  "Send destination0 payload opts s =
     (let destination = TrimSpace destination0
      in if destination = [] then (Inl EmptyDestination, s)
         else case validateDatagramPayload (ds_style s) (length payload) of
                Inl e \<Rightarrow> (Inl e, s)
              | Inr _ \<Rightarrow>
                  if ds_style s = DatagramStyleRaw \<and> optProtocol opts \<noteq> 0 \<and> protocolIsDisallowedForRaw (optProtocol opts)
                  then (Inl (ReservedProtocol (optProtocol opts)), s)
                  else (Inr (), s\<lparr> udp := udp s @ [datagram_header s destination opts @ [CHR 0x0A] @ payload] \<rparr>))"

definition parseReplyUint16 :: "Reply \<Rightarrow> string \<Rightarrow> sam_err + u16" where
  "parseReplyUint16 reply key =
     (let val = TrimSpace (reply_get reply key)
      in if val = [] then Inl (MissingKey key)
         else case ParseUint 16 val of None \<Rightarrow> Inl (BadNumber val) | Some n \<Rightarrow> Inr (of_int n))"

definition parseOptionalPort :: "Reply \<Rightarrow> string \<Rightarrow> u16" where
  "parseOptionalPort reply key = (case parseReplyUint16 reply key of Inl _ \<Rightarrow> 0 | Inr p \<Rightarrow> p)"

definition parseOptionalProtocol :: "Reply \<Rightarrow> byte" where
  "parseOptionalProtocol reply =
     (case ParseUint 8 (TrimSpace (reply_get reply ''PROTOCOL'')) of None \<Rightarrow> 0 | Some n \<Rightarrow> of_int n)"

definition Receive :: "DatagramSession \<Rightarrow> (sam_err + Datagram) \<times> DatagramSession" where
  "Receive s =
     (case readReply (control s) of
        (Inl e, c) \<Rightarrow> (Inl e, s\<lparr> control := c \<rparr>)
      | (Inr reply, c) \<Rightarrow>
          (case parseReplyUint16 reply ''SIZE'' of
             Inl e \<Rightarrow> (Inl e, s\<lparr> control := c \<rparr>)
           | Inr sz \<Rightarrow>
               (case validateDatagramPayload (ds_style s) (unat sz) of
                  Inl e \<Rightarrow> (Inl e, s\<lparr> control := c \<rparr>)
                | Inr _ \<Rightarrow>
                    if length (pending c) < unat sz then (Inl ShortPayload, s\<lparr> control := c\<lparr> pending := [] \<rparr> \<rparr>)
                    else (Inr \<lparr> Source = reply_get reply ''DESTINATION'', dgPayload = take (unat sz) (pending c),
                                dgFromPort = parseOptionalPort reply ''FROM_PORT'', dgToPort = parseOptionalPort reply ''TO_PORT'',
                                dgProtocol = parseOptionalProtocol reply,
                                AnonymousRaw = (HasPrefix (ToUpper (Raw reply)) ''RAW RECEIVED'' \<and>
                                  \<not> HasPrefix (ToUpper (Raw reply)) ''DATAGRAM RECEIVED'') \<rparr>,
                          s\<lparr> control := c\<lparr> pending := drop (unat sz) (pending c) \<rparr> \<rparr>))))"

section \<open>Fields\<close>

text \<open>A plain field has no white space and no quote; joining plain fields by blanks and splitting gives them back.\<close>

definition plain :: "string \<Rightarrow> bool" where
  "plain f = list_all (\<lambda>c. \<not> is_space c \<and> c \<noteq> CHR 0x22) f"

abbreviation scan :: "string list \<Rightarrow> string \<Rightarrow> fields_state" where
  "scan fs cur \<equiv> \<lparr> split_fields = fs, current = cur, quoted = False, escaped = False \<rparr>"

lemma scan_plain: "plain f \<Longrightarrow> foldl fields_step (scan fs cur) f = scan fs (cur @ f)"
  by (induction f arbitrary: cur) (simp_all add: plain_def fields_step_def)

lemma scan_blank: "fields_step (scan fs cur) CHR '' '' = scan (if cur \<noteq> [] then fs @ [cur] else fs) []"
  by (simp add: fields_step_def flush_def is_space_def)

lemma scan_Join:
  "list_all (\<lambda>f. f \<noteq> [] \<and> plain f) gs \<Longrightarrow> gs \<noteq> [] \<Longrightarrow>
   flush (foldl fields_step (scan fs []) (Join '' '' gs)) = scan (fs @ gs) []"
proof (induction gs arbitrary: fs rule: induct_list012)
  case (2 x)
  then show ?case by (simp add: scan_plain flush_def)
next
  case (3 x y zs)
  have "foldl fields_step (scan fs []) (Join '' '' (x # y # zs)) =
      foldl fields_step (scan (fs @ [x]) []) (Join '' '' (y # zs))"
    using 3(3) by (simp add: scan_plain scan_blank)
  then show ?case using 3 by simp
qed simp

lemma splitFields_Join:
  "list_all (\<lambda>f. f \<noteq> [] \<and> plain f) gs \<Longrightarrow> splitFields (Join '' '' gs) = gs"
  by (cases "gs = []") (simp add: splitFields_def flush_def, simp add: splitFields_def scan_Join)

lemma Join_append: "xs \<noteq> [] \<Longrightarrow> ys \<noteq> [] \<Longrightarrow> Join sep (xs @ ys) = Join sep xs @ sep @ Join sep ys"
proof (induction xs rule: induct_list012)
  case (2 x)
  then show ?case by (cases ys) simp_all
qed simp_all

lemma Join_Cons: "ys \<noteq> [] \<Longrightarrow> Join sep (x # ys) = x @ sep @ Join sep ys"
  by (cases ys) simp_all

lemma plain_Nil [simp]: "plain []"
  by (simp add: plain_def)

lemma plain_Cons [simp]: "plain (c # f) = (\<not> is_space c \<and> c \<noteq> CHR 0x22 \<and> plain f)"
  by (simp add: plain_def)

lemma plain_append [simp]: "plain (f @ g) = (plain f \<and> plain g)"
  by (simp add: plain_def)

lemma plain_newline: "plain f \<Longrightarrow> CHR 0x0A \<notin> set f"
  by (induction f) (auto simp: is_space_def)

lemma newline_Join: "list_all (\<lambda>f. f \<noteq> [] \<and> plain f) gs \<Longrightarrow> CHR 0x0A \<notin> set (Join '' '' gs)"
  by (induction gs rule: induct_list012) (simp_all add: plain_newline)

lemma digit_plain: "is_digit c \<Longrightarrow> \<not> is_space c \<and> c \<noteq> CHR 0x22 \<and> c \<noteq> CHR ''='' \<and> c \<noteq> CHR 0x0A"
  by (auto simp: is_digit_def is_space_def)

lemma plain_FormatUint [simp]: "0 \<le> n \<Longrightarrow> plain (FormatUint n)"
  using is_digit_FormatUint [of n] digit_plain unfolding plain_def by (auto simp: list_all_iff)

lemma plain_u8 [simp]: "plain (u8 b)"
  by (simp add: u8_def)

text \<open>
  The session command says what the configuration says. For every configuration that passed
  validation, whose style, identifier and key are plain words, the command that creates the session is
  one line, and split by the rules of the protocol it is exactly the style, the identifier, the
  destination (transient without a key), the signature type and the tunnel and port options, each
  once: no field can run into another or be overridden by a default.
\<close>

theorem session_command_fields:
  assumes "plain (Style cfg)" and "plain (SessionID cfg)" and "plain (TrimSpace (PrivateKey cfg))"
  shows "splitFields (datagramSessionCreateCommand cfg) =
    [''SESSION'', ''CREATE'', ''STYLE='' @ Style cfg, ''ID='' @ SessionID cfg,
     ''DESTINATION='' @ (if TrimSpace (PrivateKey cfg) = [] then ''TRANSIENT'' else TrimSpace (PrivateKey cfg)),
     ''SIGNATURE_TYPE=7''] @ datagram_options cfg \<and>
    CHR 0x0A \<notin> set (datagramSessionCreateCommand cfg)"
proof -
  let ?d = "if TrimSpace (PrivateKey cfg) = [] then ''TRANSIENT'' else TrimSpace (PrivateKey cfg)"
  let ?head = "[''SESSION'', ''CREATE'', ''STYLE='' @ Style cfg, ''ID='' @ SessionID cfg, ''DESTINATION='' @ ?d, ''SIGNATURE_TYPE=7'']"
  have opts: "list_all (\<lambda>f. f \<noteq> [] \<and> plain f) (datagram_options cfg)" "datagram_options cfg \<noteq> []"
    by (simp_all add: datagram_options_def is_space_def)
  have pre: "hasOptionPrefix (datagram_options cfg) p"
    if "p \<in> {''inbound.length='', ''outbound.length='', ''inbound.quantity='', ''outbound.quantity=''}" for p
    using that by (auto simp: hasOptionPrefix_def datagram_options_def HasPrefix_def)
  have "TrimSpace ''TRANSIENT'' = ''TRANSIENT''" by code_simp
  then have d: "TrimSpace ?d \<noteq> []" by simp
  have cmd: "datagramSessionCreateCommand cfg = Join '' '' (?head @ datagram_options cfg)"
    using d opts(2) pre
    by (simp add: datagramSessionCreateCommand_def sessionCreateCommandWithDestination_def option_default_def
        Join_Cons Let_def)
  have head: "list_all (\<lambda>f. f \<noteq> [] \<and> plain f) ?head"
    using assms by (simp add: is_space_def)
  have "splitFields (datagramSessionCreateCommand cfg) = ?head @ datagram_options cfg"
    unfolding cmd by (rule splitFields_Join) (use head opts(1) in simp)
  moreover have "CHR 0x0A \<notin> set (datagramSessionCreateCommand cfg)"
    unfolding cmd by (rule newline_Join) (use head opts(1) in simp)
  ultimately show ?thesis by simp
qed

definition sample_datagram_config :: DatagramConfig where
  "sample_datagram_config = \<lparr> SAMAddress = DefaultAddress, SAMUDPAddress = ''127.0.0.1:7655'', Timeout = 1,
     Style = DatagramStyleRaw, SessionID = ''anonbird-1'', PrivateKey = '' key '', FromPort = 7, ToPort = 0,
     Protocol = 18, InboundLength = 1, OutboundLength = 2, InboundQuantity = 3, OutboundQuantity = 3 \<rparr>"

theorem session_command_fields_witness:
  "splitFields (datagramSessionCreateCommand sample_datagram_config) =
     [''SESSION'', ''CREATE'', ''STYLE=RAW'', ''ID=anonbird-1'', ''DESTINATION=key'', ''SIGNATURE_TYPE=7''] @
     datagram_options sample_datagram_config"
proof -
  have c: "Style sample_datagram_config = ''RAW''" "SessionID sample_datagram_config = ''anonbird-1''"
    "TrimSpace (PrivateKey sample_datagram_config) = ''key''" by code_simp+
  then show ?thesis using session_command_fields [of sample_datagram_config] by (simp add: is_space_def)
qed

section \<open>Received datagrams\<close>

text \<open>The line with which the bridge announces a datagram, followed by its payload.\<close>

definition bridge_fields :: "Datagram \<Rightarrow> string list" where
  "bridge_fields d =
     (if AnonymousRaw d then [''RAW'', ''RECEIVED''] else [''DATAGRAM'', ''RECEIVED'', ''DESTINATION='' @ Source d]) @
       [''SIZE='' @ FormatUint (int (length (dgPayload d))), ''FROM_PORT='' @ FormatUint (uint (dgFromPort d)),
        ''TO_PORT='' @ FormatUint (uint (dgToPort d))] @ (if AnonymousRaw d then [''PROTOCOL='' @ u8 (dgProtocol d)] else [])"

definition bridge_line :: "Datagram \<Rightarrow> string" where
  "bridge_line d = Join '' '' (bridge_fields d)"

definition bridge_datagram :: "Datagram \<Rightarrow> string" where
  "bridge_datagram d = bridge_line d @ [CHR 0x0A] @ dgPayload d"

lemma TrimSpace_line:
  "l \<noteq> [] \<Longrightarrow> \<not> is_space (hd l) \<Longrightarrow> \<not> is_space (last l) \<Longrightarrow> TrimSpace (l @ [CHR 0x0A]) = l"
proof -
  assume l: "l \<noteq> []" "\<not> is_space (hd l)" "\<not> is_space (last l)"
  have "dropWhile is_space (l @ [CHR 0x0A]) = l @ [CHR 0x0A]" using l by (cases l) auto
  moreover have "dropWhile is_space (CHR 0x0A # rev l) = rev l"
    using l by (cases l rule: rev_cases) (auto simp: is_space_def)
  ultimately show ?thesis by (simp add: TrimSpace_def trim_by_def)
qed

lemma Join_snoc_last: "Join sep (xs @ [x]) = (if xs = [] then x else Join sep xs @ sep @ x)"
  using Join_append [of xs "[x]" sep] by simp

lemma index_of_append: "c \<notin> set xs \<Longrightarrow> index_of c (xs @ c # ys) = Some (length xs)"
  by (induction xs) auto

lemma Cut_append: "c \<notin> set xs \<Longrightarrow> Cut c (xs @ c # ys) = (xs, ys, True)"
  by (simp add: Cut_def index_of_append)

lemma plain_ends: "plain f \<Longrightarrow> TrimSpace f = f"
proof -
  assume "plain f"
  then have "f = [] \<or> \<not> is_space (hd f) \<and> \<not> is_space (last f)"
    unfolding plain_def list_all_iff by (metis hd_in_set last_in_set)
  then show ?thesis unfolding TrimSpace_def by (rule trim_by_id)
qed

lemma bridge_fields_plain: "plain (Source d) \<Longrightarrow> list_all (\<lambda>f. f \<noteq> [] \<and> plain f) (bridge_fields d)"
  by (simp add: bridge_fields_def is_space_def)

lemmas reply_eval = reply_get_def reply_values_def Cut_def ToUpper_def upper_char_def is_lower_def

lemma bridge_values:
  "gget (reply_values (bridge_fields d)) ''SIZE'' = Some (FormatUint (int (length (dgPayload d))))"
  "gget (reply_values (bridge_fields d)) ''FROM_PORT'' = Some (FormatUint (uint (dgFromPort d)))"
  "gget (reply_values (bridge_fields d)) ''TO_PORT'' = Some (FormatUint (uint (dgToPort d)))"
  "gget (reply_values (bridge_fields d)) ''PROTOCOL'' = (if AnonymousRaw d then Some (u8 (dgProtocol d)) else None)"
  "gget (reply_values (bridge_fields d)) ''DESTINATION'' = (if AnonymousRaw d then None else Some (Source d))"
  by (simp_all add: bridge_fields_def reply_eval)

lemma bridge_line_ends:
  assumes "plain (Source d)"
  shows "bridge_line d \<noteq> []" "\<not> is_space (hd (bridge_line d))" "\<not> is_space (last (bridge_line d))"
    "CHR 0x0A \<notin> set (bridge_line d)" "HasPrefix (ToUpper (bridge_line d)) ''RAW RECEIVED'' = AnonymousRaw d"
    "\<not> (AnonymousRaw d \<and> HasPrefix (ToUpper (bridge_line d)) ''DATAGRAM RECEIVED'')"
proof -
  have ne: "FormatUint n \<noteq> []" for n by (simp add: FormatUint_ne)
  have "\<not> is_space (last (FormatUint n))" if "0 \<le> n" for n
    using plain_FormatUint [OF that] ne [of n] unfolding plain_def list_all_iff by (metis last_in_set)
  then show "bridge_line d \<noteq> []" "\<not> is_space (hd (bridge_line d))" "\<not> is_space (last (bridge_line d))"
    "HasPrefix (ToUpper (bridge_line d)) ''RAW RECEIVED'' = AnonymousRaw d"
    "\<not> (AnonymousRaw d \<and> HasPrefix (ToUpper (bridge_line d)) ''DATAGRAM RECEIVED'')"
    using ne by (simp_all add: bridge_line_def bridge_fields_def u8_def is_space_def HasPrefix_def ToUpper_def
        upper_char_def is_lower_def)
  show "CHR 0x0A \<notin> set (bridge_line d)"
    unfolding bridge_line_def by (rule newline_Join [OF bridge_fields_plain [OF assms]])
qed

lemma bridge_reply:
  assumes "plain (Source d)"
  shows "readReply (c\<lparr> pending := bridge_datagram d @ rest \<rparr>) =
    (Inr \<lparr> Raw = bridge_line d, Values = reply_values (bridge_fields d) \<rparr>, c\<lparr> pending := dgPayload d @ rest \<rparr>)"
proof -
  note ends = bridge_line_ends [OF assms]
  have "index_of CHR 0x0A (bridge_line d @ CHR 0x0A # dgPayload d @ rest) = Some (length (bridge_line d))"
    by (rule index_of_append) (rule ends(4))
  moreover have "TrimSpace (bridge_line d @ [CHR 0x0A]) = bridge_line d" by (rule TrimSpace_line [OF ends(1-3)])
  moreover have "splitFields (bridge_line d) = bridge_fields d"
    unfolding bridge_line_def by (rule splitFields_Join [OF bridge_fields_plain [OF assms]])
  ultimately show ?thesis by (simp add: readReply_def bridge_datagram_def parse_reply_def)
qed

lemma ParseUint_Nil: "ParseUint bits [] = None"
  by (simp add: ParseUint_def)

lemma parse_number:
  "0 \<le> n \<Longrightarrow> n < 65536 \<Longrightarrow> gget (Values r) key = Some (FormatUint n) \<Longrightarrow> parseReplyUint16 r key = Inr (of_int n)"
  by (simp add: parseReplyUint16_def reply_get_def plain_ends ParseUint_FormatUint FormatUint_ne)

text \<open>
  C29. Datagrams survive the bridge. Whatever datagram the bridge announces and delivers on the control
  connection (anonymous raw, or repliable with a source that is a plain word) with a payload between
  one byte and the limit of the session's style, receiving it yields exactly that source, those ports,
  that protocol and those payload bytes, and leaves precisely the bytes that follow for the next
  datagram; the payload may contain any bytes, newlines and quotes included.
\<close>

theorem datagram_roundtrip:
  assumes "plain (Source d)" and "if AnonymousRaw d then Source d = [] else dgProtocol d = 0"
    and "1 \<le> length (dgPayload d)"
    and "length (dgPayload d) \<le> (if ds_style s = DatagramStyleRaw then MaxRawDatagramLen else MaxRepliableDatagramLen)"
  shows "Receive (s\<lparr> control := (control s)\<lparr> pending := bridge_datagram d @ rest \<rparr> \<rparr>) =
    (Inr d, s\<lparr> control := (control s)\<lparr> pending := rest \<rparr> \<rparr>)"
proof -
  let ?r = "\<lparr> Raw = bridge_line d, Values = reply_values (bridge_fields d) \<rparr>"
  have len: "length (dgPayload d) < 65536" using assms(4) by (simp add: sam_consts split: if_splits)
  then have sz: "parseReplyUint16 ?r ''SIZE'' = Inr (of_nat (length (dgPayload d)))"
    using parse_number [of "int (length (dgPayload d))" ?r "''SIZE''"] bridge_values(1) [of d] by simp
  have un: "unat (of_nat (length (dgPayload d)) :: u16) = length (dgPayload d)"
    using len by (simp add: unat_of_nat)
  have port: "parseReplyUint16 ?r k = Inr p" if "gget (reply_values (bridge_fields d)) k = Some (FormatUint (uint p))" for k p
    using parse_number [of "uint p" ?r k] that uint_lt2p [of p] by simp
  have "uint (dgProtocol d) < 256" using uint_lt2p [of "dgProtocol d"] by simp
  then have proto: "parseOptionalProtocol ?r = dgProtocol d"
    using assms(2) bridge_values(4) [of d]
    by (simp add: parseOptionalProtocol_def reply_get_def u8_def plain_ends ParseUint_FormatUint ParseUint_Nil
        split: if_splits)
  have val: "validateDatagramPayload (ds_style s) (length (dgPayload d)) = Inr ()"
    using assms(3,4) by (auto simp: validateDatagramPayload_def)
  note ends = bridge_line_ends [OF assms(1)]
  show ?thesis
    using assms(2) port [OF bridge_values(2)] port [OF bridge_values(3)] proto val sz bridge_values(5) [of d] ends(5,6)
    by (auto simp: Receive_def bridge_reply [OF assms(1)] un parseOptionalPort_def reply_get_def split: if_splits)
qed

theorem datagram_roundtrip_witness:
  "Receive \<lparr> ds_id = ''a'', ds_style = DatagramStyleRaw, control = \<lparr> pending = bridge_datagram
      \<lparr> Source = [], dgPayload = ''po\"ng'', dgFromPort = 777, dgToPort = 888, dgProtocol = 18, AnonymousRaw = True \<rparr> @ ''RAW'',
      sent = [] \<rparr>, udp = [] \<rparr> =
   (Inr \<lparr> Source = [], dgPayload = ''po\"ng'', dgFromPort = 777, dgToPort = 888, dgProtocol = 18, AnonymousRaw = True \<rparr>,
    \<lparr> ds_id = ''a'', ds_style = DatagramStyleRaw, control = \<lparr> pending = ''RAW'', sent = [] \<rparr>, udp = [] \<rparr>)"
  using datagram_roundtrip [of "\<lparr> Source = [], dgPayload = ''po\"ng'', dgFromPort = 777, dgToPort = 888,
      dgProtocol = 18, AnonymousRaw = True \<rparr>" "\<lparr> ds_id = ''a'', ds_style = DatagramStyleRaw,
      control = \<lparr> pending = [], sent = [] \<rparr>, udp = [] \<rparr>" "''RAW''"]
  by (simp add: sam_consts)

end
