(* ===== verification/Multipath.thy ===== *)
theory Multipath
  imports Prelude
begin

text \<open>
  The anonymous multipath classifier, \<open>client/internal/anonymous/multipath/flow.go\<close>: parsing an
  overlay packet into a direction-neutral flow key and choosing a transport channel for it by
  rendezvous hashing. \<open>hash/fnv\<close> (64-bit FNV-1a) and \<open>encoding/binary\<close> are modelled as the
  standard library defines them.

  The locale \<open>first_max\<close> is the contract of the selection loop: it returns the first maximum.
  Its lemmas show that such a selection only
  changes when the selected channel leaves or a better one joins. It is interpreted on the code's loop
  with the FNV score.
\<close>

section \<open>Model\<close>

definition ProtocolICMPv4 :: byte where "ProtocolICMPv4 = 1"
definition ProtocolTCP :: byte where "ProtocolTCP = 6"
definition ProtocolUDP :: byte where "ProtocolUDP = 17"
definition ProtocolICMPv6 :: byte where "ProtocolICMPv6 = 58"

lemmas protocol_defs = ProtocolICMPv4_def ProtocolTCP_def ProtocolUDP_def ProtocolICMPv6_def

datatype flow_err = ErrShortPacket | ErrUnsupportedIP | ErrNoHealthyChannel | ErrParseAddr

record FlowKey =
  fk_Source :: addr
  fk_Destination :: addr
  fk_Protocol :: byte
  fk_SourcePort :: u16
  fk_DestPort :: u16
  fk_Fragmented :: bool

record PacketInfo =
  pi_Flow :: FlowKey
  pi_Source :: addr
  pi_Destination :: addr

record Channel =
  ch_ID :: string
  ch_Healthy :: bool

definition ports :: "byte \<Rightarrow> bytes \<Rightarrow> bool \<Rightarrow> (u16 \<times> u16) option" where
  "ports proto payload fragmented =
     (if fragmented then Some (0, 0)
      else if proto = ProtocolTCP \<or> proto = ProtocolUDP then
        (if length payload < 4 then Some (0, 0)
         else do {
           s \<leftarrow> slice payload 0 2 \<bind> be16;
           d \<leftarrow> slice payload 2 4 \<bind> be16;
           Some (s, d)
         })
      else if proto = ProtocolICMPv4 \<or> proto = ProtocolICMPv6 then
        (if length payload < 6 then Some (0, 0)
         else do {
           icmpType \<leftarrow> idx payload 0;
           if proto = ProtocolICMPv4 \<and> (icmpType = 0 \<or> icmpType = 8) then do {
             i \<leftarrow> slice payload 4 6 \<bind> be16;
             Some (i, i)
           }
           else if proto = ProtocolICMPv6 \<and> (icmpType = 128 \<or> icmpType = 129) then do {
             i \<leftarrow> slice payload 4 6 \<bind> be16;
             Some (i, i)
           }
           else Some (0, 0)
         })
      else Some (0, 0))"

definition compareEndpoint :: "addr \<Rightarrow> u16 \<Rightarrow> addr \<Rightarrow> u16 \<Rightarrow> int" where
  "compareEndpoint a aPort b bPort =
     (let cmp = addr_compare a b in
      if cmp \<noteq> 0 then cmp
      else if aPort < bPort then - 1
      else if bPort < aPort then 1
      else 0)"

definition canonicalFlow :: "addr \<Rightarrow> addr \<Rightarrow> byte \<Rightarrow> bytes \<Rightarrow> bool \<Rightarrow> FlowKey option" where
  "canonicalFlow src dst proto payload fragmented = do {
     (srcPort, dstPort) \<leftarrow> ports proto payload fragmented;
     let key = \<lparr>fk_Source = unmap src, fk_Destination = unmap dst, fk_Protocol = proto,
                fk_SourcePort = srcPort, fk_DestPort = dstPort, fk_Fragmented = fragmented\<rparr>;
     Some (if 0 < compareEndpoint (fk_Source key) (fk_SourcePort key)
                    (fk_Destination key) (fk_DestPort key)
           then key\<lparr>fk_Source := fk_Destination key, fk_Destination := fk_Source key,
                    fk_SourcePort := fk_DestPort key, fk_DestPort := fk_SourcePort key\<rparr>
           else key)
   }"

definition packet_info :: "FlowKey option \<Rightarrow> addr \<Rightarrow> addr \<Rightarrow> (flow_err + PacketInfo) option" where
  "packet_info flow src dst = do {
     f \<leftarrow> flow;
     Some (Inr \<lparr>pi_Flow = f, pi_Source = src, pi_Destination = dst\<rparr>)
   }"

definition classifyIPv4 :: "bytes \<Rightarrow> (flow_err + PacketInfo) option" where
  "classifyIPv4 packet0 =
     (if length packet0 < 20 then Some (Inl ErrShortPacket)
      else do {
        b0 \<leftarrow> idx packet0 0;
        let headerLen = unat (b0 AND 0x0f) * 4;
        if headerLen < 20 \<or> length packet0 < headerLen then Some (Inl ErrShortPacket)
        else do {
          totalLen \<leftarrow> map_option unat (slice packet0 2 4 \<bind> be16);
          if totalLen = 0 \<or> length packet0 < totalLen \<or> totalLen < headerLen
          then Some (Inl ErrShortPacket)
          else do {
            packet \<leftarrow> (if totalLen < length packet0 then slice packet0 0 totalLen else Some packet0);
            srcBytes \<leftarrow> slice packet 12 16;
            case addr_from_slice srcBytes of
              None \<Rightarrow> Some (Inl ErrParseAddr)
            | Some src0 \<Rightarrow> do {
                dstBytes \<leftarrow> slice packet 16 20;
                case addr_from_slice dstBytes of
                  None \<Rightarrow> Some (Inl ErrParseAddr)
                | Some dst0 \<Rightarrow> do {
                    let src = unmap src0;
                    let dst = unmap dst0;
                    proto \<leftarrow> idx packet 9;
                    frag \<leftarrow> slice packet 6 8 \<bind> be16;
                    let fragmented = (frag AND 0x3fff \<noteq> 0);
                    payload \<leftarrow> slice_from packet headerLen;
                    packet_info (canonicalFlow src dst proto payload fragmented) src dst
                  }
              }
          }
        }
      })"

text \<open>The loop over the IPv6 extension headers.\<close>

function ipv6_headers ::
  "bytes \<Rightarrow> addr \<Rightarrow> addr \<Rightarrow> byte \<Rightarrow> nat \<Rightarrow> (flow_err + PacketInfo) option" where
  "ipv6_headers packet src dst nextHeader offset =
     (if nextHeader = 0 \<or> nextHeader = 43 \<or> nextHeader = 60 then
        (if length packet < offset + 2 then Some (Inl ErrShortPacket)
         else do {
           next \<leftarrow> idx packet offset;
           len \<leftarrow> idx packet (offset + 1);
           let off = offset + (unat len + 1) * 8;
           if length packet < off then Some (Inl ErrShortPacket)
           else ipv6_headers packet src dst next off
         })
      else if nextHeader = 44 then
        (if length packet < offset + 8 then Some (Inl ErrShortPacket)
         else do {
           next \<leftarrow> idx packet offset;
           packet_info (canonicalFlow src dst next [] True) src dst
         })
      else if nextHeader = 51 then
        (if length packet < offset + 2 then Some (Inl ErrShortPacket)
         else do {
           next \<leftarrow> idx packet offset;
           len \<leftarrow> idx packet (offset + 1);
           let off = offset + (unat len + 2) * 4;
           if length packet < off then Some (Inl ErrShortPacket)
           else ipv6_headers packet src dst next off
         })
      else do {
        payload \<leftarrow> slice_from packet offset;
        packet_info (canonicalFlow src dst nextHeader payload False) src dst
      })"
  by pat_completeness auto
termination
  by (relation "measure (\<lambda>(packet, src, dst, nextHeader, offset). length packet - offset)")
    (auto simp: idx_def split: if_splits)

declare ipv6_headers.simps [simp del]

definition classifyIPv6 :: "bytes \<Rightarrow> (flow_err + PacketInfo) option" where
  "classifyIPv6 packet0 =
     (if length packet0 < 40 then Some (Inl ErrShortPacket)
      else do {
        payloadLen \<leftarrow> map_option unat (slice packet0 4 6 \<bind> be16);
        let packetLen = 40 + payloadLen;
        if payloadLen \<noteq> 0 \<and> length packet0 < packetLen then Some (Inl ErrShortPacket)
        else do {
          packet \<leftarrow> (if payloadLen \<noteq> 0 \<and> packetLen < length packet0
                     then slice packet0 0 packetLen else Some packet0);
          srcBytes \<leftarrow> slice packet 8 24;
          case addr_from_slice srcBytes of
            None \<Rightarrow> Some (Inl ErrParseAddr)
          | Some src0 \<Rightarrow> do {
              dstBytes \<leftarrow> slice packet 24 40;
              case addr_from_slice dstBytes of
                None \<Rightarrow> Some (Inl ErrParseAddr)
              | Some dst0 \<Rightarrow> do {
                  let src = unmap src0;
                  let dst = unmap dst0;
                  nextHeader \<leftarrow> idx packet 6;
                  ipv6_headers packet src dst nextHeader 40
                }
            }
        }
      })"

definition ClassifyPacketInfo :: "bytes \<Rightarrow> (flow_err + PacketInfo) option" where
  "ClassifyPacketInfo packet =
     (if length packet = 0 then Some (Inl ErrShortPacket)
      else do {
        b0 \<leftarrow> idx packet 0;
        let version = drop_bit 4 b0;
        if version = 4 then classifyIPv4 packet
        else if version = 6 then classifyIPv6 packet
        else Some (Inl ErrUnsupportedIP)
      })"

definition ClassifyPacket :: "bytes \<Rightarrow> (flow_err + FlowKey) option" where
  "ClassifyPacket packet = do {
     r \<leftarrow> ClassifyPacketInfo packet;
     Some (map_sum id pi_Flow r)
   }"

definition fnv1a :: "bytes \<Rightarrow> u64" where
  "fnv1a bs = foldl (\<lambda>h b. (h XOR ucast b) * 1099511628211) 14695981039346656037 bs"

definition scalar :: "FlowKey \<Rightarrow> bytes" where
  "scalar k = [fk_Protocol k] @ put16 (fk_SourcePort k) @ put16 (fk_DestPort k)
     @ [if fk_Fragmented k then 1 else 0, 0, 0, 0]"

definition string_bytes :: "string \<Rightarrow> bytes" where
  "string_bytes s = map (\<lambda>c. of_nat (of_char c)) s"

definition score :: "FlowKey \<Rightarrow> string \<Rightarrow> u64" where
  "score k channelID =
     fnv1a (as16 (fk_Source k) @ as16 (fk_Destination k) @ scalar k @ string_bytes channelID)"

definition usable :: "Channel \<Rightarrow> bool" where
  "usable c = (ch_Healthy c \<and> ch_ID c \<noteq> [])"

text \<open>The selection loop; the accumulator is \<open>selected\<close> with \<open>best\<close>, \<open>None\<close> while \<open>found\<close> is false.\<close>

fun select_loop ::
  "(string \<Rightarrow> 'o::linorder) \<Rightarrow> Channel list \<Rightarrow> (Channel \<times> 'o) option \<Rightarrow> Channel option" where
  "select_loop sc [] acc = map_option fst acc"
| "select_loop sc (channel # channels) acc =
     (if \<not> ch_Healthy channel \<or> ch_ID channel = [] then select_loop sc channels acc
      else
        (let s = sc (ch_ID channel) in
         case acc of
           None \<Rightarrow> select_loop sc channels (Some (channel, s))
         | Some (selected, best) \<Rightarrow>
             if best < s then select_loop sc channels (Some (channel, s))
             else select_loop sc channels acc))"

definition SelectChannel :: "FlowKey \<Rightarrow> Channel list \<Rightarrow> flow_err + Channel" where
  "SelectChannel key channels =
     (case select_loop (score key) channels None of
        None \<Rightarrow> Inl ErrNoHealthyChannel
      | Some c \<Rightarrow> Inr c)"

section \<open>Classification\<close>

definition canonical :: "FlowKey \<Rightarrow> bool" where
  "canonical k =
     (fk_Source k < fk_Destination k
      \<or> fk_Source k = fk_Destination k \<and> fk_SourcePort k \<le> fk_DestPort k)"

lemma ports_total: "\<exists>s d. ports proto payload fragmented = Some (s, d)"
proof (cases "payload = []")
  case True
  then show ?thesis by (simp add: ports_def)
next
  case False
  then show ?thesis by (auto simp: ports_def slice_simps)
qed

lemma compareEndpoint_pos:
  "0 < compareEndpoint a p b q \<longleftrightarrow> b < a \<or> a = b \<and> q < p"
  by (auto simp: compareEndpoint_def Let_def addr_compare_pos addr_compare_zero
      simp del: addr_compare.simps)

lemma canonicalFlow_total:
  "\<exists>k. canonicalFlow src dst proto payload fragmented = Some k \<and> canonical k"
proof -
  obtain s d where "ports proto payload fragmented = Some (s, d)"
    using ports_total by blast
  then show ?thesis
    by (auto simp: canonicalFlow_def canonical_def compareEndpoint_pos not_less Let_def)
qed

definition returns_canonical :: "(flow_err + PacketInfo) option \<Rightarrow> bool" where
  "returns_canonical r =
     (case r of
        None \<Rightarrow> False
      | Some (Inl _) \<Rightarrow> True
      | Some (Inr info) \<Rightarrow> canonical (pi_Flow info))"

lemma returns_canonical_Inl [simp]: "returns_canonical (Some (Inl e))"
  by (simp add: returns_canonical_def)

lemma returns_canonical_flow [simp]:
  "returns_canonical (packet_info (canonicalFlow src dst proto payload fragmented) src' dst')"
proof -
  obtain k where "canonicalFlow src dst proto payload fragmented = Some k" "canonical k"
    using canonicalFlow_total by blast
  then show ?thesis by (simp add: returns_canonical_def packet_info_def)
qed

lemma ipv6_headers_safe:
  "offset \<le> length packet \<Longrightarrow> returns_canonical (ipv6_headers packet src dst nextHeader offset)"
proof (induction packet src dst nextHeader offset rule: ipv6_headers.induct)
  case (1 packet src dst nextHeader offset)
  show ?case
    using 1 by (subst ipv6_headers.simps) (auto simp: Let_def slice_simps)
qed

lemma classifyIPv4_safe: "returns_canonical (classifyIPv4 packet)"
proof (cases "length packet < 20")
  case True
  then show ?thesis by (simp add: classifyIPv4_def)
next
  case False
  then have "packet \<noteq> []" by auto
  with False show ?thesis
    by (auto simp: classifyIPv4_def Let_def slice_simps addr_from_slice_def)
qed

lemma classifyIPv6_safe: "returns_canonical (classifyIPv6 packet)"
proof (cases "length packet < 40")
  case True
  then show ?thesis by (simp add: classifyIPv6_def)
next
  case False
  then show ?thesis
    by (auto simp: classifyIPv6_def Let_def slice_simps addr_from_slice_def ipv6_headers_safe)
qed

lemma classify_safe: "returns_canonical (ClassifyPacketInfo packet)"
  by (cases packet)
    (auto simp: ClassifyPacketInfo_def idx_def Let_def classifyIPv4_safe classifyIPv6_safe)

section \<open>Direction neutrality\<close>

lemma canonicalFlow_swap:
  assumes "ports proto payload f = Some (s, d)" and "ports proto payload' f = Some (d, s)"
  shows "canonicalFlow dst src proto payload' f = canonicalFlow src dst proto payload f"
  using assms
  by (auto simp: canonicalFlow_def compareEndpoint_pos Let_def not_less)

text \<open>
  The reply to an IPv4 packet as the specification sees it: the address fields exchanged and, for
  TCP and UDP, the port fields exchanged; every other byte in place.
\<close>

definition reply_index :: "nat \<Rightarrow> bool \<Rightarrow> nat \<Rightarrow> nat \<Rightarrow> nat" where
  "reply_index hl hasPorts n i =
     (if 12 \<le> i \<and> i < 16 then i + 4
      else if 16 \<le> i \<and> i < 20 then i - 4
      else if hasPorts \<and> hl + 4 \<le> n \<and> hl \<le> i \<and> i < hl + 2 then i + 2
      else if hasPorts \<and> hl + 4 \<le> n \<and> hl + 2 \<le> i \<and> i < hl + 4 then i - 2
      else i)"

definition header_len :: "bytes \<Rightarrow> nat" where
  "header_len p = unat (p ! 0 AND 0x0f) * 4"

definition reply_ipv4 :: "bytes \<Rightarrow> bytes" where
  "reply_ipv4 p =
     map (\<lambda>i. p ! reply_index (header_len p) (p ! 9 = ProtocolTCP \<or> p ! 9 = ProtocolUDP) (length p) i)
       [0..<length p]"

definition word_at :: "bytes \<Rightarrow> nat \<Rightarrow> u16" where
  "word_at p i = push_bit 8 (ucast (p ! i)) OR ucast (p ! (i + 1))"

definition addr4_at :: "bytes \<Rightarrow> nat \<Rightarrow> addr" where
  "addr4_at p i = Addr4 (be_word (map ((!) p) [i..<i + 4]))"

lemma take_drop_nth: "a + n \<le> length xs \<Longrightarrow> take n (drop a xs) = map ((!) xs) [a..<a + n]"
  by (rule nth_equalityI) auto

lemma classifyIPv4_eq:
  assumes "20 \<le> length p"
  shows "classifyIPv4 p =
    (let hl = header_len p; tl = unat (word_at p 2) in
     if hl < 20 \<or> length p < hl \<or> tl = 0 \<or> length p < tl \<or> tl < hl then Some (Inl ErrShortPacket)
     else packet_info (canonicalFlow (addr4_at p 12) (addr4_at p 16) (p ! 9)
            (drop hl (take tl p)) (word_at p 6 AND 0x3fff \<noteq> 0)) (addr4_at p 12) (addr4_at p 16))"
proof -
  have "p \<noteq> []" using assms by auto
  have "take 4 (drop 12 q) = map ((!) q) [12..<16]" "take 4 (drop 16 q) = map ((!) q) [16..<20]"
    if "20 \<le> length q" for q :: bytes
    using that take_drop_nth[of 12 4 q] take_drop_nth[of 16 4 q] by simp_all
  moreover have "map ((!) (take n p)) [12..<16] = map ((!) p) [12..<16]"
    "map ((!) (take n p)) [16..<20] = map ((!) p) [16..<20]" if "20 \<le> n" for n
    using that by simp_all
  ultimately show ?thesis
    using assms \<open>p \<noteq> []\<close>
    by (auto simp: classifyIPv4_def Let_def slice_simps addr_from_slice_def header_len_def
        word_at_def addr4_at_def)
qed

lemma ports_word_at:
  assumes "proto = ProtocolTCP \<or> proto = ProtocolUDP" and "hl \<le> n" and "n \<le> length p"
  shows "ports proto (drop hl (take n p)) f =
    Some (if f \<or> n < hl + 4 then (0, 0) else (word_at p hl, word_at p (hl + 2)))"
  using assms by (auto simp: ports_def slice_simps word_at_def)

lemma ports_other_sym:
  assumes "proto \<noteq> ProtocolTCP" and "proto \<noteq> ProtocolUDP"
  shows "\<exists>s. ports proto payload f = Some (s, s)"
proof (cases "payload = []")
  case True
  then show ?thesis by (simp add: ports_def)
next
  case False
  then show ?thesis using assms by (auto simp: ports_def slice_simps)
qed

lemma length_reply_ipv4 [simp]: "length (reply_ipv4 p) = length p"
  by (simp add: reply_ipv4_def)

lemma reply_ipv4_nth:
  "i < length p \<Longrightarrow> reply_ipv4 p ! i =
     p ! reply_index (header_len p) (p ! 9 = ProtocolTCP \<or> p ! 9 = ProtocolUDP) (length p) i"
  by (simp add: reply_ipv4_def)

text \<open>
  What the reply keeps of the fixed header (\<open>header_len\<close> is at least twenty), and the exchanged
  fields.
\<close>

lemma reply_ipv4_header:
  assumes "20 \<le> length p" and "20 \<le> header_len p"
  shows "i < 12 \<Longrightarrow> reply_ipv4 p ! i = p ! i"
    and "header_len (reply_ipv4 p) = header_len p"
    and "i < 11 \<Longrightarrow> word_at (reply_ipv4 p) i = word_at p i"
    and "addr4_at (reply_ipv4 p) 12 = addr4_at p 16"
    and "addr4_at (reply_ipv4 p) 16 = addr4_at p 12"
proof -
  have keep: "reply_ipv4 p ! i = p ! i" if "i < 12" for i
    using assms that by (simp add: reply_ipv4_nth reply_index_def)
  show "i < 12 \<Longrightarrow> reply_ipv4 p ! i = p ! i" by (rule keep)
  show "header_len (reply_ipv4 p) = header_len p" by (simp add: header_len_def keep)
  show "i < 11 \<Longrightarrow> word_at (reply_ipv4 p) i = word_at p i" by (simp add: word_at_def keep)
  show "addr4_at (reply_ipv4 p) 12 = addr4_at p 16"
    using assms by (simp add: addr4_at_def reply_ipv4_nth reply_index_def upt_rec)
  show "addr4_at (reply_ipv4 p) 16 = addr4_at p 12"
    using assms by (simp add: addr4_at_def reply_ipv4_nth reply_index_def upt_rec)
qed

lemma reply_ipv4_ports:
  assumes "20 \<le> header_len p" and "header_len p \<le> n" and "n \<le> length p"
    and "ports (p ! 9) (drop (header_len p) (take n p)) f = Some (s, d)"
  shows "ports (p ! 9) (drop (header_len p) (take n (reply_ipv4 p))) f = Some (d, s)"
proof (cases "p ! 9 = ProtocolTCP \<or> p ! 9 = ProtocolUDP")
  case True
  have "word_at (reply_ipv4 p) (header_len p) = word_at p (header_len p + 2)"
    "word_at (reply_ipv4 p) (header_len p + 2) = word_at p (header_len p)"
    if "header_len p + 4 \<le> n"
    using that True assms by (auto simp: word_at_def reply_ipv4_nth reply_index_def)
  with True assms show ?thesis
    by (auto simp: ports_word_at split: if_splits)
next
  case False
  have "drop (header_len p) (take n (reply_ipv4 p)) = drop (header_len p) (take n p)"
    using False assms by (intro nth_equalityI) (auto simp: reply_ipv4_nth reply_index_def)
  moreover have "s = d" 
    using ports_other_sym[of "p ! 9" "drop (header_len p) (take n p)" f] assms(4) False by auto
  ultimately show ?thesis using assms(4) by simp
qed

lemma classifyIPv4_reply:
  assumes "classifyIPv4 p = Some (Inr info)"
  shows "classifyIPv4 (reply_ipv4 p) =
    Some (Inr \<lparr>pi_Flow = pi_Flow info, pi_Source = pi_Destination info, pi_Destination = pi_Source info\<rparr>)"
proof -
  have len: "20 \<le> length p"
    using assms by (cases "length p < 20") (auto simp: classifyIPv4_def)
  define hl n f where "hl = header_len p" and "n = unat (word_at p 2)"
    and "f = (word_at p 6 AND 0x3fff \<noteq> 0)"
  have ok: "20 \<le> hl" "hl \<le> length p" "n \<noteq> 0" "n \<le> length p" "hl \<le> n"
    and flow: "packet_info (canonicalFlow (addr4_at p 12) (addr4_at p 16) (p ! 9)
      (drop hl (take n p)) f) (addr4_at p 12) (addr4_at p 16) = Some (Inr info)"
    using assms len unfolding hl_def n_def f_def
    by (auto simp: classifyIPv4_eq Let_def not_less split: if_splits)
  obtain s d where sd: "ports (p ! 9) (drop hl (take n p)) f = Some (s, d)"
    using ports_total by blast
  then have "ports (p ! 9) (drop hl (take n (reply_ipv4 p))) f = Some (d, s)"
    using ok unfolding hl_def by (rule_tac reply_ipv4_ports) auto
  then have "canonicalFlow (addr4_at p 16) (addr4_at p 12) (p ! 9) (drop hl (take n (reply_ipv4 p))) f
    = canonicalFlow (addr4_at p 12) (addr4_at p 16) (p ! 9) (drop hl (take n p)) f"
    using sd by (rule_tac canonicalFlow_swap)
  moreover note hdr = reply_ipv4_header[OF len, folded hl_def, OF ok(1)]
  ultimately show ?thesis
    using flow ok len
    by (auto simp: classifyIPv4_eq Let_def hdr n_def[symmetric] f_def[symmetric] packet_info_def
        split: Option.bind_splits)
qed

section \<open>Channel selection\<close>

lemma append_Cons_cases:
  assumes "pre @ c # post = pre' @ c' # post'"
  obtains us where "pre' = pre @ c # us" "post = us @ c' # post'"
  | us where "pre = pre' @ c' # us" "post' = us @ c # post"
  | "pre = pre'" "c = c'" "post = post'"
proof -
  from assms consider us where "pre' = pre @ us" "c # post = us @ c' # post'"
    | us where "pre = pre' @ us" "us @ c # post = c' # post'"
    by (auto simp: append_eq_append_conv2)
  then show thesis
  proof cases
    case (1 us)
    with that show thesis by (cases us) auto
  next
    case (2 us)
    with that show thesis by (cases us) auto
  qed
qed

text \<open>
  The contract of a selection loop: it fails exactly when no element is eligible, and otherwise
  returns an eligible element that beats every eligible one before it and is not beaten by any
  after it.
\<close>

locale first_max =
  fixes sel :: "'c list \<Rightarrow> 'c option" and ok :: "'c \<Rightarrow> bool" and weight :: "'c \<Rightarrow> 'o::linorder"
  assumes sel_None: "sel xs = None \<longleftrightarrow> (\<forall>d \<in> set xs. \<not> ok d)"
    and sel_Some: "sel xs = Some c \<Longrightarrow> \<exists>pre post. xs = pre @ c # post \<and> ok c
      \<and> (\<forall>d \<in> set pre. ok d \<longrightarrow> weight d < weight c)
      \<and> (\<forall>d \<in> set post. ok d \<longrightarrow> weight d \<le> weight c)"
begin

lemma sel_best: "sel xs = Some c \<Longrightarrow> c \<in> set xs \<and> ok c \<and> (\<forall>d \<in> set xs. ok d \<longrightarrow> weight d \<le> weight c)"
  using sel_Some by fastforce

lemma first_unique:
  assumes "pre @ c # post = pre' @ c' # post'"
    and "ok c" "\<forall>d \<in> set pre. ok d \<longrightarrow> weight d < weight c" "\<forall>d \<in> set post. ok d \<longrightarrow> weight d \<le> weight c"
    and "ok c'" "\<forall>d \<in> set pre'. ok d \<longrightarrow> weight d < weight c'" "\<forall>d \<in> set post'. ok d \<longrightarrow> weight d \<le> weight c'"
  shows "c = c'"
proof (rule ccontr)
  assume ne: "c \<noteq> c'"
  from assms(1) consider us where "pre' = pre @ c # us" "post = us @ c' # post'"
    | us where "pre = pre' @ c' # us" "post' = us @ c # post"
    | "pre = pre'" "c = c'"
    by (rule append_Cons_cases)
  then show False
  proof cases
    case 1
    with assms have "weight c < weight c'" and "weight c' \<le> weight c" by auto
    then show False by simp
  next
    case 2
    with assms have "weight c' < weight c" and "weight c \<le> weight c'" by auto
    then show False by simp
  next
    case 3
    with ne show False by simp
  qed
qed

lemma sel_intro:
  assumes "ok c" "\<forall>d \<in> set pre. ok d \<longrightarrow> weight d < weight c" "\<forall>d \<in> set post. ok d \<longrightarrow> weight d \<le> weight c"
  shows "sel (pre @ c # post) = Some c"
proof (cases "sel (pre @ c # post)")
  case None
  with assms(1) show ?thesis by (simp add: sel_None)
next
  case (Some c')
  then obtain pre' post' where "pre @ c # post = pre' @ c' # post'" "ok c'"
    "\<forall>d \<in> set pre'. ok d \<longrightarrow> weight d < weight c'" "\<forall>d \<in> set post'. ok d \<longrightarrow> weight d \<le> weight c'"
    using sel_Some by blast
  then have "c = c'" using first_unique assms by blast
  with Some show ?thesis by simp
qed

lemma sel_filter:
  assumes "sel xs = Some c" and "P c"
  shows "sel (filter P xs) = Some c"
proof -
  obtain pre post where "xs = pre @ c # post" "ok c"
    "\<forall>d \<in> set pre. ok d \<longrightarrow> weight d < weight c" "\<forall>d \<in> set post. ok d \<longrightarrow> weight d \<le> weight c"
    using sel_Some assms(1) by blast
  then have "sel (filter P pre @ c # filter P post) = Some c"
    by (intro sel_intro) auto
  with \<open>xs = _\<close> \<open>P c\<close> show ?thesis by simp
qed

lemma sel_add:
  assumes "sel (pre @ post) = Some c"
  shows "sel (pre @ d # post) = Some c \<or> sel (pre @ d # post) = Some d"
proof -
  have "c \<in> set (pre @ post)" "ok c" using sel_best assms by blast+
  then obtain e where e: "sel (pre @ d # post) = Some e"
    by (cases "sel (pre @ d # post)") (auto simp: sel_None)
  obtain p1 p2 where p: "pre @ d # post = p1 @ e # p2" "ok e"
    "\<forall>x \<in> set p1. ok x \<longrightarrow> weight x < weight e" "\<forall>x \<in> set p2. ok x \<longrightarrow> weight x \<le> weight e"
    using sel_Some[OF e] by blast
  from p(1) show ?thesis
  proof (cases rule: append_Cons_cases)
    case (1 us)
    with p have "sel ((pre @ us) @ e # p2) = Some e" by (intro sel_intro) auto
    with 1 e assms show ?thesis by simp
  next
    case (2 us)
    with p have "sel (p1 @ e # (us @ post)) = Some e" by (intro sel_intro) auto
    with 2 e assms show ?thesis by simp
  next
    case 3
    with e show ?thesis by simp
  qed
qed

end

fun first_best :: "(string \<Rightarrow> 'o::linorder) \<Rightarrow> Channel list \<Rightarrow> Channel \<Rightarrow> bool" where
  "first_best sc [] c = False"
| "first_best sc (x # xs) c =
     (c = x \<and> usable x \<and> (\<forall>d \<in> set xs. usable d \<longrightarrow> sc (ch_ID d) \<le> sc (ch_ID x))
      \<or> first_best sc xs c \<and> (usable x \<longrightarrow> sc (ch_ID x) < sc (ch_ID c)))"

lemma first_best_le: "first_best sc xs c \<Longrightarrow> d \<in> set xs \<Longrightarrow> usable d \<Longrightarrow> sc (ch_ID d) \<le> sc (ch_ID c)"
  by (induction xs) auto

lemma first_best_split:
  "first_best sc xs c \<Longrightarrow> \<exists>pre post. xs = pre @ c # post \<and> usable c
     \<and> (\<forall>d \<in> set pre. usable d \<longrightarrow> sc (ch_ID d) < sc (ch_ID c))
     \<and> (\<forall>d \<in> set post. usable d \<longrightarrow> sc (ch_ID d) \<le> sc (ch_ID c))"
proof (induction xs)
  case (Cons x xs)
  from Cons.prems consider
      "c = x" "usable x" "\<forall>d \<in> set xs. usable d \<longrightarrow> sc (ch_ID d) \<le> sc (ch_ID x)"
    | "first_best sc xs c" "usable x \<longrightarrow> sc (ch_ID x) < sc (ch_ID c)"
    by auto
  then show ?case
  proof cases
    case 1
    then show ?thesis by (intro exI[of _ "[]"] exI[of _ xs]) auto
  next
    case 2
    then obtain pre post where "xs = pre @ c # post" "usable c"
      "\<forall>d \<in> set pre. usable d \<longrightarrow> sc (ch_ID d) < sc (ch_ID c)"
      "\<forall>d \<in> set post. usable d \<longrightarrow> sc (ch_ID d) \<le> sc (ch_ID c)"
      using Cons.IH by blast
    with 2 show ?thesis by (intro exI[of _ "x # pre"] exI[of _ post]) auto
  qed
qed simp

lemma select_loop_acc:
  "usable a \<Longrightarrow> \<exists>c. select_loop sc xs (Some (a, sc (ch_ID a))) = Some c \<and> first_best sc (a # xs) c"
proof (induction xs arbitrary: a)
  case (Cons x xs)
  show ?case
  proof (cases "usable x \<and> sc (ch_ID a) < sc (ch_ID x)")
    case True
    then obtain c where c: "select_loop sc xs (Some (x, sc (ch_ID x))) = Some c"
      "first_best sc (x # xs) c"
      using Cons.IH by blast
    then have "sc (ch_ID x) \<le> sc (ch_ID c)" using True by (intro first_best_le[OF c(2)]) auto
    with True have "sc (ch_ID a) < sc (ch_ID c)" by (auto intro: less_le_trans)
    with c have "first_best sc (a # x # xs) c" by (simp only: first_best.simps(2)) blast
    moreover have "select_loop sc (x # xs) (Some (a, sc (ch_ID a))) = Some c"
      using True c(1) by (simp add: Let_def usable_def)
    ultimately show ?thesis by blast
  next
    case False
    obtain c where "select_loop sc xs (Some (a, sc (ch_ID a))) = Some c"
      "first_best sc (a # xs) c"
      using Cons by blast
    with False Cons.prems show ?thesis by (auto simp: Let_def usable_def)
  qed
qed simp

lemma select_loop_spec:
  "(case select_loop sc xs None of
      None \<Rightarrow> \<forall>d \<in> set xs. \<not> usable d
    | Some c \<Rightarrow> first_best sc xs c)"
proof (induction xs)
  case (Cons x xs)
  show ?case
  proof (cases "usable x")
    case True
    then obtain c where "select_loop sc xs (Some (x, sc (ch_ID x))) = Some c"
      "first_best sc (x # xs) c"
      using select_loop_acc by blast
    with True show ?thesis by (simp add: Let_def usable_def)
  next
    case False
    then have "select_loop sc (x # xs) None = select_loop sc xs None"
      by (auto simp: usable_def)
    with Cons False show ?thesis by (auto split: option.splits)
  qed
qed simp

lemma first_best_usable: "first_best sc xs c \<Longrightarrow> \<exists>d \<in> set xs. usable d"
  by (induction xs) auto

interpretation channel: first_max "\<lambda>channels. select_loop (score key) channels None" usable
  "\<lambda>c. score key (ch_ID c)" for key
proof
  fix xs
  show "select_loop (score key) xs None = None \<longleftrightarrow> (\<forall>d \<in> set xs. \<not> usable d)"
    using select_loop_spec[where sc = "score key" and xs = xs] first_best_usable by (auto split: option.splits)
next
  fix xs c
  assume "select_loop (score key) xs None = Some c"
  then have "first_best (score key) xs c"
    using select_loop_spec[where sc = "score key" and xs = xs] by simp
  then show "\<exists>pre post. xs = pre @ c # post \<and> usable c
      \<and> (\<forall>d \<in> set pre. usable d \<longrightarrow> score key (ch_ID d) < score key (ch_ID c))
      \<and> (\<forall>d \<in> set post. usable d \<longrightarrow> score key (ch_ID d) \<le> score key (ch_ID c))"
    by (rule first_best_split)
qed

lemma SelectChannel_Inr: "SelectChannel key chs = Inr c \<longleftrightarrow> select_loop (score key) chs None = Some c"
  by (auto simp: SelectChannel_def split: option.splits)

lemma SelectChannel_Inl:
  "SelectChannel key chs = Inl e \<longleftrightarrow> e = ErrNoHealthyChannel \<and> (\<forall>d \<in> set chs. \<not> usable d)"
  using channel.sel_None[of key chs] by (auto simp: SelectChannel_def split: option.splits)

section \<open>Properties\<close>

text \<open>
  \<open>ClassifyPacketInfo\<close> is memory safe and total: on every byte string, whatever a peer put
  into it, it returns (it reads no byte outside the packet and the extension-header loop ends), and
  every flow key it returns has its endpoints in canonical order.
\<close>

theorem classify_never_panics:
  "\<exists>r. ClassifyPacketInfo packet = Some r \<and> (case r of Inl e \<Rightarrow> True | Inr info \<Rightarrow> canonical (pi_Flow info))"
  using classify_safe[of packet] by (auto simp: returns_canonical_def split: option.splits sum.splits)

text \<open>
  Both directions of an IPv4 flow get the same flow key: if a packet classifies, the packet
  with its addresses and (for TCP and UDP) its ports exchanged classifies too, to the same key with
  the endpoints exchanged, so both directions are sent over the same channel.
\<close>

theorem classify_direction_neutral:
  assumes "drop_bit 4 (packet ! 0) = (4 :: byte)" and "ClassifyPacketInfo packet = Some (Inr info)"
  shows "ClassifyPacketInfo (reply_ipv4 packet) =
    Some (Inr \<lparr>pi_Flow = pi_Flow info, pi_Source = pi_Destination info, pi_Destination = pi_Source info\<rparr>)"
proof -
  have v4: "classifyIPv4 packet = Some (Inr info)" and "packet \<noteq> []"
    using assms by (auto simp: ClassifyPacketInfo_def idx_def split: if_splits)
  then have r: "classifyIPv4 (reply_ipv4 packet) =
    Some (Inr \<lparr>pi_Flow = pi_Flow info, pi_Source = pi_Destination info, pi_Destination = pi_Source info\<rparr>)"
    by (intro classifyIPv4_reply)
  have "20 \<le> length packet"
    using v4 by (cases "length packet < 20") (auto simp: classifyIPv4_def)
  moreover have "20 \<le> header_len packet"
    using v4 \<open>20 \<le> length packet\<close> by (auto simp: classifyIPv4_eq Let_def split: if_splits)
  ultimately have "reply_ipv4 packet ! 0 = packet ! 0" by (intro reply_ipv4_header) auto
  with r assms(1) \<open>packet \<noteq> []\<close> show ?thesis
    by (simp add: ClassifyPacketInfo_def idx_def reply_ipv4_def)
qed

text \<open>A UDP packet from 10.0.0.2:53 to 10.0.0.1:5353.\<close>

definition sample_udp :: bytes where
  "sample_udp = [0x45, 0, 0, 28, 0, 0, 0, 0, 64, 17, 0, 0, 10, 0, 0, 2, 10, 0, 0, 1,
     0, 53, 0x14, 0xe9, 0, 8, 0, 0]"

definition sample_flow :: FlowKey where
  "sample_flow = \<lparr>fk_Source = Addr4 0x0a000001, fk_Destination = Addr4 0x0a000002, fk_Protocol = 17,
     fk_SourcePort = 5353, fk_DestPort = 53, fk_Fragmented = False\<rparr>"

lemma sample_udp_classified:
  "ClassifyPacketInfo sample_udp =
     Some (Inr \<lparr>pi_Flow = sample_flow, pi_Source = Addr4 0x0a000002, pi_Destination = Addr4 0x0a000001\<rparr>)"
  by code_simp

theorem classify_direction_neutral_witness:
  "ClassifyPacketInfo (reply_ipv4 sample_udp) =
     Some (Inr \<lparr>pi_Flow = sample_flow, pi_Source = Addr4 0x0a000001, pi_Destination = Addr4 0x0a000002\<rparr>)"
  using classify_direction_neutral[OF _ sample_udp_classified] by (simp add: sample_udp_def)

text \<open>
  \<open>SelectChannel\<close> chooses a healthy channel with a non-empty identifier whose rendezvous
  score no other such channel beats, and it fails exactly when there is none.
\<close>

theorem select_channel_best:
  "case SelectChannel key channels of
     Inl e \<Rightarrow> e = ErrNoHealthyChannel \<and> \<not> (\<exists>d \<in> set channels. usable d)
   | Inr c \<Rightarrow> c \<in> set channels \<and> ch_Healthy c \<and> ch_ID c \<noteq> [] \<and>
       \<not> (\<exists>d \<in> set channels. usable d \<and> score key (ch_ID c) < score key (ch_ID d))"
proof (cases "SelectChannel key channels")
  case (Inl e)
  with SelectChannel_Inl[of key channels e] show ?thesis by simp
next
  case (Inr c)
  then have "select_loop (score key) channels None = Some c" by (simp add: SelectChannel_Inr)
  from channel.sel_best[OF this] Inr show ?thesis by (auto simp: usable_def not_less)
qed

text \<open>
  C22. Rendezvous selection causes minimal disruption: when other channels leave or are dropped, a
  flow keeps its channel; when a channel is added anywhere in the list, a flow either keeps its
  channel or moves to the new one.
\<close>

theorem select_channel_stable:
  assumes "SelectChannel key channels = Inr c"
  shows "(P c \<longrightarrow> SelectChannel key (filter P channels) = Inr c) \<and>
    (channels = pre @ post \<longrightarrow> SelectChannel key (pre @ d # post) \<in> {Inr c, Inr d})"
  using assms channel.sel_filter[of key channels c P] channel.sel_add[of key pre post c d]
  by (auto simp: SelectChannel_Inr)

definition sample_channels :: "Channel list" where
  "sample_channels = [\<lparr>ch_ID = ''a'', ch_Healthy = True\<rparr>, \<lparr>ch_ID = ''b'', ch_Healthy = False\<rparr>]"

lemma sample_selected: "SelectChannel sample_flow sample_channels = Inr \<lparr>ch_ID = ''a'', ch_Healthy = True\<rparr>"
  by (simp add: SelectChannel_def sample_channels_def Let_def)

theorem select_channel_stable_witness:
  "SelectChannel sample_flow (filter ch_Healthy sample_channels) = Inr \<lparr>ch_ID = ''a'', ch_Healthy = True\<rparr>
   \<and> SelectChannel sample_flow (\<lparr>ch_ID = ''c'', ch_Healthy = True\<rparr> # sample_channels)
     \<in> {Inr \<lparr>ch_ID = ''a'', ch_Healthy = True\<rparr>, Inr \<lparr>ch_ID = ''c'', ch_Healthy = True\<rparr>}"
  using select_channel_stable[OF sample_selected, of ch_Healthy "[]" sample_channels
      "\<lparr>ch_ID = ''c'', ch_Healthy = True\<rparr>"]
  by simp

end
