(* ===== verification/RelayMessages.thy ===== *)
theory RelayMessages
  imports Prelude
begin

text \<open>
  The relay wire protocol, \<open>shared/relay/messages\<close>: \<open>message.go\<close> (hello, auth, transport, close and
  health-check frames), \<open>peer_state.go\<close> (lists of peer identifiers) and the layout of \<open>id.go\<close>.
  A buffer is built the way the code builds it (\<open>make\<close>, index assignments, \<open>copy\<close>), with every index
  and slice checked. A \<open>PeerID\<close> is a 36-byte array: a byte list of that length.

  The locale \<open>frame_codec\<close> is what the relay server and the clients rely on: a frame carries an
  identifier, a channel and a payload, decoding inverts encoding, and rewriting the identifier in
  place changes nothing else.
\<close>

section \<open>Constants and types\<close>

type_synonym peer_id = bytes

definition peerIDSize :: nat where "peerIDSize = 36"
definition MaxHandshakeSize :: nat where "MaxHandshakeSize = 212"
definition MaxHandshakeRespSize :: nat where "MaxHandshakeRespSize = 8192"
definition MaxMessageSize :: nat where "MaxMessageSize = 8820"
definition CurrentProtocolVersion :: nat where "CurrentProtocolVersion = 1"

definition MsgTypeUnknown :: byte where "MsgTypeUnknown = 0"
definition MsgTypeHello :: byte where "MsgTypeHello = 1"
definition MsgTypeHelloResponse :: byte where "MsgTypeHelloResponse = 2"
definition MsgTypeTransport :: byte where "MsgTypeTransport = 3"
definition MsgTypeClose :: byte where "MsgTypeClose = 4"
definition MsgTypeHealthCheck :: byte where "MsgTypeHealthCheck = 5"
definition MsgTypeAuth :: byte where "MsgTypeAuth = 6"
definition MsgTypeAuthResponse :: byte where "MsgTypeAuthResponse = 7"
definition MsgTypeSubscribePeerState :: byte where "MsgTypeSubscribePeerState = 8"
definition MsgTypeUnsubscribePeerState :: byte where "MsgTypeUnsubscribePeerState = 9"
definition MsgTypePeersOnline :: byte where "MsgTypePeersOnline = 10"
definition MsgTypePeersWentOffline :: byte where "MsgTypePeersWentOffline = 11"
definition MsgTypeTransportChannel :: byte where "MsgTypeTransportChannel = 12"
definition MsgTypeAuthChannel :: byte where "MsgTypeAuthChannel = 13"

definition sizeOfProtoHeader :: nat where "sizeOfProtoHeader = 2"
definition channelIDSize :: nat where "channelIDSize = 4"
definition sizeOfMagicByte :: nat where "sizeOfMagicByte = 4"
definition headerSizeAuth :: nat where "headerSizeAuth = sizeOfMagicByte + peerIDSize"
definition offsetMagicByte :: nat where "offsetMagicByte = sizeOfProtoHeader"
definition offsetAuthPeerID :: nat where "offsetAuthPeerID = sizeOfProtoHeader + sizeOfMagicByte"
definition headerTotalSizeAuth :: nat where "headerTotalSizeAuth = sizeOfProtoHeader + headerSizeAuth"
definition offsetAuthChannelID :: nat where "offsetAuthChannelID = headerTotalSizeAuth"
definition headerTotalSizeAuthChannel :: nat where
  "headerTotalSizeAuthChannel = headerTotalSizeAuth + channelIDSize"
definition headerSizeHello :: nat where "headerSizeHello = sizeOfMagicByte + peerIDSize"
definition headerSizeHelloResp :: nat where "headerSizeHelloResp = 0"
definition offsetTransportID :: nat where "offsetTransportID = sizeOfProtoHeader"
definition headerTotalSizeTransport :: nat where
  "headerTotalSizeTransport = sizeOfProtoHeader + peerIDSize"
definition offsetTransportChannelID :: nat where
  "offsetTransportChannelID = headerTotalSizeTransport"
definition headerTotalSizeTransportChannel :: nat where
  "headerTotalSizeTransportChannel = headerTotalSizeTransport + channelIDSize"

definition magicHeader :: bytes where "magicHeader = [0x21, 0x12, 0xA4, 0x42]"

lemmas size_defs = peerIDSize_def MaxHandshakeSize_def MaxHandshakeRespSize_def MaxMessageSize_def
  CurrentProtocolVersion_def sizeOfProtoHeader_def channelIDSize_def sizeOfMagicByte_def
  headerSizeAuth_def offsetMagicByte_def offsetAuthPeerID_def headerTotalSizeAuth_def
  offsetAuthChannelID_def headerTotalSizeAuthChannel_def headerSizeHello_def headerSizeHelloResp_def
  offsetTransportID_def headerTotalSizeTransport_def offsetTransportChannelID_def
  headerTotalSizeTransportChannel_def

lemmas type_defs = MsgTypeUnknown_def MsgTypeHello_def MsgTypeHelloResponse_def MsgTypeTransport_def
  MsgTypeClose_def MsgTypeHealthCheck_def MsgTypeAuth_def MsgTypeAuthResponse_def
  MsgTypeSubscribePeerState_def MsgTypeUnsubscribePeerState_def MsgTypePeersOnline_def
  MsgTypePeersWentOffline_def MsgTypeTransportChannel_def MsgTypeAuthChannel_def

datatype relay_err =
    ErrInvalidMessageLength
  | ErrUnsupportedVersion nat
  | ErrInvalidMsgType byte
  | ErrInvalidMagicHeader
  | ErrTooLargeAuthPayload
  | ErrInvalidAuthChannelType byte
  | ErrUnexpectedTransportType byte
  | ErrNoPeerIDs
  | ErrInvalidMessageFormat
  | ErrInvalidPeerListSize nat
  | ErrResponseTooLong nat

abbreviation is_peer_id :: "peer_id \<Rightarrow> bool" where
  "is_peer_id i \<equiv> length i = peerIDSize"

text \<open>The conversion of a slice to an array panics when the slice is too short.\<close>

definition to_peer_id :: "bytes \<Rightarrow> peer_id option" where
  "to_peer_id s = (if length s < peerIDSize then None else Some (take peerIDSize s))"

section \<open>Frames\<close>

definition ValidateVersion :: "bytes \<Rightarrow> (relay_err + nat) option" where
  "ValidateVersion msg =
     (if length msg < sizeOfProtoHeader then Some (Inl ErrInvalidMessageLength)
      else do {
        version \<leftarrow> map_option unat (idx msg 0);
        Some (if version \<noteq> CurrentProtocolVersion then Inl (ErrUnsupportedVersion version)
              else Inr version)
      })"

definition DetermineClientMessageType :: "bytes \<Rightarrow> (relay_err + byte) option" where
  "DetermineClientMessageType msg =
     (if length msg < sizeOfProtoHeader then Some (Inl ErrInvalidMessageLength)
      else do {
        msgType \<leftarrow> idx msg 1;
        Some (if msgType \<in> {MsgTypeHello, MsgTypeAuth, MsgTypeAuthChannel, MsgTypeTransport,
                MsgTypeTransportChannel, MsgTypeClose, MsgTypeHealthCheck,
                MsgTypeSubscribePeerState, MsgTypeUnsubscribePeerState}
              then Inr msgType else Inl (ErrInvalidMsgType msgType))
      })"

definition DetermineServerMessageType :: "bytes \<Rightarrow> (relay_err + byte) option" where
  "DetermineServerMessageType msg =
     (if length msg < sizeOfProtoHeader then Some (Inl ErrInvalidMessageLength)
      else do {
        msgType \<leftarrow> idx msg 1;
        Some (if msgType \<in> {MsgTypeHelloResponse, MsgTypeAuthResponse, MsgTypeTransport,
                MsgTypeTransportChannel, MsgTypeClose, MsgTypeHealthCheck, MsgTypePeersOnline,
                MsgTypePeersWentOffline}
              then Inr msgType else Inl (ErrInvalidMsgType msgType))
      })"

text \<open>The two protocol header bytes every frame starts with.\<close>

definition put_header :: "byte \<Rightarrow> bytes \<Rightarrow> bytes option" where
  "put_header msgType msg = do {
     msg \<leftarrow> set_at 0 (of_nat CurrentProtocolVersion) msg;
     set_at 1 msgType msg
   }"

definition MarshalHelloMsg :: "peer_id \<Rightarrow> bytes \<Rightarrow> (relay_err + bytes) option" where
  "MarshalHelloMsg peerID additions = do {
     msg \<leftarrow> put_header MsgTypeHello (replicate (sizeOfProtoHeader + sizeOfMagicByte) 0);
     msg \<leftarrow> copy_at sizeOfProtoHeader magicHeader msg;
     Some (Inr (msg @ peerID @ additions))
   }"

definition UnmarshalHelloMsg :: "bytes \<Rightarrow> (relay_err + peer_id \<times> bytes) option" where
  "UnmarshalHelloMsg msg =
     (if length msg < sizeOfProtoHeader + headerSizeHello then Some (Inl ErrInvalidMessageLength)
      else do {
        magic \<leftarrow> slice msg sizeOfProtoHeader (sizeOfProtoHeader + sizeOfMagicByte);
        if magic \<noteq> magicHeader then Some (Inl ErrInvalidMagicHeader)
        else do {
          peerID \<leftarrow> slice msg (sizeOfProtoHeader + sizeOfMagicByte)
                      (sizeOfProtoHeader + headerSizeHello) \<bind> to_peer_id;
          rest \<leftarrow> slice_from msg headerSizeHello;
          Some (Inr (peerID, rest))
        }
      })"

definition MarshalHelloResponse :: "bytes \<Rightarrow> (relay_err + bytes) option" where
  "MarshalHelloResponse additionalData = do {
     msg \<leftarrow> put_header MsgTypeHelloResponse (replicate sizeOfProtoHeader 0);
     Some (Inr (msg @ additionalData))
   }"

definition UnmarshalHelloResponse :: "bytes \<Rightarrow> relay_err + bytes" where
  "UnmarshalHelloResponse msg =
     (if length msg < sizeOfProtoHeader + headerSizeHelloResp then Inl ErrInvalidMessageLength
      else Inr msg)"

definition MarshalAuthMsg :: "peer_id \<Rightarrow> bytes \<Rightarrow> (relay_err + bytes) option" where
  "MarshalAuthMsg peerID authPayload =
     (if MaxHandshakeSize < headerTotalSizeAuth + length authPayload
      then Some (Inl ErrTooLargeAuthPayload)
      else do {
        msg \<leftarrow> put_header MsgTypeAuth (replicate (headerTotalSizeAuth + length authPayload) 0);
        msg \<leftarrow> copy_at sizeOfProtoHeader magicHeader msg;
        msg \<leftarrow> copy_at offsetAuthPeerID peerID msg;
        msg \<leftarrow> copy_at headerTotalSizeAuth authPayload msg;
        Some (Inr msg)
      })"

definition UnmarshalAuthMsg :: "bytes \<Rightarrow> (relay_err + peer_id \<times> bytes) option" where
  "UnmarshalAuthMsg msg =
     (if length msg < headerTotalSizeAuth then Some (Inl ErrInvalidMessageLength)
      else do {
        magic \<leftarrow> slice msg offsetMagicByte (offsetMagicByte + sizeOfMagicByte);
        if magic \<noteq> magicHeader then Some (Inl ErrInvalidMagicHeader)
        else do {
          peerID \<leftarrow> slice msg offsetAuthPeerID headerTotalSizeAuth \<bind> to_peer_id;
          payload \<leftarrow> slice_from msg headerTotalSizeAuth;
          Some (Inr (peerID, payload))
        }
      })"

definition putUint32 :: "nat \<Rightarrow> u32 \<Rightarrow> bytes \<Rightarrow> bytes option" where
  "putUint32 off v msg = do {
     msg \<leftarrow> set_at off (ucast (drop_bit 24 v)) msg;
     msg \<leftarrow> set_at (off + 1) (ucast (drop_bit 16 v)) msg;
     msg \<leftarrow> set_at (off + 2) (ucast (drop_bit 8 v)) msg;
     set_at (off + 3) (ucast v) msg
   }"

definition readUint32 :: "bytes \<Rightarrow> u32 option" where
  "readUint32 src = do {
     b0 \<leftarrow> idx src 0;
     b1 \<leftarrow> idx src 1;
     b2 \<leftarrow> idx src 2;
     b3 \<leftarrow> idx src 3;
     Some (push_bit 24 (ucast b0) OR push_bit 16 (ucast b1) OR push_bit 8 (ucast b2) OR ucast b3)
   }"

definition MarshalAuthChannelMsg :: "peer_id \<Rightarrow> u32 \<Rightarrow> bytes \<Rightarrow> (relay_err + bytes) option" where
  "MarshalAuthChannelMsg peerID channelID authPayload =
     (if channelID = 0 then MarshalAuthMsg peerID authPayload
      else if MaxHandshakeSize < headerTotalSizeAuthChannel + length authPayload
      then Some (Inl ErrTooLargeAuthPayload)
      else do {
        msg \<leftarrow> put_header MsgTypeAuthChannel
                 (replicate (headerTotalSizeAuthChannel + length authPayload) 0);
        msg \<leftarrow> copy_at sizeOfProtoHeader magicHeader msg;
        msg \<leftarrow> copy_at offsetAuthPeerID peerID msg;
        msg \<leftarrow> putUint32 offsetAuthChannelID channelID msg;
        msg \<leftarrow> copy_at headerTotalSizeAuthChannel authPayload msg;
        Some (Inr msg)
      })"

definition UnmarshalAuthChannelMsg :: "bytes \<Rightarrow> (relay_err + peer_id \<times> u32 \<times> bytes) option" where
  "UnmarshalAuthChannelMsg msg = do {
     t \<leftarrow> DetermineClientMessageType msg;
     case t of
       Inl e \<Rightarrow> Some (Inl e)
     | Inr msgType \<Rightarrow>
         if msgType = MsgTypeAuth then do {
           r \<leftarrow> UnmarshalAuthMsg msg;
           Some (map_sum id (\<lambda>(peerID, payload). (peerID, 0, payload)) r)
         }
         else if msgType \<noteq> MsgTypeAuthChannel then Some (Inl (ErrInvalidAuthChannelType msgType))
         else if length msg < headerTotalSizeAuthChannel then Some (Inl ErrInvalidMessageLength)
         else do {
           magic \<leftarrow> slice msg offsetMagicByte (offsetMagicByte + sizeOfMagicByte);
           if magic \<noteq> magicHeader then Some (Inl ErrInvalidMagicHeader)
           else do {
             peerID \<leftarrow> slice msg offsetAuthPeerID headerTotalSizeAuth \<bind> to_peer_id;
             channelID \<leftarrow> slice msg offsetAuthChannelID headerTotalSizeAuthChannel \<bind> readUint32;
             payload \<leftarrow> slice_from msg headerTotalSizeAuthChannel;
             Some (Inr (peerID, channelID, payload))
           }
         }
   }"

definition MarshalAuthResponse :: "bytes \<Rightarrow> (relay_err + bytes) option" where
  "MarshalAuthResponse ab = do {
     hdr \<leftarrow> put_header MsgTypeAuthResponse (replicate sizeOfProtoHeader 0);
     let msg = hdr @ ab;
     Some (if MaxHandshakeRespSize < length msg then Inl (ErrResponseTooLong (length msg)) else Inr msg)
   }"

definition UnmarshalAuthResponse :: "bytes \<Rightarrow> (relay_err + bytes) option" where
  "UnmarshalAuthResponse msg =
     (if length msg < sizeOfProtoHeader + 1 then Some (Inl ErrInvalidMessageLength)
      else map_option Inr (slice_from msg sizeOfProtoHeader))"

definition MarshalCloseMsg :: bytes where
  "MarshalCloseMsg = [of_nat CurrentProtocolVersion, MsgTypeClose]"

definition MarshalHealthcheck :: bytes where
  "MarshalHealthcheck = [of_nat CurrentProtocolVersion, MsgTypeHealthCheck]"

definition MarshalTransportMsg :: "peer_id \<Rightarrow> bytes \<Rightarrow> (relay_err + bytes) option" where
  "MarshalTransportMsg peerID payload = do {
     msg \<leftarrow> put_header MsgTypeTransport (replicate (headerTotalSizeTransport + length payload) 0);
     msg \<leftarrow> copy_at sizeOfProtoHeader peerID msg;
     msg \<leftarrow> copy_at (sizeOfProtoHeader + peerIDSize) payload msg;
     Some (Inr msg)
   }"

definition MarshalTransportChannelMsg :: "peer_id \<Rightarrow> u32 \<Rightarrow> bytes \<Rightarrow> (relay_err + bytes) option" where
  "MarshalTransportChannelMsg peerID channelID payload = do {
     msg \<leftarrow> put_header MsgTypeTransportChannel
              (replicate (headerTotalSizeTransportChannel + length payload) 0);
     msg \<leftarrow> copy_at sizeOfProtoHeader peerID msg;
     msg \<leftarrow> putUint32 offsetTransportChannelID channelID msg;
     msg \<leftarrow> copy_at headerTotalSizeTransportChannel payload msg;
     Some (Inr msg)
   }"

text \<open>\<open>var peerID PeerID; copy(peerID[:], buf[2:38])\<close>\<close>

definition read_transport_id :: "bytes \<Rightarrow> peer_id option" where
  "read_transport_id buf = do {
     src \<leftarrow> slice buf offsetTransportID (offsetTransportID + peerIDSize);
     copy_at 0 src (replicate peerIDSize 0)
   }"

definition UnmarshalTransportMsg :: "bytes \<Rightarrow> (relay_err + peer_id \<times> bytes) option" where
  "UnmarshalTransportMsg buf =
     (if length buf < headerTotalSizeTransport then Some (Inl ErrInvalidMessageLength)
      else do {
        peerID \<leftarrow> read_transport_id buf;
        payload \<leftarrow> slice_from buf headerTotalSizeTransport;
        Some (Inr (peerID, payload))
      })"

definition UnmarshalTransportChannelMsg :: "bytes \<Rightarrow> (relay_err + peer_id \<times> u32 \<times> bytes) option" where
  "UnmarshalTransportChannelMsg buf =
     (if length buf < sizeOfProtoHeader then Some (Inl ErrInvalidMessageLength)
      else do {
        msgType \<leftarrow> idx buf 1;
        if msgType = MsgTypeTransport then do {
          r \<leftarrow> UnmarshalTransportMsg buf;
          Some (map_sum id (\<lambda>(peerID, payload). (peerID, 0, payload)) r)
        }
        else if msgType = MsgTypeTransportChannel then
          (if length buf < headerTotalSizeTransportChannel then Some (Inl ErrInvalidMessageLength)
           else do {
             peerID \<leftarrow> read_transport_id buf;
             channelID \<leftarrow> slice_from buf offsetTransportChannelID \<bind> readUint32;
             payload \<leftarrow> slice_from buf headerTotalSizeTransportChannel;
             Some (Inr (peerID, channelID, payload))
           })
        else Some (Inl (ErrUnexpectedTransportType msgType))
      })"

definition UnmarshalTransportID :: "bytes \<Rightarrow> (relay_err + peer_id) option" where
  "UnmarshalTransportID buf =
     (if length buf < headerTotalSizeTransport then Some (Inl ErrInvalidMessageLength)
      else map_option Inr (read_transport_id buf))"

definition UpdateTransportMsg :: "bytes \<Rightarrow> peer_id \<Rightarrow> (relay_err + bytes) option" where
  "UpdateTransportMsg msg peerID =
     (if length msg < offsetTransportID + peerIDSize then Some (Inl ErrInvalidMessageLength)
      else map_option Inr (copy_at offsetTransportID peerID msg))"

section \<open>Peer lists\<close>

definition maxPeersPerMessage :: nat where
  "maxPeersPerMessage = (MaxMessageSize - sizeOfProtoHeader) div peerIDSize"

fun fill_ids :: "nat \<Rightarrow> peer_id list \<Rightarrow> bytes \<Rightarrow> bytes option" where
  "fill_ids offset [] buf = Some buf"
| "fill_ids offset (i # ids) buf = do {
     buf \<leftarrow> copy_at offset i buf;
     fill_ids (offset + peerIDSize) ids buf
   }"

definition marshal_chunk :: "byte \<Rightarrow> peer_id list \<Rightarrow> bytes option" where
  "marshal_chunk msgType chunk = do {
     buf \<leftarrow> put_header msgType (replicate (sizeOfProtoHeader + length chunk * peerIDSize) 0);
     fill_ids sizeOfProtoHeader chunk buf
   }"

lemma maxPeersPerMessage_eq: "maxPeersPerMessage = 244"
  by (simp add: maxPeersPerMessage_def size_defs)

function marshal_loop :: "peer_id list \<Rightarrow> byte \<Rightarrow> nat \<Rightarrow> bytes list option" where
  "marshal_loop ids msgType i =
     (if i < length ids then do {
        let e = min (i + maxPeersPerMessage) (length ids);
        chunk \<leftarrow> slice ids i e;
        buf \<leftarrow> marshal_chunk msgType chunk;
        rest \<leftarrow> marshal_loop ids msgType (i + maxPeersPerMessage);
        Some (buf # rest)
      }
      else Some [])"
  by pat_completeness auto
termination
  by (relation "measure (\<lambda>(ids, msgType, i). length ids - i)") (auto simp: maxPeersPerMessage_eq)

declare marshal_loop.simps [simp del]

definition marshalPeerIDs :: "peer_id list \<Rightarrow> byte \<Rightarrow> (relay_err + bytes list) option" where
  "marshalPeerIDs ids msgType =
     (if length ids = 0 then Some (Inl ErrNoPeerIDs)
      else map_option Inr (marshal_loop ids msgType 0))"

fun read_ids :: "bytes \<Rightarrow> nat \<Rightarrow> nat \<Rightarrow> peer_id list option" where
  "read_ids buf offset 0 = Some []"
| "read_ids buf offset (Suc n) = do {
     src \<leftarrow> slice buf offset (offset + peerIDSize);
     i \<leftarrow> copy_at 0 src (replicate peerIDSize 0);
     rest \<leftarrow> read_ids buf (offset + peerIDSize) n;
     Some (i # rest)
   }"

definition unmarshalPeerIDs :: "bytes \<Rightarrow> (relay_err + peer_id list) option" where
  "unmarshalPeerIDs buf =
     (if length buf < sizeOfProtoHeader then Some (Inl ErrInvalidMessageFormat)
      else if (length buf - sizeOfProtoHeader) mod peerIDSize \<noteq> 0
      then Some (Inl (ErrInvalidPeerListSize (length buf - sizeOfProtoHeader)))
      else map_option Inr
             (read_ids buf sizeOfProtoHeader ((length buf - sizeOfProtoHeader) div peerIDSize)))"

definition MarshalSubPeerStateMsg :: "peer_id list \<Rightarrow> (relay_err + bytes list) option" where
  "MarshalSubPeerStateMsg ids = marshalPeerIDs ids MsgTypeSubscribePeerState"

definition UnmarshalSubPeerStateMsg :: "bytes \<Rightarrow> (relay_err + peer_id list) option" where
  "UnmarshalSubPeerStateMsg buf = unmarshalPeerIDs buf"

definition MarshalUnsubPeerStateMsg :: "peer_id list \<Rightarrow> (relay_err + bytes list) option" where
  "MarshalUnsubPeerStateMsg ids = marshalPeerIDs ids MsgTypeUnsubscribePeerState"

definition UnmarshalUnsubPeerStateMsg :: "bytes \<Rightarrow> (relay_err + peer_id list) option" where
  "UnmarshalUnsubPeerStateMsg buf = unmarshalPeerIDs buf"

definition MarshalPeersOnline :: "peer_id list \<Rightarrow> (relay_err + bytes list) option" where
  "MarshalPeersOnline ids = marshalPeerIDs ids MsgTypePeersOnline"

definition UnmarshalPeersOnlineMsg :: "bytes \<Rightarrow> (relay_err + peer_id list) option" where
  "UnmarshalPeersOnlineMsg buf = unmarshalPeerIDs buf"

definition MarshalPeersWentOffline :: "peer_id list \<Rightarrow> (relay_err + bytes list) option" where
  "MarshalPeersWentOffline ids = marshalPeerIDs ids MsgTypePeersWentOffline"

definition UnMarshalPeersWentOffline :: "bytes \<Rightarrow> (relay_err + peer_id list) option" where
  "UnMarshalPeersWentOffline buf = unmarshalPeerIDs buf"

text \<open>
  \<open>HashID\<close> of \<open>id.go\<close>: the prefix \<open>sha-\<close> and the SHA-256 digest of the peer's key; the digest is an
  argument.
\<close>

definition HashID :: "(bytes \<Rightarrow> bytes) \<Rightarrow> bytes \<Rightarrow> peer_id option" where
  "HashID sha256 peerID = do {
     h \<leftarrow> copy_at 0 [0x73, 0x68, 0x61, 0x2d] (replicate peerIDSize 0);
     copy_at 4 (sha256 peerID) h
   }"

section \<open>Layouts\<close>

text \<open>
  What the encoders write, as one expression per frame. The equations are the reference the
  decoders are compared with.
\<close>

lemma copy_at_pad:
  "length pre = off \<Longrightarrow> length src \<le> n \<Longrightarrow>
   copy_at off src (pre @ replicate n x) = Some (pre @ src @ replicate (n - length src) x)"
  by (simp add: copy_at_def)

lemma copy_at_mid:
  "length pre = off \<Longrightarrow> length src = length old \<Longrightarrow>
   copy_at off src (pre @ old @ post) = Some (pre @ src @ post)"
  by (simp add: copy_at_def)

lemma slice_mid:
  "length pre = a \<Longrightarrow> a + length mid = b \<Longrightarrow> slice (pre @ mid @ post) a b = Some mid"
  by (auto simp: slice_def)

lemma slice_from_end: "length pre = a \<Longrightarrow> slice_from (pre @ post) a = Some post"
  by (simp add: slice_from_def slice_def)

definition u32_bytes :: "u32 \<Rightarrow> bytes" where
  "u32_bytes v = [ucast (drop_bit 24 v), ucast (drop_bit 16 v), ucast (drop_bit 8 v), ucast v]"

lemma length_u32_bytes [simp]: "length (u32_bytes v) = 4"
  by (simp add: u32_bytes_def)

lemma length_magicHeader [simp]: "length magicHeader = 4"
  by (simp add: magicHeader_def)

lemma put_header_pad: "put_header t (replicate (Suc (Suc n)) 0) = Some ([1, t] @ replicate n 0)"
  by (simp add: put_header_def set_at_def CurrentProtocolVersion_def)

lemma putUint32_pad:
  assumes "length pre = off" and "4 \<le> n"
  shows "putUint32 off v (pre @ replicate n 0) = Some (pre @ u32_bytes v @ replicate (n - 4) 0)"
proof -
  obtain k where "n = Suc (Suc (Suc (Suc k)))" using assms(2) by (auto simp: numeral_eq_Suc le_Suc_eq dest!: le_Suc_ex)
  then show ?thesis using assms(1)
    by (simp add: putUint32_def set_at_def u32_bytes_def list_update_append nth_append)
qed

lemma readUint32_bytes: "readUint32 (u32_bytes v @ rest) = Some v"
proof -
  have "push_bit 24 (ucast (ucast (drop_bit 24 v) :: byte)) OR
        push_bit 16 (ucast (ucast (drop_bit 16 v) :: byte)) OR
        push_bit 8 (ucast (ucast (drop_bit 8 v) :: byte)) OR ucast (ucast v :: byte) = v" (is "?w = v")
  proof (rule bit_word_eqI)
    fix n assume n: "n < LENGTH(32)"
    consider "n < 8" | "8 \<le> n" "n < 16" | "16 \<le> n" "n < 24" | "24 \<le> n" by linarith
    then show "bit ?w n = bit v n" using n by cases (auto simp: bit_simps)
  qed
  then show ?thesis by (simp add: readUint32_def u32_bytes_def idx_def)
qed

lemma MarshalHelloMsg_layout:
  "MarshalHelloMsg i adds = Some (Inr ([1, MsgTypeHello] @ magicHeader @ i @ adds))"
  by (simp add: MarshalHelloMsg_def size_defs put_header_def set_at_def copy_at_def numeral_eq_Suc)

lemma MarshalAuthMsg_layout:
  assumes "is_peer_id i"
  shows "MarshalAuthMsg i pl =
    Some (if MaxHandshakeSize < headerTotalSizeAuth + length pl then Inl ErrTooLargeAuthPayload
          else Inr ([1, MsgTypeAuth] @ magicHeader @ i @ pl))"
proof -
  have "replicate (42 + length pl) 0 = replicate (Suc (Suc (40 + length pl))) (0 :: byte)"
    by (simp add: numeral_eq_Suc)
  then show ?thesis using assms
    copy_at_pad [of "[1, MsgTypeAuth]" 2 magicHeader "40 + length pl" "0 :: byte"]
    copy_at_pad [of "[1, MsgTypeAuth] @ magicHeader" 6 i "36 + length pl" "0 :: byte"]
    copy_at_pad [of "[1, MsgTypeAuth] @ magicHeader @ i" 42 pl "length pl" "0 :: byte"]
    put_header_pad [of MsgTypeAuth "40 + length pl"]
    by (simp add: MarshalAuthMsg_def size_defs)
qed

lemma MarshalAuthChannelMsg_layout:
  assumes "is_peer_id i" and "ch \<noteq> 0"
  shows "MarshalAuthChannelMsg i ch pl =
    Some (if MaxHandshakeSize < headerTotalSizeAuthChannel + length pl then Inl ErrTooLargeAuthPayload
          else Inr ([1, MsgTypeAuthChannel] @ magicHeader @ i @ u32_bytes ch @ pl))"
proof -
  have "replicate (46 + length pl) 0 = replicate (Suc (Suc (44 + length pl))) (0 :: byte)"
    by (simp add: numeral_eq_Suc)
  then show ?thesis using assms
    copy_at_pad [of "[1, MsgTypeAuthChannel]" 2 magicHeader "44 + length pl" "0 :: byte"]
    copy_at_pad [of "[1, MsgTypeAuthChannel] @ magicHeader" 6 i "40 + length pl" "0 :: byte"]
    putUint32_pad [of "[1, MsgTypeAuthChannel] @ magicHeader @ i" 42 "4 + length pl" ch]
    copy_at_pad [of "[1, MsgTypeAuthChannel] @ magicHeader @ i @ u32_bytes ch" 46 pl "length pl" "0 :: byte"]
    put_header_pad [of MsgTypeAuthChannel "44 + length pl"]
    by (simp add: MarshalAuthChannelMsg_def size_defs)
qed

lemma MarshalTransportMsg_layout:
  assumes "is_peer_id i"
  shows "MarshalTransportMsg i pl = Some (Inr ([1, MsgTypeTransport] @ i @ pl))"
proof -
  have "replicate (38 + length pl) 0 = replicate (Suc (Suc (36 + length pl))) (0 :: byte)"
    by (simp add: numeral_eq_Suc)
  then show ?thesis using assms
    copy_at_pad [of "[1, MsgTypeTransport]" 2 i "36 + length pl" "0 :: byte"]
    copy_at_pad [of "[1, MsgTypeTransport] @ i" 38 pl "length pl" "0 :: byte"]
    put_header_pad [of MsgTypeTransport "36 + length pl"]
    by (simp add: MarshalTransportMsg_def size_defs)
qed

lemma MarshalTransportChannelMsg_layout:
  assumes "is_peer_id i"
  shows "MarshalTransportChannelMsg i ch pl =
    Some (Inr ([1, MsgTypeTransportChannel] @ i @ u32_bytes ch @ pl))"
proof -
  have "replicate (42 + length pl) 0 = replicate (Suc (Suc (40 + length pl))) (0 :: byte)"
    by (simp add: numeral_eq_Suc)
  then show ?thesis using assms
    copy_at_pad [of "[1, MsgTypeTransportChannel]" 2 i "40 + length pl" "0 :: byte"]
    putUint32_pad [of "[1, MsgTypeTransportChannel] @ i" 38 "4 + length pl" ch]
    copy_at_pad [of "[1, MsgTypeTransportChannel] @ i @ u32_bytes ch" 42 pl "length pl" "0 :: byte"]
    put_header_pad [of MsgTypeTransportChannel "40 + length pl"]
    by (simp add: MarshalTransportChannelMsg_def size_defs)
qed

lemmas marshal_layouts = MarshalHelloMsg_layout MarshalAuthMsg_layout MarshalAuthChannelMsg_layout
  MarshalTransportMsg_layout MarshalTransportChannelMsg_layout

section \<open>Decoding frames\<close>

lemma to_peer_id_Some [slice_simps]: "is_peer_id i \<Longrightarrow> to_peer_id i = Some i"
  by (simp add: to_peer_id_def)

lemma read_transport_id_layout:
  assumes "is_peer_id i"
  shows "read_transport_id ([a, b] @ i @ rest) = Some i"
  using assms slice_mid [of "[a, b]" 2 i 38 rest]
  by (simp add: read_transport_id_def size_defs copy_at_def)

lemma UnmarshalAuthMsg_layout:
  assumes "is_peer_id i"
  shows "UnmarshalAuthMsg ([a, b] @ magicHeader @ i @ pl) = Some (Inr (i, pl))"
  using assms slice_mid [of "[a, b]" 2 magicHeader 6 "i @ pl"]
    slice_mid [of "[a, b] @ magicHeader" 6 i 42 pl]
    slice_from_end [of "[a, b] @ magicHeader @ i" 42 pl]
  by (simp add: UnmarshalAuthMsg_def size_defs to_peer_id_def)

lemma UnmarshalAuthChannelMsg_layout:
  assumes "is_peer_id i"
  shows "UnmarshalAuthChannelMsg ([1, MsgTypeAuthChannel] @ magicHeader @ i @ u32_bytes ch @ pl) =
    Some (Inr (i, ch, pl))"
  using assms slice_mid [of "[1, MsgTypeAuthChannel]" 2 magicHeader 6 "i @ u32_bytes ch @ pl"]
    slice_mid [of "[1, MsgTypeAuthChannel] @ magicHeader" 6 i 42 "u32_bytes ch @ pl"]
    slice_mid [of "[1, MsgTypeAuthChannel] @ magicHeader @ i" 42 "u32_bytes ch" 46 pl]
    slice_from_end [of "[1, MsgTypeAuthChannel] @ magicHeader @ i @ u32_bytes ch" 46 pl]
    readUint32_bytes [of ch "[]"]
  by (simp add: UnmarshalAuthChannelMsg_def DetermineClientMessageType_def idx_def size_defs
      to_peer_id_def type_defs)

lemma UnmarshalAuthChannelMsg_legacy:
  assumes "is_peer_id i"
  shows "UnmarshalAuthChannelMsg ([1, MsgTypeAuth] @ magicHeader @ i @ pl) = Some (Inr (i, 0, pl))"
  using UnmarshalAuthMsg_layout [OF assms, of 1 MsgTypeAuth pl]
  by (simp add: UnmarshalAuthChannelMsg_def DetermineClientMessageType_def idx_def size_defs)

lemma UnmarshalTransportMsg_layout:
  assumes "is_peer_id i"
  shows "UnmarshalTransportMsg ([a, b] @ i @ pl) = Some (Inr (i, pl))"
  using assms read_transport_id_layout [of i a b pl] slice_from_end [of "[a, b] @ i" 38 pl]
  by (simp add: UnmarshalTransportMsg_def size_defs)

lemma UnmarshalTransportChannelMsg_layout:
  assumes "is_peer_id i"
  shows "UnmarshalTransportChannelMsg ([1, MsgTypeTransportChannel] @ i @ u32_bytes ch @ pl) =
    Some (Inr (i, ch, pl))"
  using assms read_transport_id_layout [of i 1 MsgTypeTransportChannel "u32_bytes ch @ pl"]
    slice_from_end [of "[1, MsgTypeTransportChannel] @ i" 38 "u32_bytes ch @ pl"]
    slice_from_end [of "[1, MsgTypeTransportChannel] @ i @ u32_bytes ch" 42 pl]
    readUint32_bytes [of ch pl]
  by (simp add: UnmarshalTransportChannelMsg_def idx_def size_defs type_defs)

lemma UnmarshalTransportChannelMsg_legacy:
  assumes "is_peer_id i"
  shows "UnmarshalTransportChannelMsg ([1, MsgTypeTransport] @ i @ pl) = Some (Inr (i, 0, pl))"
  using UnmarshalTransportMsg_layout [OF assms, of 1 MsgTypeTransport pl]
  by (simp add: UnmarshalTransportChannelMsg_def idx_def size_defs)

text \<open>Every accepted transport frame has one of the two layouts.\<close>

lemma split_frame:
  assumes "2 + n \<le> length buf"
  obtains a b i rest where "buf = [a, b] @ i @ rest" and "length i = n"
proof -
  from assms obtain a b r where "buf = a # b # r" by (cases buf; cases "tl buf") auto
  then show ?thesis using that [of a b "take n r" "drop n r"] assms by simp
qed

lemma decode_transport:
  assumes "is_peer_id i"
  shows "UnmarshalTransportChannelMsg ([a, b] @ i @ rest) =
    (if b = MsgTypeTransport then Some (Inr (i, 0, rest))
     else if b = MsgTypeTransportChannel then
       (if length rest < channelIDSize then Some (Inl ErrInvalidMessageLength)
        else do { ch \<leftarrow> readUint32 rest; Some (Inr (i, ch, drop channelIDSize rest)) })
     else Some (Inl (ErrUnexpectedTransportType b)))"
  using assms read_transport_id_layout [OF assms, simplified]
    UnmarshalTransportMsg_layout [OF assms, simplified]
  by (simp add: UnmarshalTransportChannelMsg_def idx_def size_defs type_defs slice_from_Some)

lemma decode_transport_length:
  assumes "UnmarshalTransportChannelMsg buf = Some (Inr r)"
  shows "2 + peerIDSize \<le> length buf"
  using assms
  by (auto simp: UnmarshalTransportChannelMsg_def UnmarshalTransportMsg_def size_defs
      split: if_splits bind_splits option.splits sum.splits)

lemma UpdateTransportMsg_layout:
  assumes "is_peer_id i" and "is_peer_id i'"
  shows "UpdateTransportMsg ([a, b] @ i @ rest) i' = Some (Inr ([a, b] @ i' @ rest))"
  using assms copy_at_mid [of "[a, b]" 2 i' i rest] by (simp add: UpdateTransportMsg_def size_defs)

lemma decode_updated:
  assumes dec: "UnmarshalTransportChannelMsg buf = Some (Inr (i, ch, pl))" and i': "is_peer_id i'"
  shows "\<exists>buf'. UpdateTransportMsg buf i' = Some (Inr buf') \<and> length buf' = length buf \<and>
    UnmarshalTransportChannelMsg buf' = Some (Inr (i', ch, pl))"
proof -
  from split_frame [OF decode_transport_length [OF dec]] obtain a b j rest
    where buf: "buf = [a, b] @ j @ rest" and j: "is_peer_id j" by blast
  have "UnmarshalTransportChannelMsg ([a, b] @ i' @ rest) = Some (Inr (i', ch, pl))"
    using dec unfolding buf decode_transport [OF j] decode_transport [OF i']
    by (auto split: if_splits bind_splits)
  then show ?thesis unfolding buf using UpdateTransportMsg_layout [OF j i', of a b rest] i' j by simp
qed

section \<open>The contract of the transport frames\<close>

locale frame_codec =
  fixes enc :: "peer_id \<Rightarrow> u32 \<Rightarrow> bytes \<Rightarrow> (relay_err + bytes) option"
    and dec :: "bytes \<Rightarrow> (relay_err + peer_id \<times> u32 \<times> bytes) option"
    and readdress :: "bytes \<Rightarrow> peer_id \<Rightarrow> (relay_err + bytes) option"
    and channel_ok :: "u32 \<Rightarrow> bool"
  assumes dec_enc: "is_peer_id i \<Longrightarrow> channel_ok ch \<Longrightarrow>
      \<exists>m. enc i ch pl = Some (Inr m) \<and> dec m = Some (Inr (i, ch, pl))"
    and dec_readdress: "dec m = Some (Inr (i, ch, pl)) \<Longrightarrow> is_peer_id i' \<Longrightarrow>
      \<exists>m'. readdress m i' = Some (Inr m') \<and> length m' = length m \<and> dec m' = Some (Inr (i', ch, pl))"
begin

lemma enc_injective:
  assumes "is_peer_id i" "channel_ok ch" "is_peer_id i'" "channel_ok ch'"
    and "enc i ch pl = enc i' ch' pl'"
  shows "i = i' \<and> ch = ch' \<and> pl = pl'"
  using dec_enc [OF assms(1,2), of pl] dec_enc [OF assms(3,4), of pl'] assms(5) by auto

lemma forwarded:
  assumes "is_peer_id dst" "is_peer_id src" "channel_ok ch"
  shows "\<exists>m m'. enc dst ch pl = Some (Inr m) \<and> dec m = Some (Inr (dst, ch, pl)) \<and>
    readdress m src = Some (Inr m') \<and> dec m' = Some (Inr (src, ch, pl))"
  using dec_enc [OF assms(1,3), of pl] dec_readdress [OF _ assms(2)] by blast

end

interpretation channel_frame: frame_codec MarshalTransportChannelMsg UnmarshalTransportChannelMsg
  UpdateTransportMsg "\<lambda>_. True"
  by unfold_locales (auto simp: MarshalTransportChannelMsg_layout
      UnmarshalTransportChannelMsg_layout [simplified] dest: decode_updated)

interpretation legacy_frame: frame_codec "\<lambda>i _. MarshalTransportMsg i" UnmarshalTransportChannelMsg
  UpdateTransportMsg "\<lambda>ch. ch = 0"
  by unfold_locales (auto simp: MarshalTransportMsg_layout
      UnmarshalTransportChannelMsg_legacy [simplified] dest: decode_updated)

section \<open>Properties of single frames\<close>

text \<open>
  The auth frame round trip: for every 36-byte peer identifier, channel and payload that fits in
  a handshake, marshalling succeeds with a frame of at most \<open>MaxHandshakeSize\<close> bytes that the server
  decodes to the same identifier, channel and payload; channel 0 uses the legacy frame, which the
  channel-aware decoder reads back as channel 0.
\<close>

theorem auth_roundtrip:
  assumes "is_peer_id i" and "headerTotalSizeAuthChannel + length pl \<le> MaxHandshakeSize"
  shows "\<exists>m. MarshalAuthChannelMsg i ch pl = Some (Inr m) \<and> length m \<le> MaxHandshakeSize \<and>
    (m ! 1 = MsgTypeAuth \<longleftrightarrow> ch = 0) \<and> UnmarshalAuthChannelMsg m = Some (Inr (i, ch, pl))"
proof (cases "ch = 0")
  case True
  then show ?thesis using assms UnmarshalAuthChannelMsg_legacy [OF assms(1), of pl]
    by (simp add: MarshalAuthChannelMsg_def MarshalAuthMsg_layout size_defs)
next
  case False
  then show ?thesis using assms UnmarshalAuthChannelMsg_layout [OF assms(1), of ch pl]
    by (simp add: MarshalAuthChannelMsg_layout size_defs type_defs)
qed

theorem auth_roundtrip_witness:
  "\<exists>m. MarshalAuthChannelMsg (replicate 36 7) 513 [1, 2, 3] = Some (Inr m) \<and>
    length m \<le> MaxHandshakeSize \<and> (m ! 1 = MsgTypeAuth \<longleftrightarrow> (513 :: u32) = 0) \<and>
    UnmarshalAuthChannelMsg m = Some (Inr (replicate 36 7, 513, [1, 2, 3]))"
  by (rule auth_roundtrip) (simp_all add: size_defs)

text \<open>
  C39. The hello round trip loses alignment: \<open>UnmarshalHelloMsg\<close> returns the peer identifier that was
  sent, but slices the remainder at \<open>headerSizeHello\<close>, which does not count the two protocol header
  bytes. The additions it returns are the last two bytes of the identifier followed by the additions
  that were sent, so they never equal what was sent.
\<close>

theorem hello_additions_misaligned:
  assumes "is_peer_id i"
  shows "\<exists>m rest. MarshalHelloMsg i adds = Some (Inr m) \<and> UnmarshalHelloMsg m = Some (Inr (i, rest)) \<and>
    rest = drop 34 i @ adds \<and> rest \<noteq> adds"
  using assms slice_mid [of "[1, MsgTypeHello]" 2 magicHeader 6 "i @ adds"]
    slice_mid [of "[1, MsgTypeHello] @ magicHeader" 6 i 42 adds]
  by (auto simp: MarshalHelloMsg_layout UnmarshalHelloMsg_def size_defs to_peer_id_def slice_from_Some
      dest: arg_cong [of _ _ length])

theorem hello_additions_misaligned_witness:
  "\<exists>m rest. MarshalHelloMsg (replicate 36 7) [9] = Some (Inr m) \<and>
    UnmarshalHelloMsg m = Some (Inr (replicate 36 7, rest)) \<and>
    rest = drop 34 (replicate 36 7) @ [9] \<and> rest \<noteq> [9]"
  by (rule hello_additions_misaligned) (simp add: size_defs)

section \<open>Peer lists\<close>

text \<open>The reference for the chunking loop: consecutive pieces of at most \<open>n\<close> elements.\<close>

function chunks :: "nat \<Rightarrow> 'a list \<Rightarrow> 'a list list" where
  "chunks n xs = (if n = 0 \<or> xs = [] then [] else take n xs # chunks n (drop n xs))"
  by pat_completeness auto
termination
  by (relation "measure (\<lambda>(n, xs). length xs)") (auto simp: neq_Nil_conv)

declare chunks.simps [simp del]

lemma concat_chunks: "0 < n \<Longrightarrow> concat (chunks n xs) = xs"
  by (induction n xs rule: chunks.induct) (subst chunks.simps, simp)

lemma chunks_bounds: "c \<in> set (chunks n xs) \<Longrightarrow> c \<noteq> [] \<and> length c \<le> n \<and> set c \<subseteq> set xs"
proof (induction n xs rule: chunks.induct)
  case (1 n xs)
  then show ?case using set_take_subset [of n xs] set_drop_subset [of n xs]
    by (subst (asm) (2) chunks.simps) (auto split: if_splits)
qed

lemma length_concat_ids: "\<forall>i\<in>set ids. is_peer_id i \<Longrightarrow> length (concat ids) = length ids * peerIDSize"
  by (induction ids) auto

lemma fill_ids_layout:
  "\<forall>i\<in>set ids. is_peer_id i \<Longrightarrow>
   fill_ids (length pre) ids (pre @ replicate (length ids * peerIDSize) 0) = Some (pre @ concat ids)"
proof (induction ids arbitrary: pre)
  case (Cons i ids)
  then have i: "is_peer_id i" by simp
  have "copy_at (length pre) i (pre @ replicate (length (i # ids) * peerIDSize) 0) =
      Some ((pre @ i) @ replicate (length ids * peerIDSize) 0)"
    using copy_at_pad [of pre "length pre" i "length (i # ids) * peerIDSize" "0 :: byte"] i by simp
  moreover have "length pre + peerIDSize = length (pre @ i)" using i by simp
  ultimately show ?case using Cons.IH [of "pre @ i"] Cons.prems
    by (simp del: append_assoc length_append)
qed simp

lemma marshal_chunk_layout:
  assumes "\<forall>i\<in>set chunk. is_peer_id i"
  shows "marshal_chunk t chunk = Some ([1, t] @ concat chunk)"
proof -
  have "put_header t (replicate (2 + length chunk * peerIDSize) 0) =
      Some ([1, t] @ replicate (length chunk * peerIDSize) 0)"
    using put_header_pad [of t "length chunk * peerIDSize"] by simp
  then show ?thesis using fill_ids_layout [OF assms, of "[1, t]"]
    by (simp add: marshal_chunk_def sizeOfProtoHeader_def numeral_eq_Suc)
qed

lemma marshal_loop_layout:
  assumes "\<forall>i\<in>set ids. is_peer_id i"
  shows "marshal_loop ids t i = Some (map (\<lambda>c. [1, t] @ concat c) (chunks maxPeersPerMessage (drop i ids)))"
  using assms
proof (induction ids t i rule: marshal_loop.induct)
  case (1 ids t i)
  show ?case
  proof (cases "i < length ids")
    case True
    let ?n = maxPeersPerMessage
    have ch: "slice ids i (min (i + ?n) (length ids)) = Some (take ?n (drop i ids))"
      using True by (auto simp: slice_def min_def)
    have wf: "\<forall>j\<in>set (take ?n (drop i ids)). is_peer_id j"
      using 1(2) by (meson in_set_takeD in_set_dropD)
    have IH: "marshal_loop ids t (i + ?n) =
        Some (map (\<lambda>c. [1, t] @ concat c) (chunks ?n (drop (i + ?n) ids)))"
      using 1(1) [OF True _ ch marshal_chunk_layout [OF wf]] 1(2) by simp
    have "chunks ?n (drop i ids) = take ?n (drop i ids) # chunks ?n (drop (i + ?n) ids)"
      using True by (subst chunks.simps) (simp add: maxPeersPerMessage_eq add.commute)
    then show ?thesis using True IH
      by (subst marshal_loop.simps) (simp add: ch marshal_chunk_layout [OF wf])
  next
    case False
    then show ?thesis by (simp add: marshal_loop.simps [of ids t i] chunks.simps [of _ "[]"])
  qed
qed

lemma read_ids_layout:
  "\<forall>i\<in>set ids. is_peer_id i \<Longrightarrow> read_ids (pre @ concat ids) (length pre) (length ids) = Some ids"
proof (induction ids arbitrary: pre)
  case (Cons i ids)
  have "length pre + peerIDSize = length (pre @ i)" using Cons.prems by simp
  then show ?case using Cons.IH [of "pre @ i"] Cons.prems
      slice_mid [of pre "length pre" i "length pre + peerIDSize" "concat ids"]
    by (simp add: copy_at_def)
qed simp

lemma unmarshalPeerIDs_layout:
  assumes "\<forall>i\<in>set ids. is_peer_id i"
  shows "unmarshalPeerIDs ([1, t] @ concat ids) = Some (Inr ids)"
  using read_ids_layout [OF assms, of "[1, t]"] length_concat_ids [OF assms]
  by (simp add: unmarshalPeerIDs_def sizeOfProtoHeader_def numeral_2_eq_2 peerIDSize_def)

lemma read_ids_total: "off + n * peerIDSize \<le> length buf \<Longrightarrow> read_ids buf off n \<noteq> None"
proof (induction n arbitrary: off)
  case (Suc n)
  then obtain r where "read_ids buf (off + peerIDSize) n = Some r" by (fastforce simp: algebra_simps)
  then show ?case using Suc.prems by (simp add: slice_def copy_at_def)
qed simp

text \<open>
  C30. Announcements of peer lists lose nothing and stay within the transport's limit: for every
  non-empty list of peer identifiers, marshalling succeeds, every frame carries the requested type
  and at most \<open>MaxMessageSize\<close> bytes, and decoding the frames one by one and concatenating the
  results gives back the list, in order.
\<close>

theorem peer_list_roundtrip:
  assumes "ids \<noteq> []" and wf: "\<forall>i\<in>set ids. is_peer_id i"
  shows "\<exists>ms parts. marshalPeerIDs ids t = Some (Inr ms) \<and>
    (\<forall>m\<in>set ms. length m \<le> MaxMessageSize \<and> take 2 m = [1, t]) \<and>
    map unmarshalPeerIDs ms = map (\<lambda>p. Some (Inr p)) parts \<and> concat parts = ids"
proof -
  let ?parts = "chunks maxPeersPerMessage ids"
  have part: "\<forall>i\<in>set p. is_peer_id i" "length p \<le> 244" if "p \<in> set ?parts" for p
    using chunks_bounds [OF that] wf by (auto simp: maxPeersPerMessage_eq)
  have "marshalPeerIDs ids t = Some (Inr (map (\<lambda>c. [1, t] @ concat c) ?parts))"
    using assms(1) marshal_loop_layout [OF wf, of t 0] by (simp add: marshalPeerIDs_def)
  moreover have "length ([1, t] @ concat p) \<le> MaxMessageSize" if "p \<in> set ?parts" for p
    using part [OF that] length_concat_ids [of p] by (simp add: size_defs)
  moreover have "map unmarshalPeerIDs (map (\<lambda>c. [1, t] @ concat c) ?parts) =
      map (\<lambda>p. Some (Inr p)) ?parts"
    unfolding list.map_comp by (rule map_cong) (use part unmarshalPeerIDs_layout in auto)
  moreover have "concat ?parts = ids" by (simp add: concat_chunks maxPeersPerMessage_eq)
  ultimately show ?thesis
    by (intro exI [of _ "map (\<lambda>c. [1, t] @ concat c) ?parts"] exI [of _ ?parts]) simp
qed

theorem peer_list_roundtrip_witness:
  "\<exists>ms parts. marshalPeerIDs (replicate 300 (replicate 36 5)) MsgTypePeersOnline = Some (Inr ms) \<and>
    list_all (\<lambda>m. length m \<le> MaxMessageSize \<and> take 2 m = [1, MsgTypePeersOnline]) ms \<and>
    map unmarshalPeerIDs ms = map (\<lambda>p. Some (Inr p)) parts \<and>
    concat parts = replicate 300 (replicate 36 5)"
  unfolding list_all_iff by (rule peer_list_roundtrip) (simp_all add: peerIDSize_def)

section \<open>Robustness of the decoders\<close>

lemma DetermineClientMessageType_total: "DetermineClientMessageType m \<noteq> None"
  by (simp add: DetermineClientMessageType_def idx_def size_defs)

lemma UnmarshalAuthMsg_total: "UnmarshalAuthMsg m \<noteq> None"
  by (auto simp: UnmarshalAuthMsg_def size_defs slice_def slice_from_def to_peer_id_def)

lemma read_transport_id_total: "38 \<le> length m \<Longrightarrow> read_transport_id m \<noteq> None"
  by (simp add: read_transport_id_def slice_def copy_at_def size_defs)

lemma UnmarshalTransportMsg_total: "UnmarshalTransportMsg m \<noteq> None"
  using read_transport_id_total [of m]
  by (auto simp: UnmarshalTransportMsg_def slice_def slice_from_def size_defs)

lemma readUint32_total: "4 \<le> length r \<Longrightarrow> readUint32 r \<noteq> None"
  by (cases r) (auto simp: readUint32_def idx_def)

lemma UnmarshalAuthChannelMsg_total: "UnmarshalAuthChannelMsg m \<noteq> None"
  using DetermineClientMessageType_total [of m] UnmarshalAuthMsg_total [of m]
    readUint32_total [of "take 4 (drop 42 m)"]
  by (cases "46 \<le> length m"; cases "readUint32 (take 4 (drop 42 m))")
    (auto simp: UnmarshalAuthChannelMsg_def slice_def slice_from_def to_peer_id_def size_defs
      split: sum.splits)

lemma UnmarshalTransportChannelMsg_total: "UnmarshalTransportChannelMsg m \<noteq> None"
proof (cases "length m < 38")
  case True
  then show ?thesis using UnmarshalTransportMsg_total [of m]
    by (auto simp: UnmarshalTransportChannelMsg_def idx_def size_defs)
next
  case False
  then have "2 + peerIDSize \<le> length m" by (simp add: peerIDSize_def)
  from split_frame [OF this] obtain a b i rest where "m = [a, b] @ i @ rest" "is_peer_id i" by blast
  then show ?thesis using readUint32_total [of rest]
    by (auto simp: decode_transport [simplified] channelIDSize_def)
qed

lemma unmarshalPeerIDs_total: "unmarshalPeerIDs m \<noteq> None"
  using read_ids_total [of 2 "(length m - 2) div 36" m] by (auto simp: unmarshalPeerIDs_def size_defs)

lemma header_decoders_total:
  "ValidateVersion m \<noteq> None" "DetermineServerMessageType m \<noteq> None" "UnmarshalAuthResponse m \<noteq> None"
  by (simp_all add: ValidateVersion_def DetermineServerMessageType_def UnmarshalAuthResponse_def
      idx_def slice_def slice_from_def size_defs)

lemma id_decoders_total:
  "UnmarshalHelloMsg m \<noteq> None" "UnmarshalTransportID m \<noteq> None" "UpdateTransportMsg m i \<noteq> None"
  using read_transport_id_total [of m]
  by (simp_all add: UnmarshalHelloMsg_def UnmarshalTransportID_def UpdateTransportMsg_def size_defs
      slice_def slice_from_def copy_at_def to_peer_id_def)

lemmas decoder_total = header_decoders_total id_decoders_total DetermineClientMessageType_total UnmarshalAuthMsg_total
  UnmarshalTransportMsg_total UnmarshalAuthChannelMsg_total UnmarshalTransportChannelMsg_total
  unmarshalPeerIDs_total

text \<open>
  C31. No input makes a relay decoder panic: on every byte string, of any length, each decoder of the
  wire protocol stays within the bounds of its buffer and returns either a value or an error.
\<close>

theorem decoders_never_panic:
  "ValidateVersion m \<noteq> None \<and> DetermineClientMessageType m \<noteq> None \<and>
   DetermineServerMessageType m \<noteq> None \<and> UnmarshalHelloMsg m \<noteq> None \<and>
   UnmarshalAuthMsg m \<noteq> None \<and> UnmarshalAuthChannelMsg m \<noteq> None \<and>
   UnmarshalAuthResponse m \<noteq> None \<and> UnmarshalTransportMsg m \<noteq> None \<and>
   UnmarshalTransportChannelMsg m \<noteq> None \<and> UnmarshalTransportID m \<noteq> None \<and>
   UpdateTransportMsg m i \<noteq> None \<and> unmarshalPeerIDs m \<noteq> None"
  by (intro conjI decoder_total)

end
