(* ===== verification/RelayAuth.thy ===== *)
theory RelayAuth
  imports RelayMessages
begin

text \<open>
  Authentication of relay clients, \<open>shared/relay/auth\<close>: the v2 token (\<open>hmac/v2\<close>) that the relay
  server validates, the deprecated credentials (\<open>hmac/token.go\<close>), the secrets manager of the
  management server that issues relay and TURN credentials (\<open>token_mgr.go\<close>) and the client's
  token store that turns relay credentials into a token (\<open>hmac/store.go\<close>).

  The keyed hash and base64 are arguments of the operations that use them; the properties state the
  digest length and that base64 decoding inverts encoding as hypotheses. Time is an argument, in
  nanoseconds since the epoch; \<open>unix_sec\<close> is \<open>Time.Unix\<close>. Strings are byte lists.
\<close>

section \<open>Decimal numbers\<close>

fun dec_digits :: "nat \<Rightarrow> bytes" where
  "dec_digits n = (if n < 10 then [48 + of_nat n] else dec_digits (n div 10) @ [48 + of_nat (n mod 10)])"

declare dec_digits.simps [simp del]

definition FormatInt :: "int \<Rightarrow> bytes" where
  "FormatInt n = (if n < 0 then 45 # dec_digits (nat (- n)) else dec_digits (nat n))"

fun parse_digits :: "nat \<Rightarrow> bytes \<Rightarrow> nat option" where
  "parse_digits acc [] = Some acc"
| "parse_digits acc (c # cs) =
     (if 48 \<le> c \<and> c \<le> 57 then parse_digits (acc * 10 + unat (c - 48)) cs else None)"

text \<open>\<open>strconv.ParseInt(s, 10, 64)\<close>; \<open>None\<close> is a syntax or a range error.\<close>

definition ParseInt :: "bytes \<Rightarrow> int option" where
  "ParseInt s =
     (let neg = (s \<noteq> [] \<and> hd s = 45);
          s' = (if s \<noteq> [] \<and> (hd s = 43 \<or> hd s = 45) then tl s else s)
      in if s' = [] then None
         else case parse_digits 0 s' of
                None \<Rightarrow> None
              | Some n \<Rightarrow> if \<not> neg \<and> 2 ^ 63 \<le> n then None
                          else if neg \<and> 2 ^ 63 < n then None
                          else Some (if neg then - int n else int n))"

definition unix_sec :: "int \<Rightarrow> int" where
  "unix_sec now = now div 1000000000"

section \<open>Tokens\<close>

definition AuthAlgoUnknown :: byte where "AuthAlgoUnknown = 0"
definition AuthAlgoHMACSHA256 :: byte where "AuthAlgoHMACSHA256 = 1"

definition AuthAlgo_supported :: "byte \<Rightarrow> bool" where
  "AuthAlgo_supported a = (a = AuthAlgoHMACSHA256)"

definition AuthAlgo_Size :: "byte \<Rightarrow> nat" where
  "AuthAlgo_Size a = (if a = AuthAlgoHMACSHA256 then 32 else 0)"

record Token =
  AuthAlgo :: byte
  Signature :: bytes
  Payload :: bytes

datatype auth_err = ErrInvalidTokenData | ErrTokenTooShort | ErrPayloadTooShort
  | ErrUnsupportedAlgo byte | ErrInvalidSignature | ErrInvalidPayload | ErrExpiredToken
  | ErrDecodeSignature | ErrNotConfigured

definition Token_Marshal :: "Token \<Rightarrow> bytes option" where
  "Token_Marshal t = do {
     buf \<leftarrow> set_at 0 (AuthAlgo t) (replicate (1 + length (Signature t) + length (Payload t)) 0);
     buf \<leftarrow> copy_at 1 (Signature t) buf;
     copy_at (1 + length (Signature t)) (Payload t) buf
   }"

definition UnmarshalToken :: "bytes \<Rightarrow> (auth_err + Token) option" where
  "UnmarshalToken data =
     (if length data = 0 then Some (Inl ErrInvalidTokenData)
      else do {
        algo \<leftarrow> idx data 0;
        let sigSize = AuthAlgo_Size algo;
        if length data < 1 + sigSize then Some (Inl ErrTokenTooShort)
        else do {
          sig \<leftarrow> slice data 1 (1 + sigSize);
          payload \<leftarrow> slice_from data (1 + sigSize);
          Some (Inr \<lparr> AuthAlgo = algo, Signature = sig, Payload = payload \<rparr>)
        }
      })"

definition minLengthUnixTimestamp :: nat where "minLengthUnixTimestamp = 10"

definition Validate :: "(bytes \<Rightarrow> bytes \<Rightarrow> bytes) \<Rightarrow> bytes \<Rightarrow> int \<Rightarrow> bytes \<Rightarrow> (auth_err + unit) option" where
  "Validate hmac secret now data = do {
     r \<leftarrow> UnmarshalToken data;
     Some (case r of
       Inl e \<Rightarrow> Inl e
     | Inr token \<Rightarrow>
         if length (Payload token) < minLengthUnixTimestamp then Inl ErrPayloadTooShort
         else if \<not> AuthAlgo_supported (AuthAlgo token) then Inl (ErrUnsupportedAlgo (AuthAlgo token))
         else if Signature token \<noteq> hmac secret (Payload token) then Inl ErrInvalidSignature
         else case ParseInt (Payload token) of
                None \<Rightarrow> Inl ErrInvalidPayload
              | Some timestamp \<Rightarrow>
                  if unix_sec now > timestamp then Inl ErrExpiredToken else Inr ())
   }"

record Generator =
  algoType :: byte
  secret :: bytes
  timeToLive :: int

definition NewGenerator :: "byte \<Rightarrow> bytes \<Rightarrow> int \<Rightarrow> auth_err + Generator" where
  "NewGenerator algo sec ttl =
     (if \<not> AuthAlgo_supported algo then Inl (ErrUnsupportedAlgo algo)
      else Inr \<lparr> algoType = algo, secret = sec, timeToLive = ttl \<rparr>)"

definition GenerateToken :: "(bytes \<Rightarrow> bytes \<Rightarrow> bytes) \<Rightarrow> Generator \<Rightarrow> int \<Rightarrow> Token" where
  "GenerateToken hmac g now =
     (let expirationTime = unix_sec (now + timeToLive g);
          payload = FormatInt expirationTime
      in \<lparr> AuthAlgo = algoType g, Signature = hmac (secret g) payload, Payload = payload \<rparr>)"

section \<open>Credentials issued by the management server\<close>

record Credentials =
  CredPayload :: bytes
  CredSignature :: bytes

text \<open>The deprecated tokens, also used for TURN; the keyed hash is that of the algorithm the caller names.\<close>

datatype hash_algo = SHA1 | SHA256

definition TimedHMAC_GenerateToken ::
    "(hash_algo \<Rightarrow> bytes \<Rightarrow> bytes \<Rightarrow> bytes) \<Rightarrow> (bytes \<Rightarrow> bytes) \<Rightarrow> hash_algo \<Rightarrow> bytes \<Rightarrow> int \<Rightarrow> int \<Rightarrow> Credentials" where
  "TimedHMAC_GenerateToken mac b64enc algo sec ttl now =
     (let timeStamp = FormatInt (unix_sec (now + ttl))
      in \<lparr> CredPayload = timeStamp, CredSignature = b64enc (mac algo sec timeStamp) \<rparr>)"

definition TimedHMAC_Validate ::
    "(hash_algo \<Rightarrow> bytes \<Rightarrow> bytes \<Rightarrow> bytes) \<Rightarrow> (bytes \<Rightarrow> bytes) \<Rightarrow> hash_algo \<Rightarrow> bytes \<Rightarrow> int \<Rightarrow> Credentials \<Rightarrow> auth_err + unit" where
  "TimedHMAC_Validate mac b64enc algo sec now token =
     (if b64enc (mac algo sec (CredPayload token)) \<noteq> CredSignature token then Inl ErrInvalidSignature
      else case ParseInt (CredPayload token) of
             None \<Rightarrow> Inl ErrInvalidPayload
           | Some timeAuth \<Rightarrow> if unix_sec now > timeAuth then Inl ErrExpiredToken else Inr ())"

text \<open>
  The secrets manager of the management server (\<open>token_mgr.go\<close>): the configured relay secret is hashed,
  a lifetime that is not positive is replaced by the default, and relay credentials are tokens of the v2
  generator with the signature in base64. TURN credentials are deprecated tokens with SHA-1.
\<close>

record RelayConfig =
  RelaySecret :: bytes
  CredentialsTTL :: int

definition defaultDuration :: int where "defaultDuration = 12 * 3600 * 1000000000"

definition credentials_ttl :: "int \<Rightarrow> int" where
  "credentials_ttl ttl = (if ttl \<le> 0 then defaultDuration else ttl)"

definition relayHmacToken :: "(bytes \<Rightarrow> bytes) \<Rightarrow> RelayConfig option \<Rightarrow> Generator option" where
  "relayHmacToken sha256 relayCfg =
     (case relayCfg of
        None \<Rightarrow> None
      | Some cfg \<Rightarrow>
          (case NewGenerator AuthAlgoHMACSHA256 (sha256 (RelaySecret cfg)) (credentials_ttl (CredentialsTTL cfg)) of
             Inl _ \<Rightarrow> None | Inr g \<Rightarrow> Some g))"

definition GenerateRelayToken ::
    "(bytes \<Rightarrow> bytes \<Rightarrow> bytes) \<Rightarrow> (bytes \<Rightarrow> bytes) \<Rightarrow> Generator option \<Rightarrow> int \<Rightarrow> auth_err + Credentials" where
  "GenerateRelayToken hmac b64enc gen now =
     (case gen of
        None \<Rightarrow> Inl ErrNotConfigured
      | Some g \<Rightarrow>
          (let relayToken = GenerateToken hmac g now
           in Inr \<lparr> CredPayload = Payload relayToken, CredSignature = b64enc (Signature relayToken) \<rparr>))"

definition GenerateTurnToken ::
    "(hash_algo \<Rightarrow> bytes \<Rightarrow> bytes \<Rightarrow> bytes) \<Rightarrow> (bytes \<Rightarrow> bytes) \<Rightarrow> (bytes \<times> int) option \<Rightarrow> int \<Rightarrow> auth_err + Credentials" where
  "GenerateTurnToken mac b64enc turnHmacToken now =
     (case turnHmacToken of
        None \<Rightarrow> Inl ErrNotConfigured
      | Some (sec, ttl) \<Rightarrow> Inr (TimedHMAC_GenerateToken mac b64enc SHA1 sec ttl now))"

text \<open>The secret with which the relay server creates its validator (\<open>relay/cmd/root.go\<close>).\<close>

definition relay_validator_secret :: "(bytes \<Rightarrow> bytes) \<Rightarrow> bytes \<Rightarrow> bytes" where
  "relay_validator_secret sha256 authSecret = sha256 authSecret"

text \<open>
  \<open>TokenStore.UpdateToken\<close>: the state is the stored binary token; a nil credential and a failed
  decoding leave it unchanged.
\<close>

definition UpdateToken ::
    "(bytes \<Rightarrow> bytes option) \<Rightarrow> Credentials option \<Rightarrow> bytes \<Rightarrow> ((auth_err + unit) \<times> bytes) option" where
  "UpdateToken b64dec token stored =
     (case token of
        None \<Rightarrow> Some (Inr (), stored)
      | Some c \<Rightarrow>
          (case b64dec (CredSignature c) of
             None \<Rightarrow> Some (Inl ErrDecodeSignature, stored)
           | Some sig \<Rightarrow>
               map_option (Pair (Inr ()))
                 (Token_Marshal \<lparr> AuthAlgo = AuthAlgoHMACSHA256, Signature = sig, Payload = CredPayload c \<rparr>)))"

text \<open>The deliberately invalid token of the health-check agent (\<open>relay/healthcheck/peerid\<close>).\<close>

definition createDummyToken :: "bytes option" where
  "createDummyToken = Token_Marshal
     \<lparr> AuthAlgo = AuthAlgoHMACSHA256, Signature = replicate 32 0,
       Payload = [0x68, 0x65, 0x61, 0x6c, 0x74, 0x68, 0x63, 0x68, 0x65, 0x63, 0x6b] \<rparr>"

section \<open>Lemmas\<close>

lemmas auth_defs = AuthAlgoUnknown_def AuthAlgoHMACSHA256_def AuthAlgo_supported_def
  AuthAlgo_Size_def minLengthUnixTimestamp_def

lemma unat_digit: "d < 10 \<Longrightarrow> unat ((48 + of_nat d :: byte) - 48) = d"
  by (simp add: unat_of_nat take_bit_eq_mod)

lemma digit_range: "d < 10 \<Longrightarrow> (48 :: byte) \<le> 48 + of_nat d \<and> 48 + of_nat d \<le> (57 :: byte)"
proof -
  assume "d < 10"
  then have "d \<in> {0, 1, 2, 3, 4, 5, 6, 7, 8, 9}" by auto
  then show ?thesis by auto
qed

lemma parse_digits_append:
  "parse_digits acc (xs @ ys) = Option.bind (parse_digits acc xs) (\<lambda>a. parse_digits a ys)"
  by (induction acc xs rule: parse_digits.induct) auto

lemma parse_dec_digits: "parse_digits 0 (dec_digits n) = Some n"
proof (induction n rule: dec_digits.induct)
  case (1 n)
  have digit: "parse_digits a [48 + of_nat d] = Some (a * 10 + d)" if "d < 10" for a d
    using digit_range [OF that] unat_digit [OF that] by simp
  show ?case
  proof (cases "n < 10")
    case True
    then show ?thesis using digit [OF True, of 0] by (subst dec_digits.simps) simp
  next
    case False
    then show ?thesis using 1 digit [of "n mod 10" "n div 10"]
      by (subst dec_digits.simps) (simp add: parse_digits_append del: parse_digits.simps)
  qed
qed

lemma dec_digits_head: "\<exists>d ds. dec_digits n = d # ds \<and> 48 \<le> d \<and> d \<le> 57"
proof (induction n rule: dec_digits.induct)
  case (1 n)
  then show ?case using digit_range [of n] by (subst dec_digits.simps) auto
qed

lemma dec_digits_length: "10 ^ k \<le> n \<Longrightarrow> k < length (dec_digits n)"
proof (induction k arbitrary: n)
  case 0
  then show ?case using dec_digits_head [of n] by auto
next
  case (Suc k)
  then have "10 ^ k \<le> n div 10" by (simp add: less_eq_div_iff_mult_less_eq mult.commute)
  then have "k < length (dec_digits (n div 10))" by (rule Suc.IH)
  moreover have "10 * 1 \<le> 10 * (10 :: nat) ^ k" by (intro mult_le_mono2) simp
  then have "\<not> n < 10" using Suc.prems unfolding power_Suc by linarith
  ultimately show ?case by (subst dec_digits.simps) simp
qed

lemma ParseInt_FormatInt:
  assumes "- (2 ^ 63) \<le> n" and "n < 2 ^ 63"
  shows "ParseInt (FormatInt n) = Some n"
proof (cases "n < 0")
  case True
  then show ?thesis using assms dec_digits_head [of "nat (- n)"]
    by (auto simp: ParseInt_def FormatInt_def Let_def parse_dec_digits)
next
  case False
  obtain d ds where d: "dec_digits (nat n) = d # ds" "48 \<le> d" using dec_digits_head by blast
  then have "d \<noteq> 43" "d \<noteq> 45" by auto
  then show ?thesis using False assms d parse_dec_digits [of "nat n"]
    by (auto simp: ParseInt_def FormatInt_def Let_def)
qed

lemma Token_Marshal_layout: "Token_Marshal t = Some (AuthAlgo t # Signature t @ Payload t)"
  by (simp add: Token_Marshal_def set_at_def copy_at_def)

lemma UnmarshalToken_layout:
  "length sig = AuthAlgo_Size a \<Longrightarrow>
   UnmarshalToken (a # sig @ pl) = Some (Inr \<lparr> AuthAlgo = a, Signature = sig, Payload = pl \<rparr>)"
  by (simp add: UnmarshalToken_def idx_def slice_def slice_from_def)

lemma UnmarshalToken_Inr:
  assumes "UnmarshalToken data = Some (Inr t)"
  shows "data = AuthAlgo t # Signature t @ Payload t \<and> length (Signature t) = AuthAlgo_Size (AuthAlgo t)"
  using assms
  by (cases data) (auto simp: UnmarshalToken_def idx_def slice_def slice_from_def Let_def split: if_splits)

lemma UnmarshalToken_total: "UnmarshalToken data \<noteq> None"
  by (auto simp: UnmarshalToken_def idx_def slice_def slice_from_def Let_def)

section \<open>Properties\<close>

text \<open>
  C21. What the relay accepts, exactly: for a keyed hash with 32-byte digests, \<open>Validate\<close> accepts a
  byte string if and only if it is the algorithm byte 1, followed by the keyed hash of the payload
  under the relay's secret, followed by a payload of at least ten bytes that parses as a signed
  64-bit decimal not smaller than the current Unix time. No other byte string is accepted, and no
  input makes the validation panic.
\<close>

theorem validate_exact:
  assumes "\<forall>m. length (hmac sec m) = 32"
  shows "Validate hmac sec now data \<noteq> None \<and>
    (Validate hmac sec now data = Some (Inr ()) \<longleftrightarrow>
      (\<exists>pl ts. data = 1 # hmac sec pl @ pl \<and> 10 \<le> length pl \<and> ParseInt pl = Some ts \<and>
        unix_sec now \<le> ts))"
    (is "_ \<and> (?V \<longleftrightarrow> ?R)")
proof (intro conjI iffI)
  show "Validate hmac sec now data \<noteq> None"
    using UnmarshalToken_total [of data] by (auto simp: Validate_def)
next
  assume ?V
  then obtain t where t: "UnmarshalToken data = Some (Inr t)"
    and ok: "10 \<le> length (Payload t)" "AuthAlgo t = 1" "Signature t = hmac sec (Payload t)"
      "\<exists>ts. ParseInt (Payload t) = Some ts \<and> unix_sec now \<le> ts"
    by (auto simp: Validate_def auth_defs not_less split: bind_splits sum.splits if_splits option.splits)
  then show ?R using UnmarshalToken_Inr [OF t] by force
next
  assume ?R
  then obtain pl ts where "data = 1 # hmac sec pl @ pl" "10 \<le> length pl" "ParseInt pl = Some ts"
    "unix_sec now \<le> ts" by blast
  then show ?V using assms UnmarshalToken_layout [of "hmac sec pl" 1 pl]
    by (simp add: Validate_def auth_defs)
qed

definition sample_hmac :: "bytes \<Rightarrow> bytes \<Rightarrow> bytes" where
  "sample_hmac k m = replicate 31 (of_nat (length k)) @ [foldl (+) 0 m]"

definition sample_payload :: bytes where
  "sample_payload = [57, 57, 57, 57, 57, 57, 57, 57, 57, 57]"

theorem validate_exact_witness:
  "Validate sample_hmac [1] 0 (1 # sample_hmac [1] sample_payload @ sample_payload) = Some (Inr ()) \<and>
   Validate sample_hmac [1] 0 (2 # sample_hmac [1] sample_payload @ sample_payload) \<noteq> Some (Inr ())"
proof -
  have mac: "\<forall>m. length (sample_hmac [1] m) = 32" by (simp add: sample_hmac_def)
  have "ParseInt sample_payload = Some 9999999999" by (simp add: sample_payload_def ParseInt_def)
  then show ?thesis
    using mac validate_exact [of sample_hmac "[1]" 0 "1 # sample_hmac [1] sample_payload @ sample_payload"]
      validate_exact [of sample_hmac "[1]" 0 "2 # sample_hmac [1] sample_payload @ sample_payload"]
    by (auto simp: unix_sec_def sample_payload_def)
qed

text \<open>
  C23. Relay credentials work end to end, exactly as long as they should: the credentials that the
  management server's \<open>GenerateRelayToken\<close> issues at time \<open>now\<close> are always issued when a relay is
  configured, and once a client has stored them through \<open>UpdateToken\<close>, a relay started with the same
  configured secret accepts the stored token at time \<open>later\<close> if and only if \<open>later\<close> is not past the
  expiry in whole seconds, where the lifetime is the configured one, or twelve hours if that is not
  positive; past it, the answer is the expiry error. The hypotheses are the digest length, that base64
  decoding inverts encoding, and that the expiry is a ten-digit Unix time that fits in 64 bits.
\<close>

theorem credentials_end_to_end:
  assumes mac: "\<forall>k m. length (hmac k m) = 32" and b64: "\<forall>x. b64dec (b64enc x) = Some x"
    and exp: "expiry = unix_sec (now + (if CredentialsTTL cfg \<le> 0 then 12 * 3600 * 1000000000 else CredentialsTTL cfg))"
    and range: "10 ^ 9 \<le> expiry" "expiry < 2 ^ 63"
  shows "\<exists>cred tok. GenerateRelayToken hmac b64enc (relayHmacToken sha256 (Some cfg)) now = Inr cred \<and>
    UpdateToken b64dec (Some cred) old = Some (Inr (), tok) \<and>
    Validate hmac (relay_validator_secret sha256 (RelaySecret cfg)) later tok =
      Some (if unix_sec later \<le> expiry then Inr () else Inl ErrExpiredToken)"
proof -
  let ?k = "sha256 (RelaySecret cfg)"
  define pl where "pl = FormatInt expiry"
  have parse: "ParseInt pl = Some expiry"
    unfolding pl_def using range by (intro ParseInt_FormatInt) simp_all
  have "10 ^ 9 \<le> nat expiry" using range(1) by simp
  from dec_digits_length [OF this] have len: "10 \<le> length pl"
    using range(1) by (simp add: pl_def FormatInt_def)
  have "UnmarshalToken (1 # hmac ?k pl @ pl) = Some (Inr \<lparr> AuthAlgo = 1, Signature = hmac ?k pl, Payload = pl \<rparr>)"
    using mac by (intro UnmarshalToken_layout) (simp add: auth_defs)
  then have "Validate hmac ?k later (1 # hmac ?k pl @ pl) =
      Some (if unix_sec later \<le> expiry then Inr () else Inl ErrExpiredToken)"
    using len parse by (simp add: Validate_def auth_defs)
  moreover have "GenerateRelayToken hmac b64enc (relayHmacToken sha256 (Some cfg)) now =
      Inr \<lparr> CredPayload = pl, CredSignature = b64enc (hmac ?k pl) \<rparr>"
    by (simp add: GenerateRelayToken_def relayHmacToken_def NewGenerator_def auth_defs GenerateToken_def Let_def pl_def exp
        credentials_ttl_def defaultDuration_def)
  ultimately show ?thesis using b64
    by (simp add: UpdateToken_def Token_Marshal_layout auth_defs relay_validator_secret_def)
qed

theorem credentials_end_to_end_witness:
  "\<exists>cred tok. GenerateRelayToken sample_hmac id (relayHmacToken rev (Some \<lparr> RelaySecret = [7], CredentialsTTL = 0 \<rparr>))
        1700000000000000000 = Inr cred \<and>
    UpdateToken Some (Some cred) [] = Some (Inr (), tok) \<and>
    Validate sample_hmac (relay_validator_secret rev [7]) 1700000000000000000 tok = Some (Inr ())"
  using credentials_end_to_end [of sample_hmac Some id 1700043200 1700000000000000000 "\<lparr> RelaySecret = [7], CredentialsTTL = 0 \<rparr>"
      rev "[]" 1700000000000000000]
  by (simp add: sample_hmac_def unix_sec_def)

text \<open>
  The health-check agent is never admitted: whatever the secret and the keyed hash, the dummy
  token of the health-check agent is rejected at every time, with a signature error or, should the
  all-zero signature happen to verify, because its payload is not a number.
\<close>

theorem dummy_token_rejected:
  "\<exists>tok. createDummyToken = Some tok \<and>
    (Validate hmac sec now tok = Some (Inl ErrInvalidSignature) \<or>
     Validate hmac sec now tok = Some (Inl ErrInvalidPayload))"
  using UnmarshalToken_layout [of "replicate 32 0" 1
      "[0x68, 0x65, 0x61, 0x6c, 0x74, 0x68, 0x63, 0x68, 0x65, 0x63, 0x6b]"]
  by (simp add: createDummyToken_def Token_Marshal_layout Validate_def auth_defs ParseInt_def Let_def)

end
