(* ===== verification/RelayStore.thy ===== *)
theory RelayStore
  imports RelayMessages
begin

text \<open>
  The relay server's table of connected peers (\<open>relay/server/store/store.go\<close>), the per-connection
  listener of presence events (\<open>listener.go\<close>) and the notifier that fans events out (\<open>notifier.go\<close>).

  The store is a map from peer identifiers to maps from channel numbers to connections. A connection
  is a record whose \<open>ptr\<close> stands for the identity of the Go pointer, which \<open>DeletePeer\<close> compares.
  Each operation runs under the store's mutex and is one function. The abstract store is a partial
  function from identifier and channel to the connection; the lemmas show that the operations
  implement lookup, update and conditional removal on it.

  A listener's event channel is the list of buffered events. A send on a full channel blocks: the
  sending function then returns \<open>None\<close>, so that it is a step that is not enabled.
\<close>

section \<open>The store\<close>

record rpeer =
  ptr :: nat
  ID :: peer_id
  ChannelID :: u32

type_synonym store = "(peer_id, (u32, rpeer) gmap) gmap"

definition NewStore :: store where
  "NewStore = []"

definition peerChannelID :: "rpeer \<Rightarrow> u32" where
  "peerChannelID peer = ChannelID peer"

text \<open>The result of \<open>AddPeer\<close>: the new store, the connection that was closed, and the returned flag.\<close>

definition AddPeer :: "rpeer \<Rightarrow> store \<Rightarrow> store \<times> rpeer option \<times> bool" where
  "AddPeer peer s =
     (let channelID = peerChannelID peer;
          channels = (case gget s (ID peer) of None \<Rightarrow> [] | Some m \<Rightarrow> m);
          oldPeer = gget channels channelID
      in (gput (ID peer) (gput channelID peer channels) s, oldPeer, oldPeer \<noteq> None))"

definition DeletePeer :: "rpeer \<Rightarrow> store \<Rightarrow> store \<times> bool" where
  "DeletePeer peer s =
     (case gget s (ID peer) of
        None \<Rightarrow> (s, False)
      | Some channels \<Rightarrow>
          (case gget channels (peerChannelID peer) of
             None \<Rightarrow> (s, False)
           | Some dp \<Rightarrow>
               if ptr dp \<noteq> ptr peer then (s, False)
               else let channels' = gdel (peerChannelID peer) channels
                    in (if length channels' = 0 then gdel (ID peer) s
                        else gput (ID peer) channels' s, True)))"

text \<open>\<open>order\<close> is the order in which Go iterates over the channel map.\<close>

definition Peer :: "u32 list \<Rightarrow> store \<Rightarrow> peer_id \<Rightarrow> rpeer option" where
  "Peer order s i =
     (case gget s i of
        None \<Rightarrow> None
      | Some channels \<Rightarrow>
          (case gget channels 0 of
             Some p \<Rightarrow> Some p
           | None \<Rightarrow> (case order of [] \<Rightarrow> None | c # _ \<Rightarrow> gget channels c)))"

definition PeerChannel :: "store \<Rightarrow> peer_id \<Rightarrow> u32 \<Rightarrow> rpeer option" where
  "PeerChannel s i channelID =
     (case gget s i of None \<Rightarrow> None | Some channels \<Rightarrow> gget channels channelID)"

definition HasPeer :: "store \<Rightarrow> peer_id \<Rightarrow> bool" where
  "HasPeer s i = (0 < length (case gget s i of None \<Rightarrow> [] | Some channels \<Rightarrow> channels))"

definition Peers :: "(peer_id \<times> u32 list) list \<Rightarrow> store \<Rightarrow> rpeer list" where
  "Peers order s = concat (map (\<lambda>(i, cs). List.map_filter (PeerChannel s i) cs) order)"

section \<open>Listeners\<close>

record event =
  ev_peer :: peer_id
  ev_online :: bool

record listener =
  ctx_done :: bool
  eventChan :: "event list"
  interestedPeersForOffline :: "peer_id set"
  interestedPeersForOnline :: "peer_id set"

definition eventChanCap :: nat where "eventChanCap = 244"

definition newListener :: listener where
  "newListener = \<lparr> ctx_done = False, eventChan = [], interestedPeersForOffline = {},
     interestedPeersForOnline = {} \<rparr>"

fun AddInterestedPeers :: "peer_id list \<Rightarrow> listener \<Rightarrow> listener" where
  "AddInterestedPeers [] l = l"
| "AddInterestedPeers (i # is) l = AddInterestedPeers is
     (l\<lparr> interestedPeersForOnline := insert i (interestedPeersForOnline l),
        interestedPeersForOffline := insert i (interestedPeersForOffline l) \<rparr>)"

fun RemoveInterestedPeer :: "peer_id list \<Rightarrow> listener \<Rightarrow> listener" where
  "RemoveInterestedPeer [] l = l"
| "RemoveInterestedPeer (i # is) l = RemoveInterestedPeer is
     (l\<lparr> interestedPeersForOffline := interestedPeersForOffline l - {i},
        interestedPeersForOnline := interestedPeersForOnline l - {i} \<rparr>)"

text \<open>
  The \<open>select\<close> of a send and of the cancelled context: \<open>pick\<close> says which ready case Go takes when
  both are ready.
\<close>

definition select_send :: "bool \<Rightarrow> event \<Rightarrow> listener \<Rightarrow> listener option" where
  "select_send pick e l =
     (if length (eventChan l) < eventChanCap \<and> \<not> (ctx_done l \<and> pick)
      then Some (l\<lparr> eventChan := eventChan l @ [e] \<rparr>)
      else if ctx_done l then Some l
      else None)"

definition listener_peerWentOffline :: "bool \<Rightarrow> peer_id \<Rightarrow> listener \<Rightarrow> listener option" where
  "listener_peerWentOffline pick i l =
     (if i \<in> interestedPeersForOffline l
      then select_send pick \<lparr> ev_peer = i, ev_online = False \<rparr> l else Some l)"

definition listener_peerComeOnline :: "bool \<Rightarrow> peer_id \<Rightarrow> listener \<Rightarrow> listener option" where
  "listener_peerComeOnline pick i l =
     (if i \<in> interestedPeersForOnline l
      then do {
        l \<leftarrow> select_send pick \<lparr> ev_peer = i, ev_online = True \<rparr> l;
        Some (l\<lparr> interestedPeersForOnline := interestedPeersForOnline l - {i} \<rparr>)
      }
      else Some l)"

text \<open>
  One iteration of \<open>listenForEvents\<close>: the received event and the rest of the channel are split into
  two lists, and the callbacks run for the online list first, then for the offline list. The result
  is the callbacks in the order they are made.
\<close>

datatype callback = ComeOnline "peer_id list" | WentOffline "peer_id list"

fun collect_events :: "event list \<Rightarrow> peer_id list \<Rightarrow> peer_id list \<Rightarrow> peer_id list \<times> peer_id list" where
  "collect_events [] peersOnline peersOffline = (peersOnline, peersOffline)"
| "collect_events (e # es) peersOnline peersOffline =
     (if ev_online e then collect_events es (peersOnline @ [ev_peer e]) peersOffline
      else collect_events es peersOnline (peersOffline @ [ev_peer e]))"

definition listenForEvents_once :: "listener \<Rightarrow> (listener \<times> callback list) option" where
  "listenForEvents_once l =
     (if eventChan l = [] then None
      else let (peersOnline, peersOffline) = collect_events (eventChan l) [] []
           in Some (l\<lparr> eventChan := [] \<rparr>,
                (if 0 < length peersOnline then [ComeOnline peersOnline] else []) @
                (if 0 < length peersOffline then [WentOffline peersOffline] else [])))"

definition GetOnlinePeersAndRegisterInterest ::
    "peer_id list \<Rightarrow> store \<Rightarrow> listener \<Rightarrow> listener \<times> peer_id list" where
  "GetOnlinePeersAndRegisterInterest peerIDs s l =
     (AddInterestedPeers peerIDs l, filter (\<lambda>i. gget s i \<noteq> None) peerIDs)"

section \<open>The notifier\<close>

type_synonym notifier = "(nat, listener) gmap"

definition NewListener :: "nat \<Rightarrow> notifier \<Rightarrow> notifier" where
  "NewListener k pn = gput k newListener pn"

text \<open>The removed listener's context is cancelled; nothing refers to it afterwards but its own loop.\<close>

definition RemoveListener :: "nat \<Rightarrow> notifier \<Rightarrow> notifier" where
  "RemoveListener k pn = (case gget pn k of None \<Rightarrow> pn | Some _ \<Rightarrow> gdel k pn)"

fun notify_all :: "(listener \<Rightarrow> listener option) \<Rightarrow> nat list \<Rightarrow> notifier \<Rightarrow> notifier option" where
  "notify_all f [] pn = Some pn"
| "notify_all f (k # ks) pn =
     (case gget pn k of
        None \<Rightarrow> notify_all f ks pn
      | Some l \<Rightarrow> do { l' \<leftarrow> f l; notify_all f ks (gput k l' pn) })"

definition PeerWentOffline :: "nat list \<Rightarrow> bool \<Rightarrow> peer_id \<Rightarrow> notifier \<Rightarrow> notifier option" where
  "PeerWentOffline order pick i pn = notify_all (listener_peerWentOffline pick i) order pn"

definition PeerCameOnline :: "nat list \<Rightarrow> bool \<Rightarrow> peer_id \<Rightarrow> notifier \<Rightarrow> notifier option" where
  "PeerCameOnline order pick i pn = notify_all (listener_peerComeOnline pick i) order pn"

section \<open>The abstract store\<close>

definition store_abs :: "store \<Rightarrow> peer_id \<times> u32 \<Rightarrow> rpeer option" where
  "store_abs s = (\<lambda>(i, c). PeerChannel s i c)"

definition store_ok :: "store \<Rightarrow> bool" where
  "store_ok s \<longleftrightarrow> gwf s \<and> (\<forall>i m. gget s i = Some m \<longrightarrow>
     gwf m \<and> m \<noteq> [] \<and> (\<forall>c p. gget m c = Some p \<longrightarrow> ID p = i \<and> ChannelID p = c))"

text \<open>
  The contract of a table of connections: what the relay server needs of it, and the lemmas the
  server's step relation uses.
\<close>

locale peer_table =
  fixes ok :: "'s \<Rightarrow> bool"
    and look :: "'s \<Rightarrow> peer_id \<times> u32 \<Rightarrow> rpeer option"
    and add :: "rpeer \<Rightarrow> 's \<Rightarrow> 's \<times> rpeer option \<times> bool"
    and del :: "rpeer \<Rightarrow> 's \<Rightarrow> 's \<times> bool"
    and has :: "'s \<Rightarrow> peer_id \<Rightarrow> bool"
  assumes add_ok: "ok s \<Longrightarrow> ok (fst (add p s))"
    and look_add: "ok s \<Longrightarrow> look (fst (add p s)) = (look s)((ID p, ChannelID p) \<mapsto> p)"
    and add_replaced: "ok s \<Longrightarrow> snd (add p s) = (look s (ID p, ChannelID p), look s (ID p, ChannelID p) \<noteq> None)"
    and del_ok: "ok s \<Longrightarrow> ok (fst (del p s))"
    and look_del: "ok s \<Longrightarrow> look (fst (del p s)) =
      (if snd (del p s) then (look s)((ID p, ChannelID p) := None) else look s)"
    and del_iff: "ok s \<Longrightarrow> snd (del p s) \<longleftrightarrow> (\<exists>q. look s (ID p, ChannelID p) = Some q \<and> ptr q = ptr p)"
    and has_iff: "ok s \<Longrightarrow> has s i \<longleftrightarrow> (\<exists>c. look s (i, c) \<noteq> None)"
    and look_self: "ok s \<Longrightarrow> look s (i, c) = Some p \<Longrightarrow> ID p = i \<and> ChannelID p = c"
begin

lemma has_add: "ok s \<Longrightarrow> has (fst (add p s)) i \<longleftrightarrow> i = ID p \<or> has s i"
  by (auto simp: has_iff add_ok look_add)

lemma delete_newer_kept:
  assumes "ok s" "look s (ID p, ChannelID p) = Some q" "ptr q \<noteq> ptr p"
  shows "snd (del p s) = False" and "look (fst (del p s)) = look s"
  using assms by (auto simp: del_iff look_del)

lemma add_del_cancel:
  assumes "ok s"
  shows "snd (del p (fst (add p s)))"
    and "look (fst (del p (fst (add p s)))) = (look s)((ID p, ChannelID p) := None)"
proof -
  show 1: "snd (del p (fst (add p s)))" using assms by (auto simp: del_iff add_ok look_add)
  show "look (fst (del p (fst (add p s)))) = (look s)((ID p, ChannelID p) := None)"
    unfolding look_del [OF add_ok [OF assms]] look_add [OF assms] by (simp add: 1)
qed

lemma del_only_self:
  assumes "ok s" "look s k = Some q" "ptr q \<noteq> ptr p"
  shows "look (fst (del p s)) k = Some q"
  using assms by (cases k) (auto simp: look_del del_iff)

end

lemmas store_op_defs = store_abs_def PeerChannel_def AddPeer_def DeletePeer_def HasPeer_def
  peerChannelID_def Let_def

lemma store_ok_AddPeer: "store_ok s \<Longrightarrow> store_ok (fst (AddPeer p s))"
  by (auto simp: store_ok_def store_op_defs simp del: map_of_eq_Some_iff split: option.splits)

lemma store_abs_AddPeer: "store_abs (fst (AddPeer p s)) = (store_abs s)((ID p, ChannelID p) \<mapsto> p)"
  by (auto simp: fun_eq_iff store_op_defs split: option.splits)

lemma AddPeer_replaced:
  "snd (AddPeer p s) = (store_abs s (ID p, ChannelID p), store_abs s (ID p, ChannelID p) \<noteq> None)"
  by (simp add: store_op_defs split: option.splits)

lemma store_ok_DeletePeer: "store_ok s \<Longrightarrow> store_ok (fst (DeletePeer p s))"
  by (auto simp: store_ok_def store_op_defs simp del: map_of_eq_Some_iff split: option.splits)

lemma store_abs_DeletePeer:
  "store_abs (fst (DeletePeer p s)) =
    (if snd (DeletePeer p s) then (store_abs s)((ID p, ChannelID p) := None) else store_abs s)"
  by (auto simp: fun_eq_iff store_op_defs gdel_Nil split: option.splits)

lemma DeletePeer_iff:
  "snd (DeletePeer p s) \<longleftrightarrow> (\<exists>q. store_abs s (ID p, ChannelID p) = Some q \<and> ptr q = ptr p)"
  by (auto simp: store_op_defs split: option.splits)

lemma HasPeer_iff: "HasPeer s i \<longleftrightarrow> (\<exists>c. store_abs s (i, c) \<noteq> None)"
  using gmap_ne_Nil [of "the (gget s i)"] by (cases "gget s i") (simp_all add: store_op_defs)

lemma store_abs_self: "store_ok s \<Longrightarrow> store_abs s (i, c) = Some p \<Longrightarrow> ID p = i \<and> ChannelID p = c"
  by (auto simp: store_ok_def store_op_defs simp del: map_of_eq_Some_iff split: option.splits)

interpretation relay_table: peer_table store_ok store_abs AddPeer DeletePeer HasPeer
  by unfold_locales (fact store_ok_AddPeer, rule store_abs_AddPeer, rule AddPeer_replaced,
    fact store_ok_DeletePeer, rule store_abs_DeletePeer, rule DeletePeer_iff, rule HasPeer_iff,
    fact store_abs_self)

section \<open>Properties of the store\<close>

text \<open>
  C24. The two-level map implements a table indexed by identifier and channel. For a well-formed
  store, adding a connection overwrites exactly the entry of its identifier and channel, returns the
  connection it replaced (the one that is closed) and keeps the store well-formed; deleting removes
  exactly that entry, and does so if and only if the entry is the very connection being deleted; and
  \<open>HasPeer\<close> holds exactly when some channel of the identifier is present.
\<close>

theorem store_refines_table:
  assumes "store_ok s"
  shows "store_ok (fst (AddPeer p s)) \<and>
    store_abs (fst (AddPeer p s)) = (store_abs s)((ID p, ChannelID p) \<mapsto> p) \<and>
    fst (snd (AddPeer p s)) = store_abs s (ID p, ChannelID p) \<and>
    store_ok (fst (DeletePeer p s)) \<and>
    (snd (DeletePeer p s) \<longleftrightarrow> (\<exists>q. store_abs s (ID p, ChannelID p) = Some q \<and> ptr q = ptr p)) \<and>
    store_abs (fst (DeletePeer p s)) =
      (if snd (DeletePeer p s) then (store_abs s)((ID p, ChannelID p) := None) else store_abs s) \<and>
    (HasPeer s i \<longleftrightarrow> (\<exists>c. store_abs s (i, c) \<noteq> None))"
  using relay_table.add_ok [OF assms] relay_table.look_add [OF assms] relay_table.add_replaced [OF assms]
    relay_table.del_ok [OF assms] relay_table.look_del [OF assms] relay_table.del_iff [OF assms]
    relay_table.has_iff [OF assms] by simp

definition sample_peer :: "nat \<Rightarrow> u32 \<Rightarrow> rpeer" where
  "sample_peer n c = \<lparr> ptr = n, ID = replicate 36 1, ChannelID = c \<rparr>"

lemma store_ok_NewStore: "store_ok NewStore"
  by (simp add: store_ok_def NewStore_def)

theorem store_refines_table_witness:
  "\<exists>s. HasPeer s (replicate 36 1) \<and>
    (HasPeer s (replicate 36 1) \<longleftrightarrow> (\<exists>c. store_abs s (replicate 36 1, c) \<noteq> None)) \<and>
    (snd (DeletePeer (sample_peer 2 0) s) \<longleftrightarrow>
      (\<exists>q. store_abs s (replicate 36 1, 0) = Some q \<and> ptr q = 2))"
proof -
  let ?s = "fst (AddPeer (sample_peer 1 0) NewStore)"
  have "store_ok ?s" by (rule store_ok_AddPeer [OF store_ok_NewStore])
  from store_refines_table [OF this, of "sample_peer 2 0" "replicate 36 1"] show ?thesis
    by (intro exI [of _ ?s])
      (simp add: sample_peer_def HasPeer_def AddPeer_def NewStore_def peerChannelID_def)
qed

text \<open>
  C10. A reconnecting client is never evicted by its own past. When a second connection of the same
  identifier and channel replaces a first one, the first is the one reported for closing, and the
  clean-up that later deletes the first connection leaves the store untouched and reports that
  nothing was deleted, so no offline event is sent for a client that is connected.
\<close>

theorem stale_delete_harmless:
  assumes "ID new = ID old" "ChannelID new = ChannelID old" "ptr new \<noteq> ptr old"
  shows "\<exists>s1 s2 c. AddPeer old s = (s1, c) \<and> AddPeer new s1 = (s2, Some old, True) \<and>
    DeletePeer old s2 = (s2, False) \<and> PeerChannel s2 (ID new) (ChannelID new) = Some new"
  using assms by (simp add: AddPeer_def DeletePeer_def PeerChannel_def peerChannelID_def Let_def
      split: option.splits)

theorem stale_delete_harmless_witness:
  "\<exists>s1 s2 c. AddPeer (sample_peer 1 3) NewStore = (s1, c) \<and>
    AddPeer (sample_peer 2 3) s1 = (s2, Some (sample_peer 1 3), True) \<and>
    DeletePeer (sample_peer 1 3) s2 = (s2, False) \<and>
    PeerChannel s2 (ID (sample_peer 2 3)) (ChannelID (sample_peer 2 3)) = Some (sample_peer 2 3)"
  by (rule stale_delete_harmless) (simp_all add: sample_peer_def)

section \<open>Properties of the listener\<close>

lemma collect_events_split:
  "collect_events es a b =
    (a @ map ev_peer (filter ev_online es), b @ map ev_peer (filter (\<lambda>e. \<not> ev_online e) es))"
  by (induction es a b rule: collect_events.induct) auto

text \<open>
  A listener never loses an event it has buffered: one iteration of its loop empties the channel
  and hands the identifiers of all online events, in the order they were sent, to the online
  callback, and those of all offline events, in order, to the offline callback; a callback without
  events is not made, and the loop does not take a turn on an empty channel.
\<close>

theorem listener_delivers_all:
  "listenForEvents_once l =
    (let on = map ev_peer (filter ev_online (eventChan l));
         off = map ev_peer (filter (\<lambda>e. \<not> ev_online e) (eventChan l))
     in if on = [] \<and> off = [] then None
        else Some (l\<lparr> eventChan := [] \<rparr>,
          (if on = [] then [] else [ComeOnline on]) @ (if off = [] then [] else [WentOffline off])))"
  by (cases "eventChan l")
    (auto simp: listenForEvents_once_def collect_events_split Let_def filter_empty_conv)

text \<open>
  The order across the two kinds of event is not kept. A subscriber registers interest in a peer;
  the peer goes offline and comes back before the subscriber's loop runs. The loop then makes the
  online callback first and the offline callback last, so the last thing the subscriber hears is that
  the peer is offline although it is connected, and the interest that would announce the peer again
  is already spent.
\<close>

theorem listener_reorders_reconnect:
  "\<exists>l1 l2 l3. listener_peerWentOffline pick i (AddInterestedPeers [i] newListener) = Some l1 \<and>
    listener_peerComeOnline pick i l1 = Some l2 \<and>
    map ev_online (eventChan l2) = [False, True] \<and>
    listenForEvents_once l2 = Some (l3, [ComeOnline [i], WentOffline [i]]) \<and>
    i \<notin> interestedPeersForOnline l3"
  by (simp add: newListener_def listener_peerWentOffline_def listener_peerComeOnline_def
      select_send_def eventChanCap_def listenForEvents_once_def)

end
