(* ===== verification/RelayServer.thy ===== *)
theory RelayServer
  imports RelayAuth RelayStore
begin

text \<open>
  The relay server: the handshake (\<open>relay/server/handshake.go\<close>), the handlers of a connection
  (\<open>peer.go\<close>) and the life of a connection in \<open>Relay.Accept\<close> (\<open>relay.go\<close>).

  The server is a step system. \<open>Accept\<close> runs concurrently for different connections, and only the
  single calls on the store and on the notifier are atomic, so its body is split into the steps
  between those calls: \<open>HasPeer\<close>, \<open>AddPeer\<close>, \<open>PeerCameOnline\<close>, the work loop, \<open>DeletePeer\<close> and the final
  \<open>HasPeer\<close> with \<open>PeerWentOffline\<close>. \<open>relay_exec\<close> executes one step; \<open>relay_steps\<close> is the relation.
  Writes to connections are returned by the handlers. The rate limiter's and the network's verdicts
  are arguments of the steps. The decoder of the deprecated hello payload (gob) is an argument.
\<close>

section \<open>Handshake\<close>

record validators =
  validateAuth :: "bytes \<Rightarrow> bool"
  validateHello :: "bytes \<Rightarrow> bool"
  decodeAuthMsg :: "bytes \<Rightarrow> bytes option"

record handshake =
  handshakeMethodAuth :: bool
  hsPeerID :: peer_id
  relayChannelID :: u32

datatype handshake_err = HsFrame relay_err | HsDecodeAuth | HsRejected | HsInvalidType byte

text \<open>The three message handlers return the identifier next to an error when the code does.\<close>

type_synonym 'a hs_result = "(peer_id option \<times> handshake_err) + 'a"

definition handleHelloMsg :: "validators \<Rightarrow> bytes \<Rightarrow> peer_id hs_result option" where
  "handleHelloMsg V buf = do {
     r \<leftarrow> UnmarshalHelloMsg buf;
     Some (case r of
       Inl e \<Rightarrow> Inl (None, HsFrame e)
     | Inr (peerID, authData) \<Rightarrow>
         (case decodeAuthMsg V authData of
            None \<Rightarrow> Inl (None, HsDecodeAuth)
          | Some additionalData \<Rightarrow>
              if \<not> validateHello V additionalData then Inl (None, HsRejected) else Inr peerID))
   }"

definition handleAuthMsg :: "validators \<Rightarrow> bytes \<Rightarrow> peer_id hs_result option" where
  "handleAuthMsg V buf = do {
     r \<leftarrow> UnmarshalAuthMsg buf;
     Some (case r of
       Inl e \<Rightarrow> Inl (None, HsFrame e)
     | Inr (rawPeerID, authPayload) \<Rightarrow>
         if \<not> validateAuth V authPayload then Inl (Some rawPeerID, HsRejected) else Inr rawPeerID)
   }"

definition handleAuthChannelMsg :: "validators \<Rightarrow> bytes \<Rightarrow> (peer_id \<times> u32) hs_result option" where
  "handleAuthChannelMsg V buf = do {
     r \<leftarrow> UnmarshalAuthChannelMsg buf;
     Some (case r of
       Inl e \<Rightarrow> Inl (None, HsFrame e)
     | Inr (rawPeerID, channelID, authPayload) \<Rightarrow>
         if \<not> validateAuth V authPayload then Inl (Some rawPeerID, HsRejected)
         else Inr (rawPeerID, channelID))
   }"

definition handshakeReceive :: "validators \<Rightarrow> bytes \<Rightarrow> handshake hs_result option" where
  "handshakeReceive V buf = do {
     v \<leftarrow> ValidateVersion buf;
     case v of
       Inl e \<Rightarrow> Some (Inl (None, HsFrame e))
     | Inr _ \<Rightarrow> do {
         t \<leftarrow> DetermineClientMessageType buf;
         case t of
           Inl e \<Rightarrow> Some (Inl (None, HsFrame e))
         | Inr msgType \<Rightarrow>
             if msgType = MsgTypeHello then
               map_option (map_sum id (\<lambda>i. \<lparr> handshakeMethodAuth = False, hsPeerID = i, relayChannelID = 0 \<rparr>))
                 (handleHelloMsg V buf)
             else if msgType = MsgTypeAuth then
               map_option (map_sum id (\<lambda>i. \<lparr> handshakeMethodAuth = True, hsPeerID = i, relayChannelID = 0 \<rparr>))
                 (handleAuthMsg V buf)
             else if msgType = MsgTypeAuthChannel then
               map_option (map_sum id (\<lambda>(i, c). \<lparr> handshakeMethodAuth = True, hsPeerID = i, relayChannelID = c \<rparr>))
                 (handleAuthChannelMsg V buf)
             else Some (Inl (None, HsInvalidType msgType))
       }
   }"

record preparedMsg =
  responseHelloMsg :: bytes
  responseAuthMsg :: bytes

definition newPreparedMsg :: "bytes \<Rightarrow> bytes \<Rightarrow> (relay_err + preparedMsg) option" where
  "newPreparedMsg addrData instanceURL = do {
     rhm \<leftarrow> MarshalHelloResponse addrData;
     case rhm of
       Inl e \<Rightarrow> Some (Inl e)
     | Inr h \<Rightarrow> do {
         ram \<leftarrow> MarshalAuthResponse instanceURL;
         Some (map_sum id (\<lambda>a. \<lparr> responseHelloMsg = h, responseAuthMsg = a \<rparr>) ram)
       }
   }"

definition handshakeResponse :: "preparedMsg \<Rightarrow> handshake \<Rightarrow> bytes" where
  "handshakeResponse pm h = (if handshakeMethodAuth h then responseAuthMsg pm else responseHelloMsg pm)"

section \<open>Message handlers\<close>

text \<open>A write is the connection written to and the bytes.\<close>

type_synonym conn_write = "rpeer \<times> bytes"

definition handleTransportMsg :: "rpeer \<Rightarrow> bytes \<Rightarrow> store \<Rightarrow> conn_write option option" where
  "handleTransportMsg p msg s = do {
     r \<leftarrow> UnmarshalTransportChannelMsg msg;
     case r of
       Inl _ \<Rightarrow> Some None
     | Inr (peerID, channelID, _) \<Rightarrow>
         (let item = PeerChannel s peerID channelID;
              item = (if item = None \<and> channelID \<noteq> 0 then PeerChannel s peerID 0 else item)
          in case item of
               None \<Rightarrow> Some None
             | Some dp \<Rightarrow> do {
                 u \<leftarrow> UpdateTransportMsg msg (ID p);
                 Some (case u of Inl _ \<Rightarrow> None | Inr msg' \<Rightarrow> Some (dp, msg'))
               })
   }"

text \<open>The frames written; a marshalling error is logged and nothing is written.\<close>

definition sendPeersOnline :: "peer_id list \<Rightarrow> bytes list option" where
  "sendPeersOnline peers = map_option (case_sum (\<lambda>_. []) id) (MarshalPeersOnline peers)"

definition sendPeersWentOffline :: "peer_id list \<Rightarrow> bytes list option" where
  "sendPeersWentOffline peers = map_option (case_sum (\<lambda>_. []) id) (MarshalPeersWentOffline peers)"

definition handleSubscribePeerState :: "bytes \<Rightarrow> store \<Rightarrow> listener \<Rightarrow> (listener \<times> bytes list) option" where
  "handleSubscribePeerState msg s l = do {
     r \<leftarrow> UnmarshalSubPeerStateMsg msg;
     case r of
       Inl _ \<Rightarrow> Some (l, [])
     | Inr peerIDs \<Rightarrow>
         (let (l', onlinePeers) = GetOnlinePeersAndRegisterInterest peerIDs s l
          in if length onlinePeers = 0 then Some (l', [])
             else map_option (Pair l') (sendPeersOnline onlinePeers))
   }"

definition handleUnsubscribePeerState :: "bytes \<Rightarrow> listener \<Rightarrow> listener option" where
  "handleUnsubscribePeerState msg l = do {
     r \<leftarrow> UnmarshalUnsubPeerStateMsg msg;
     Some (case r of Inl _ \<Rightarrow> l | Inr peerIDs \<Rightarrow> RemoveInterestedPeer peerIDs l)
   }"

text \<open>
  The effects of one received message on the connection: its listener, the writes, whether a
  health-check response was seen, whether the connection was closed, and whether the work loop goes
  on. \<open>rate_ok\<close> is the verdict of the rate limiter.
\<close>

record effects =
  eff_listener :: listener
  eff_writes :: "conn_write list"
  eff_hc :: bool
  eff_close :: bool
  eff_loop :: bool

definition no_effects :: "listener \<Rightarrow> effects" where
  "no_effects l = \<lparr> eff_listener = l, eff_writes = [], eff_hc = False, eff_close = False, eff_loop = True \<rparr>"

definition handleMsgType :: "rpeer \<Rightarrow> byte \<Rightarrow> bool \<Rightarrow> bytes \<Rightarrow> store \<Rightarrow> listener \<Rightarrow> effects option" where
  "handleMsgType p msgType rate_ok msg s l =
     (if msgType = MsgTypeHealthCheck then Some ((no_effects l)\<lparr> eff_hc := True \<rparr>)
      else if msgType = MsgTypeTransport \<or> msgType = MsgTypeTransportChannel then
        (if \<not> rate_ok then Some (no_effects l)
         else map_option (\<lambda>w. (no_effects l)\<lparr> eff_writes := (case w of None \<Rightarrow> [] | Some x \<Rightarrow> [x]) \<rparr>)
                (handleTransportMsg p msg s))
      else if msgType = MsgTypeClose then Some ((no_effects l)\<lparr> eff_close := True \<rparr>)
      else if msgType = MsgTypeSubscribePeerState then
        map_option (\<lambda>(l', ws). (no_effects l')\<lparr> eff_writes := map (Pair p) ws \<rparr>)
          (handleSubscribePeerState msg s l)
      else if msgType = MsgTypeUnsubscribePeerState then
        map_option no_effects (handleUnsubscribePeerState msg l)
      else Some (no_effects l))"

text \<open>One iteration of \<open>Work\<close> on a message that was read.\<close>

definition Work_iteration :: "rpeer \<Rightarrow> bool \<Rightarrow> bytes \<Rightarrow> store \<Rightarrow> listener \<Rightarrow> effects option" where
  "Work_iteration p rate_ok msg s l =
     (if length msg = 0 then Some ((no_effects l)\<lparr> eff_loop := False \<rparr>)
      else do {
        v \<leftarrow> ValidateVersion msg;
        case v of
          Inl _ \<Rightarrow> Some ((no_effects l)\<lparr> eff_loop := False \<rparr>)
        | Inr _ \<Rightarrow> do {
            t \<leftarrow> DetermineClientMessageType msg;
            case t of
              Inl _ \<Rightarrow> Some ((no_effects l)\<lparr> eff_loop := False \<rparr>)
            | Inr msgType \<Rightarrow> handleMsgType p msgType rate_ok msg s l
          }
      })"

section \<open>The life of a connection\<close>

datatype pc = Checked bool | Added bool | Notified | Working | Leaving | Deleted bool

record relay =
  rstore :: store
  rnotifier :: notifier
  rconns :: "(nat, rpeer \<times> pc) gmap"

definition NewRelay :: relay where
  "NewRelay = \<lparr> rstore = NewStore, rnotifier = [], rconns = [] \<rparr>"

datatype action =
    ACheck nat bytes
  | AAdd nat
  | ANotifyOnline nat "nat list" bool
  | AWork nat
  | ARecv nat bool bytes
  | AListen nat
  | ALeave nat
  | ADelete nat
  | ANotifyOffline nat "nat list" bool

text \<open>\<open>NewPeer\<close> for a finished handshake; \<open>k\<close> is the identity of the new object.\<close>

definition NewPeer :: "nat \<Rightarrow> handshake \<Rightarrow> rpeer" where
  "NewPeer k h = \<lparr> ptr = k, ID = hsPeerID h, ChannelID = relayChannelID h \<rparr>"

definition at_pc :: "relay \<Rightarrow> nat \<Rightarrow> (rpeer \<Rightarrow> pc \<Rightarrow> relay option) \<Rightarrow> relay option" where
  "at_pc r k f = (case gget (rconns r) k of None \<Rightarrow> None | Some (p, c) \<Rightarrow> f p c)"

definition goto :: "relay \<Rightarrow> rpeer \<Rightarrow> pc \<Rightarrow> relay" where
  "goto r p c = r\<lparr> rconns := gput (ptr p) (p, c) (rconns r) \<rparr>"

fun relay_exec :: "validators \<Rightarrow> action \<Rightarrow> relay \<Rightarrow> relay option" where
  "relay_exec V (ACheck k buf) r =
     (if gget (rconns r) k \<noteq> None then None
      else case handshakeReceive V buf of
        Some (Inr h) \<Rightarrow>
          Some (goto r (NewPeer k h) (Checked (HasPeer (rstore r) (hsPeerID h))))
      | _ \<Rightarrow> None)"
| "relay_exec V (AAdd k) r = at_pc r k (\<lambda>p c. case c of
       Checked wasOnline \<Rightarrow> Some (goto (r\<lparr> rstore := fst (AddPeer p (rstore r)) \<rparr>) p (Added wasOnline))
     | _ \<Rightarrow> None)"
| "relay_exec V (ANotifyOnline k order pick) r = at_pc r k (\<lambda>p c. case c of
       Added wasOnline \<Rightarrow>
         if wasOnline then Some (goto r p Notified)
         else if set order = set (gkeys (rnotifier r)) then
           map_option (\<lambda>nf. goto (r\<lparr> rnotifier := nf \<rparr>) p Notified)
             (PeerCameOnline order pick (ID p) (rnotifier r))
         else None
     | _ \<Rightarrow> None)"
| "relay_exec V (AWork k) r = at_pc r k (\<lambda>p c. case c of
       Notified \<Rightarrow> Some (goto (r\<lparr> rnotifier := NewListener k (rnotifier r) \<rparr>) p Working)
     | _ \<Rightarrow> None)"
| "relay_exec V (ARecv k rate_ok msg) r = at_pc r k (\<lambda>p c. case (c, gget (rnotifier r) k) of
       (Working, Some l) \<Rightarrow>
         map_option (\<lambda>e. r\<lparr> rnotifier := gput k (eff_listener e) (rnotifier r) \<rparr>)
           (Work_iteration p rate_ok msg (rstore r) l)
     | _ \<Rightarrow> None)"
| "relay_exec V (AListen k) r =
     (case gget (rnotifier r) k of
        None \<Rightarrow> None
      | Some l \<Rightarrow> map_option (\<lambda>(l', _). r\<lparr> rnotifier := gput k l' (rnotifier r) \<rparr>) (listenForEvents_once l))"
| "relay_exec V (ALeave k) r = at_pc r k (\<lambda>p c. case c of
       Working \<Rightarrow> Some (goto (r\<lparr> rnotifier := RemoveListener k (rnotifier r) \<rparr>) p Leaving)
     | _ \<Rightarrow> None)"
| "relay_exec V (ADelete k) r = at_pc r k (\<lambda>p c. case c of
       Leaving \<Rightarrow> (let (s', deleted) = DeletePeer p (rstore r)
                   in Some (goto (r\<lparr> rstore := s' \<rparr>) p (Deleted deleted)))
     | _ \<Rightarrow> None)"
| "relay_exec V (ANotifyOffline k order pick) r = at_pc r k (\<lambda>p c. case c of
       Deleted deleted \<Rightarrow>
         if deleted \<and> \<not> HasPeer (rstore r) (ID p) then
           (if set order = set (gkeys (rnotifier r)) then
              map_option (\<lambda>nf. r\<lparr> rnotifier := nf, rconns := gdel k (rconns r) \<rparr>)
                (PeerWentOffline order pick (ID p) (rnotifier r))
            else None)
         else Some (r\<lparr> rconns := gdel k (rconns r) \<rparr>)
     | _ \<Rightarrow> None)"

definition relay_steps :: "validators \<Rightarrow> relay \<Rightarrow> relay \<Rightarrow> bool" where
  "relay_steps V r r' \<longleftrightarrow> (\<exists>a. relay_exec V a r = Some r')"

fun relay_run :: "validators \<Rightarrow> action list \<Rightarrow> relay \<Rightarrow> relay option" where
  "relay_run V [] r = Some r"
| "relay_run V (a # as) r = do { r' \<leftarrow> relay_exec V a r; relay_run V as r' }"

section \<open>Forwarding\<close>

text \<open>
  C8. The relay cannot be used to impersonate a peer, nor does it misdeliver. Whenever a connection's
  transport frame is forwarded, the frame addressed some peer and channel; it is written to the
  connection stored for that peer and channel, or to that peer's default channel when the peer is
  not connected on the addressed one; and the forwarded frame decodes to the sender's own identifier
  with the channel and the payload unchanged, whatever identifier the sender wrote.
\<close>

theorem forward_authentic:
  assumes "is_peer_id (ID p)" and "handleTransportMsg p msg s = Some (Some (dp, msg'))"
  shows "\<exists>dst ch pl. UnmarshalTransportChannelMsg msg = Some (Inr (dst, ch, pl)) \<and>
    (PeerChannel s dst ch = Some dp \<or> PeerChannel s dst ch = None \<and> PeerChannel s dst 0 = Some dp) \<and>
    UnmarshalTransportChannelMsg msg' = Some (Inr (ID p, ch, pl)) \<and> length msg' = length msg"
proof -
  from assms(2) obtain dst ch pl where dec: "UnmarshalTransportChannelMsg msg = Some (Inr (dst, ch, pl))"
    and dp: "PeerChannel s dst ch = Some dp \<or> PeerChannel s dst ch = None \<and> PeerChannel s dst 0 = Some dp"
    and upd: "UpdateTransportMsg msg (ID p) = Some (Inr msg')"
    by (auto simp: handleTransportMsg_def Let_def split: bind_splits sum.splits option.splits if_splits)
  show ?thesis using channel_frame.dec_readdress [OF dec assms(1)] dec dp upd by auto
qed

definition sample_store :: store where
  "sample_store = fst (AddPeer \<lparr> ptr = 1, ID = replicate 36 9, ChannelID = 0 \<rparr> NewStore)"

definition sample_frame :: "byte \<Rightarrow> bytes" where
  "sample_frame t = [1, t] @ replicate 36 9 @ [0, 0, 0, 5, 42]"

lemma sample_frame_decode:
  "UnmarshalTransportChannelMsg (sample_frame MsgTypeTransport) =
    Some (Inr (replicate 36 9, 0, [0, 0, 0, 5, 42]))"
  unfolding sample_frame_def by (rule UnmarshalTransportChannelMsg_legacy) (simp add: size_defs)

lemma sample_forward:
  "handleTransportMsg (sample_peer 4 0) (sample_frame MsgTypeTransport) sample_store =
    Some (Some (\<lparr> ptr = 1, ID = replicate 36 9, ChannelID = 0 \<rparr>,
      [1, MsgTypeTransport] @ replicate 36 1 @ [0, 0, 0, 5, 42]))"
proof -
  have "UpdateTransportMsg (sample_frame MsgTypeTransport) (replicate 36 1) =
      Some (Inr ([1, MsgTypeTransport] @ replicate 36 1 @ [0, 0, 0, 5, 42]))"
    unfolding sample_frame_def by (rule UpdateTransportMsg_layout) (simp_all add: size_defs)
  then show ?thesis
    by (simp add: handleTransportMsg_def sample_frame_decode sample_peer_def sample_store_def
        PeerChannel_def AddPeer_def NewStore_def peerChannelID_def)
qed

theorem forward_authentic_witness:
  "\<exists>dst ch pl. UnmarshalTransportChannelMsg (sample_frame MsgTypeTransport) = Some (Inr (dst, ch, pl)) \<and>
    (PeerChannel sample_store dst ch = Some \<lparr> ptr = 1, ID = replicate 36 9, ChannelID = 0 \<rparr> \<or>
     PeerChannel sample_store dst ch = None \<and>
     PeerChannel sample_store dst 0 = Some \<lparr> ptr = 1, ID = replicate 36 9, ChannelID = 0 \<rparr>) \<and>
    UnmarshalTransportChannelMsg ([1, MsgTypeTransport] @ replicate 36 1 @ [0, 0, 0, 5, 42]) =
      Some (Inr (ID (sample_peer 4 0), ch, pl)) \<and>
    length ([1, MsgTypeTransport] @ replicate 36 1 @ [0, 0, 0, 5, 42]) = length (sample_frame MsgTypeTransport)"
  by (rule forward_authentic [OF _ sample_forward]) (simp add: sample_peer_def size_defs)

text \<open>
  Delivery: a payload that a client marshals for a connected peer and channel is forwarded to that
  peer's connection, which decodes the sender's identifier, the same channel and the same payload.
\<close>

theorem relay_delivers:
  assumes "is_peer_id dst" and "is_peer_id (ID p)" and "PeerChannel s dst ch = Some dp"
  shows "\<exists>m m'. MarshalTransportChannelMsg dst ch pl = Some (Inr m) \<and>
    handleTransportMsg p m s = Some (Some (dp, m')) \<and>
    UnmarshalTransportChannelMsg m' = Some (Inr (ID p, ch, pl))"
  using channel_frame.forwarded [OF assms(1,2), of ch pl] assms(3)
  by (auto simp: handleTransportMsg_def)

theorem relay_delivers_witness:
  "\<exists>m m'. MarshalTransportChannelMsg (replicate 36 9) 0 [7, 7] = Some (Inr m) \<and>
    handleTransportMsg (sample_peer 4 0) m sample_store =
      Some (Some (\<lparr> ptr = 1, ID = replicate 36 9, ChannelID = 0 \<rparr>, m')) \<and>
    UnmarshalTransportChannelMsg m' = Some (Inr (ID (sample_peer 4 0), 0, [7, 7]))"
  by (rule relay_delivers) (simp_all add: sample_store_def sample_peer_def PeerChannel_def AddPeer_def
      NewStore_def peerChannelID_def size_defs)

section \<open>Admission\<close>

lemma UnmarshalAuthMsg_id:
  "UnmarshalAuthMsg buf = Some (Inr (i, pl)) \<Longrightarrow> is_peer_id i"
  by (auto simp: UnmarshalAuthMsg_def to_peer_id_def split: bind_splits if_splits)

lemma UnmarshalAuthChannelMsg_id:
  "UnmarshalAuthChannelMsg buf = Some (Inr (i, c, pl)) \<Longrightarrow> is_peer_id i"
  by (auto simp: UnmarshalAuthChannelMsg_def to_peer_id_def map_sum_Inr_iff dest: UnmarshalAuthMsg_id
      split: bind_splits if_splits sum.splits)

lemma UnmarshalHelloMsg_id:
  "UnmarshalHelloMsg buf = Some (Inr (i, pl)) \<Longrightarrow> is_peer_id i"
  by (auto simp: UnmarshalHelloMsg_def to_peer_id_def split: bind_splits if_splits)

lemma handshake_auth:
  assumes "handshakeReceive V buf = Some (Inr h)" and "handshakeMethodAuth h"
  shows "\<exists>pl. UnmarshalAuthChannelMsg buf = Some (Inr (hsPeerID h, relayChannelID h, pl)) \<and> validateAuth V pl"
  using assms
  by (auto simp: handshakeReceive_def handleHelloMsg_def handleAuthMsg_def handleAuthChannelMsg_def
      UnmarshalAuthChannelMsg_def type_defs split: bind_splits sum.splits if_splits option.splits)

lemma handshake_hello:
  assumes "handshakeReceive V buf = Some (Inr h)" and "\<not> handshakeMethodAuth h"
  shows "\<exists>rest d. UnmarshalHelloMsg buf = Some (Inr (hsPeerID h, rest)) \<and> decodeAuthMsg V rest = Some d \<and>
    validateHello V d \<and> relayChannelID h = 0"
  using assms
  by (auto simp: handshakeReceive_def handleHelloMsg_def handleAuthMsg_def handleAuthChannelMsg_def
      split: bind_splits sum.splits if_splits option.splits)

lemma handshake_id: "handshakeReceive V buf = Some (Inr h) \<Longrightarrow> is_peer_id (hsPeerID h)"
  using handshake_auth [of V buf h] handshake_hello [of V buf h] UnmarshalAuthChannelMsg_id
    UnmarshalHelloMsg_id by blast

definition admitted :: "validators \<Rightarrow> rpeer \<Rightarrow> bool" where
  "admitted V p \<longleftrightarrow> (\<exists>buf h. handshakeReceive V buf = Some (Inr h) \<and> p = NewPeer (ptr p) h)"

lemma admitted_id: "admitted V p \<Longrightarrow> is_peer_id (ID p)"
  using handshake_id by (force simp: admitted_def NewPeer_def dest: arg_cong [of _ _ ID])

section \<open>The invariant\<close>

fun in_store :: "pc \<Rightarrow> bool" where
  "in_store (Added _) = True"
| "in_store Notified = True"
| "in_store Working = True"
| "in_store Leaving = True"
| "in_store _ = False"

definition conns_ok :: "validators \<Rightarrow> (nat, rpeer \<times> pc) gmap \<Rightarrow> bool" where
  "conns_ok V cs \<longleftrightarrow> (\<forall>k p c. gget cs k = Some (p, c) \<longrightarrow> ptr p = k \<and> admitted V p)"

definition stored_live :: "store \<Rightarrow> (nat, rpeer \<times> pc) gmap \<Rightarrow> bool" where
  "stored_live s cs \<longleftrightarrow>
     (\<forall>key q. store_abs s key = Some q \<longrightarrow> (\<exists>c. gget cs (ptr q) = Some (q, c) \<and> in_store c))"

definition listeners_ok :: "notifier \<Rightarrow> (nat, rpeer \<times> pc) gmap \<Rightarrow> bool" where
  "listeners_ok nf cs \<longleftrightarrow>
     (\<forall>k l. gget nf k = Some l \<longrightarrow>
        (\<exists>p. gget cs k = Some (p, Working)) \<and> \<not> ctx_done l \<and> length (eventChan l) \<le> eventChanCap)"

definition relay_inv :: "validators \<Rightarrow> relay \<Rightarrow> bool" where
  "relay_inv V r \<longleftrightarrow> store_ok (rstore r) \<and> conns_ok V (rconns r) \<and>
     stored_live (rstore r) (rconns r) \<and> listeners_ok (rnotifier r) (rconns r)"

lemmas relay_inv_defs = relay_inv_def conns_ok_def stored_live_def listeners_ok_def goto_def

text \<open>Notification keeps the set of listeners and the bound of every buffer.\<close>

lemma select_send_ok:
  "select_send pick e l = Some l' \<Longrightarrow> \<not> ctx_done l \<Longrightarrow> length (eventChan l) \<le> eventChanCap \<Longrightarrow>
   \<not> ctx_done l' \<and> length (eventChan l') \<le> eventChanCap"
  by (auto simp: select_send_def split: if_splits)

lemma notify_all_ok:
  assumes "notify_all f ks nf = Some nf'" and "listeners_ok nf cs"
    and "\<And>l l'. f l = Some l' \<Longrightarrow> \<not> ctx_done l \<Longrightarrow> length (eventChan l) \<le> eventChanCap \<Longrightarrow>
           \<not> ctx_done l' \<and> length (eventChan l') \<le> eventChanCap"
  shows "listeners_ok nf' cs"
  using assms
proof (induction f ks nf rule: notify_all.induct)
  case (2 f k ks nf)
  show ?case
  proof (cases "gget nf k")
    case None
    then show ?thesis using 2 by simp
  next
    case (Some l)
    with 2(3) obtain l' where l': "f l = Some l'" "notify_all f ks (gput k l' nf) = Some nf'"
      by (auto split: bind_splits)
    have "listeners_ok (gput k l' nf) cs"
      using 2(4,5) Some l'(1) by (auto simp: listeners_ok_def)
    then show ?thesis using 2(2) [OF Some l'(1) l'(2)] 2(5) by blast
  qed
qed simp

lemma came_online_ok:
  "PeerCameOnline order pick i nf = Some nf' \<Longrightarrow> listeners_ok nf cs \<Longrightarrow> listeners_ok nf' cs"
  unfolding PeerCameOnline_def
  by (erule (1) notify_all_ok)
    (auto simp: listener_peerComeOnline_def dest: select_send_ok split: if_splits bind_splits)

lemma went_offline_ok:
  "PeerWentOffline order pick i nf = Some nf' \<Longrightarrow> listeners_ok nf cs \<Longrightarrow> listeners_ok nf' cs"
  unfolding PeerWentOffline_def
  by (erule (1) notify_all_ok)
    (auto simp: listener_peerWentOffline_def dest: select_send_ok split: if_splits)

text \<open>Receiving a message only changes the interests of the connection's listener.\<close>

lemma AddInterestedPeers_chan:
  "eventChan (AddInterestedPeers is l) = eventChan l \<and> ctx_done (AddInterestedPeers is l) = ctx_done l"
  by (induction "is" l rule: AddInterestedPeers.induct) auto

lemma RemoveInterestedPeer_chan:
  "eventChan (RemoveInterestedPeer is l) = eventChan l \<and> ctx_done (RemoveInterestedPeer is l) = ctx_done l"
  by (induction "is" l rule: RemoveInterestedPeer.induct) auto

lemma handleMsgType_chan:
  assumes "handleMsgType p t rate_ok msg s l = Some e"
  shows "eventChan (eff_listener e) = eventChan l \<and> ctx_done (eff_listener e) = ctx_done l"
  using assms
  by (auto simp: handleMsgType_def no_effects_def handleSubscribePeerState_def Let_def
      handleUnsubscribePeerState_def GetOnlinePeersAndRegisterInterest_def
      AddInterestedPeers_chan RemoveInterestedPeer_chan
      split: if_splits bind_splits sum.splits option.splits)

lemma Work_iteration_chan:
  assumes "Work_iteration p rate_ok msg s l = Some e"
  shows "eventChan (eff_listener e) = eventChan l \<and> ctx_done (eff_listener e) = ctx_done l"
  using assms handleMsgType_chan
  by (auto simp: Work_iteration_def no_effects_def split: if_splits bind_splits sum.splits)

text \<open>Moving one connection to another point of its life keeps the parts of the invariant.\<close>

lemma stored_live_goto:
  "stored_live s cs \<Longrightarrow> gget cs (ptr p) = Some (p, c) \<Longrightarrow> in_store c' \<or> \<not> in_store c \<Longrightarrow>
   stored_live s (gput (ptr p) (p, c') cs)"
  unfolding stored_live_def by (metis gget_gput option.inject prod.inject)

lemma conns_ok_goto: "conns_ok V cs \<Longrightarrow> admitted V p \<Longrightarrow> conns_ok V (gput (ptr p) (p, c) cs)"
  by (auto simp: conns_ok_def)

lemma listeners_ok_goto:
  "listeners_ok nf cs \<Longrightarrow> gget nf k = None \<Longrightarrow> listeners_ok nf (gput k x cs)"
  unfolding listeners_ok_def by (metis gget_gput option.distinct(1))

lemma not_working_no_listener:
  "listeners_ok nf cs \<Longrightarrow> gget cs k = Some (p, c) \<Longrightarrow> c \<noteq> Working \<Longrightarrow> gget nf k = None"
  unfolding listeners_ok_def by (metis not_None_eq option.inject prod.inject)

lemma inv_conn:
  assumes "relay_inv V r" and "gget (rconns r) k = Some (p, c)"
  shows "ptr p = k" and "admitted V p"
  using assms by (auto simp: relay_inv_def conns_ok_def)

lemma inv_check:
  assumes inv: "relay_inv V r" and ex: "relay_exec V (ACheck k buf) r = Some r'"
  shows "relay_inv V r'"
proof -
  from ex have new: "gget (rconns r) k = None" by (cases "gget (rconns r) k") auto
  from ex obtain h where h: "handshakeReceive V buf = Some (Inr h)"
    and r': "r' = goto r (NewPeer k h) (Checked (HasPeer (rstore r) (hsPeerID h)))"
    by (auto split: if_splits option.splits sum.splits)
  have adm: "admitted V (NewPeer k h)" using h by (auto simp: admitted_def NewPeer_def)
  have "stored_live (rstore r) (gput k x (rconns r))" for x
    using inv new unfolding relay_inv_def stored_live_def by (metis gget_gput option.distinct(1))
  moreover have "gget (rnotifier r) k = None"
    using inv new unfolding relay_inv_def listeners_ok_def by (metis option.distinct(1) option.exhaust)
  ultimately show ?thesis using inv conns_ok_goto [OF _ adm] listeners_ok_goto
    by (simp add: r' relay_inv_def goto_def NewPeer_def)
qed

lemma inv_add:
  assumes inv: "relay_inv V r" and ex: "relay_exec V (AAdd k) r = Some r'"
  shows "relay_inv V r'"
proof -
  from ex obtain p w where p: "gget (rconns r) k = Some (p, Checked w)"
    and r': "r' = goto (r\<lparr> rstore := fst (AddPeer p (rstore r)) \<rparr>) p (Added w)"
    by (auto simp: at_pc_def split: option.splits pc.splits)
  have k: "ptr p = k" "admitted V p" using inv_conn [OF inv p] by auto
  have ok: "store_ok (rstore r)" using inv by (simp add: relay_inv_def)
  have "stored_live (fst (AddPeer p (rstore r))) (gput k (p, Added w) (rconns r))"
    unfolding stored_live_def relay_table.look_add [OF ok]
  proof (intro allI impI)
    fix key q
    assume "((store_abs (rstore r))((ID p, ChannelID p) \<mapsto> p)) key = Some q"
    then consider "q = p" | "store_abs (rstore r) key = Some q"
      by (metis fun_upd_other fun_upd_same option.inject)
    then show "\<exists>c. gget (gput k (p, Added w) (rconns r)) (ptr q) = Some (q, c) \<and> in_store c"
    proof cases
      case 2
      then obtain c where "gget (rconns r) (ptr q) = Some (q, c)" "in_store c"
        using inv unfolding relay_inv_def stored_live_def by blast
      moreover from this have "ptr q \<noteq> k" using p by (metis in_store.simps(5) option.inject prod.inject)
      ultimately show ?thesis by simp
    qed (simp add: k)
  qed
  moreover have "gget (rnotifier r) k = None"
    using inv p by (auto simp: relay_inv_def intro: not_working_no_listener)
  ultimately show ?thesis
    using inv relay_table.add_ok [OF ok] conns_ok_goto [OF _ k(2)] listeners_ok_goto k
    by (simp add: r' relay_inv_def goto_def)
qed

lemma inv_notify_online:
  assumes inv: "relay_inv V r" and ex: "relay_exec V (ANotifyOnline k order pick) r = Some r'"
  shows "relay_inv V r'"
proof -
  from ex obtain p w where p: "gget (rconns r) k = Some (p, Added w)"
    by (auto simp: at_pc_def split: option.splits pc.splits)
  have "\<exists>nf. r' = goto (r\<lparr> rnotifier := nf \<rparr>) p Notified \<and>
    (nf = rnotifier r \<or> PeerCameOnline order pick (ID p) (rnotifier r) = Some nf)"
  proof (cases w)
    case True
    then show ?thesis using ex p by (intro exI [of _ "rnotifier r"]) (simp add: at_pc_def)
  next
    case False
    then show ?thesis using ex p by (auto simp: at_pc_def split: if_splits)
  qed
  then obtain nf where r': "r' = goto (r\<lparr> rnotifier := nf \<rparr>) p Notified"
    and nf: "nf = rnotifier r \<or> PeerCameOnline order pick (ID p) (rnotifier r) = Some nf" by blast
  have k: "ptr p = k" "admitted V p" using inv_conn [OF inv p] by auto
  have ls: "listeners_ok nf (rconns r)" using inv nf came_online_ok by (auto simp: relay_inv_def)
  have "stored_live (rstore r) (gput k (p, Notified) (rconns r))"
    using inv p k stored_live_goto [of "rstore r" "rconns r" p] by (auto simp: relay_inv_def)
  then show ?thesis
    using inv conns_ok_goto [OF _ k(2)] listeners_ok_goto [OF ls not_working_no_listener [OF ls p]] k
    by (simp add: r' relay_inv_def goto_def)
qed

lemma inv_work:
  assumes inv: "relay_inv V r" and ex: "relay_exec V (AWork k) r = Some r'"
  shows "relay_inv V r'"
proof -
  from ex obtain p where p: "gget (rconns r) k = Some (p, Notified)"
    and r': "r' = goto (r\<lparr> rnotifier := NewListener k (rnotifier r) \<rparr>) p Working"
    by (auto simp: at_pc_def split: option.splits pc.splits)
  have k: "ptr p = k" "admitted V p" using inv_conn [OF inv p] by auto
  have "stored_live (rstore r) (gput k (p, Working) (rconns r))"
    using inv p k stored_live_goto [of "rstore r" "rconns r" p] by (auto simp: relay_inv_def)
  moreover have "listeners_ok (NewListener k (rnotifier r)) (gput k (p, Working) (rconns r))"
    using inv by (auto simp: relay_inv_def listeners_ok_def NewListener_def newListener_def split: if_splits)
  ultimately show ?thesis using inv conns_ok_goto [OF _ k(2)] k by (simp add: r' relay_inv_def goto_def)
qed

lemma inv_recv:
  assumes inv: "relay_inv V r" and ex: "relay_exec V (ARecv k ro msg) r = Some r'"
  shows "relay_inv V r'"
proof -
  from ex obtain p l e where p: "gget (rconns r) k = Some (p, Working)"
    and l: "gget (rnotifier r) k = Some l" and e: "Work_iteration p ro msg (rstore r) l = Some e"
    and r': "r' = r\<lparr> rnotifier := gput k (eff_listener e) (rnotifier r) \<rparr>"
    by (auto simp: at_pc_def split: option.splits pc.splits)
  show ?thesis using inv p l Work_iteration_chan [OF e]
    by (auto simp: r' relay_inv_def listeners_ok_def)
qed

lemma inv_listen:
  assumes inv: "relay_inv V r" and ex: "relay_exec V (AListen k) r = Some r'"
  shows "relay_inv V r'"
proof -
  from ex obtain l cb where l: "gget (rnotifier r) k = Some l" and
    r': "r' = r\<lparr> rnotifier := gput k (l\<lparr> eventChan := [] \<rparr>) (rnotifier r) \<rparr>"
    by (auto simp: listenForEvents_once_def Let_def split: option.splits if_splits prod.splits)
  show ?thesis using inv l by (auto simp: r' relay_inv_def listeners_ok_def)
qed

lemma inv_leave:
  assumes inv: "relay_inv V r" and ex: "relay_exec V (ALeave k) r = Some r'"
  shows "relay_inv V r'"
proof -
  from ex obtain p where p: "gget (rconns r) k = Some (p, Working)"
    and r': "r' = goto (r\<lparr> rnotifier := RemoveListener k (rnotifier r) \<rparr>) p Leaving"
    by (auto simp: at_pc_def split: option.splits pc.splits)
  have k: "ptr p = k" "admitted V p" using inv_conn [OF inv p] by auto
  have "stored_live (rstore r) (gput k (p, Leaving) (rconns r))"
    using inv p k stored_live_goto [of "rstore r" "rconns r" p] by (auto simp: relay_inv_def)
  moreover have "listeners_ok (RemoveListener k (rnotifier r)) (rconns r)"
    using inv by (auto simp: relay_inv_def listeners_ok_def RemoveListener_def split: option.splits if_splits)
  then have "listeners_ok (RemoveListener k (rnotifier r)) (gput k (p, Leaving) (rconns r))"
    by (rule listeners_ok_goto) (auto simp: RemoveListener_def split: option.splits)
  ultimately show ?thesis using inv conns_ok_goto [OF _ k(2)] k by (simp add: r' relay_inv_def goto_def)
qed

lemma inv_delete:
  assumes inv: "relay_inv V r" and ex: "relay_exec V (ADelete k) r = Some r'"
  shows "relay_inv V r'"
proof -
  from ex obtain p where p: "gget (rconns r) k = Some (p, Leaving)"
    and r': "r' = goto (r\<lparr> rstore := fst (DeletePeer p (rstore r)) \<rparr>) p (Deleted (snd (DeletePeer p (rstore r))))"
    by (auto simp: at_pc_def Let_def split: option.splits pc.splits prod.splits)
  have k: "ptr p = k" "admitted V p" using inv_conn [OF inv p] by auto
  have ok: "store_ok (rstore r)" using inv by (simp add: relay_inv_def)
  have "stored_live (fst (DeletePeer p (rstore r))) (gput k (p, Deleted d) (rconns r))" for d
    unfolding stored_live_def
  proof (intro allI impI)
    fix key q
    assume q: "store_abs (fst (DeletePeer p (rstore r))) key = Some q"
    then have old: "store_abs (rstore r) key = Some q"
      using relay_table.look_del [OF ok, of p] by (auto split: if_splits)
    then obtain c where c: "gget (rconns r) (ptr q) = Some (q, c)" "in_store c"
      using inv unfolding relay_inv_def stored_live_def by blast
    have "ptr q \<noteq> k"
    proof
      assume "ptr q = k"
      then have "q = p" using c p by simp
      then have "key = (ID p, ChannelID p)" using relay_table.look_self [OF ok, of "fst key" "snd key" q] old
        by (cases key) auto
      then show False using q old \<open>q = p\<close> relay_table.look_del [OF ok, of p] relay_table.del_iff [OF ok, of p]
        by auto
    qed
    then show "\<exists>c. gget (gput k (p, Deleted d) (rconns r)) (ptr q) = Some (q, c) \<and> in_store c"
      using c by auto
  qed
  moreover have "gget (rnotifier r) k = None"
    using inv p by (auto simp: relay_inv_def intro: not_working_no_listener)
  ultimately show ?thesis
    using inv relay_table.del_ok [OF ok] conns_ok_goto [OF _ k(2)] listeners_ok_goto k
    by (simp add: r' relay_inv_def goto_def)
qed

lemma inv_notify_offline:
  assumes inv: "relay_inv V r" and ex: "relay_exec V (ANotifyOffline k order pick) r = Some r'"
  shows "relay_inv V r'"
proof -
  from ex obtain p d where p: "gget (rconns r) k = Some (p, Deleted d)"
    by (auto simp: at_pc_def split: option.splits pc.splits)
  have "\<exists>nf. r' = r\<lparr> rnotifier := nf, rconns := gdel k (rconns r) \<rparr> \<and>
    (nf = rnotifier r \<or> PeerWentOffline order pick (ID p) (rnotifier r) = Some nf)"
  proof (cases "d \<and> \<not> HasPeer (rstore r) (ID p)")
    case True
    then show ?thesis using ex p by (auto simp: at_pc_def split: if_splits)
  next
    case False
    then show ?thesis using ex p by (intro exI [of _ "rnotifier r"]) (auto simp: at_pc_def)
  qed
  then obtain nf where r': "r' = r\<lparr> rnotifier := nf, rconns := gdel k (rconns r) \<rparr>"
    and nf: "nf = rnotifier r \<or> PeerWentOffline order pick (ID p) (rnotifier r) = Some nf" by blast
  have ls: "listeners_ok nf (rconns r)" using inv nf went_offline_ok by (auto simp: relay_inv_def)
  have "listeners_ok nf (gdel k (rconns r))"
    using ls not_working_no_listener [OF ls p] unfolding listeners_ok_def
    by (metis gget_gdel option.distinct(1) pc.distinct)
  moreover have "stored_live (rstore r) (gdel k (rconns r))"
    using inv p unfolding relay_inv_def stored_live_def
    by (metis gget_gdel in_store.simps(6) option.inject prod.inject)
  moreover have "conns_ok V (gdel k (rconns r))"
    using inv by (auto simp: relay_inv_def conns_ok_def split: if_splits)
  ultimately show ?thesis using inv by (simp add: r' relay_inv_def)
qed

interpretation relay: invariant_system "\<lambda>r. r = NewRelay" "relay_steps V" "relay_inv V" for V
proof
  show "r = NewRelay \<Longrightarrow> relay_inv V r" for r
    using store_ok_NewStore
    by (simp add: relay_inv_defs NewRelay_def store_abs_def PeerChannel_def NewStore_def split_beta)
next
  fix r r' assume inv: "relay_inv V r" and "relay_steps V r r'"
  then obtain a where ex: "relay_exec V a r = Some r'" by (auto simp: relay_steps_def)
  then show "relay_inv V r'"
    by (cases a) (use inv in \<open>blast intro: inv_check inv_add inv_notify_online inv_work inv_recv
      inv_listen inv_leave inv_delete inv_notify_offline\<close>)+
qed

section \<open>Runs\<close>

text \<open>Validators that admit every token, and the frames of a client on a channel.\<close>

definition admit_all :: validators where
  "admit_all = \<lparr> validateAuth = \<lambda>_. True, validateHello = \<lambda>_. True, decodeAuthMsg = Some \<rparr>"

definition auth_frame :: "peer_id \<Rightarrow> u32 \<Rightarrow> bytes" where
  "auth_frame i c = [1, MsgTypeAuthChannel] @ magicHeader @ i @ u32_bytes c @ []"

definition subscribe_frame :: "peer_id \<Rightarrow> bytes" where
  "subscribe_frame i = [1, MsgTypeSubscribePeerState] @ concat [i]"

definition connect :: "nat \<Rightarrow> peer_id \<Rightarrow> u32 \<Rightarrow> nat list \<Rightarrow> action list" where
  "connect k i c ls = [ACheck k (auth_frame i c), AAdd k, ANotifyOnline k ls False, AWork k]"

definition peer_a :: peer_id where "peer_a = replicate 36 10"
definition peer_x :: peer_id where "peer_x = replicate 36 20"

lemma peer_ids: "is_peer_id peer_a" "is_peer_id peer_x" "peer_a \<noteq> peer_x" "peer_x \<noteq> peer_a"
  by (simp_all add: peer_a_def peer_x_def peerIDSize_def)

lemma handshake_auth_frame:
  assumes "is_peer_id i" and "validateAuth V []"
  shows "handshakeReceive V (auth_frame i c) =
    Some (Inr \<lparr> handshakeMethodAuth = True, hsPeerID = i, relayChannelID = c \<rparr>)"
proof -
  let ?f = "[1, MsgTypeAuthChannel] @ magicHeader @ i @ u32_bytes c @ []"
  have "ValidateVersion ?f = Some (Inr 1)" by (simp add: ValidateVersion_def idx_def size_defs)
  moreover have "DetermineClientMessageType ?f = Some (Inr MsgTypeAuthChannel)"
    by (simp add: DetermineClientMessageType_def idx_def size_defs)
  moreover have "MsgTypeAuthChannel \<noteq> MsgTypeHello" "MsgTypeAuthChannel \<noteq> MsgTypeAuth"
    by (simp_all add: type_defs)
  ultimately show ?thesis using UnmarshalAuthChannelMsg_layout [OF assms(1), of c "[]"] assms(2)
    unfolding auth_frame_def by (simp add: handshakeReceive_def handleAuthChannelMsg_def del: append.simps)
qed

lemma run_reach:
  "relay_run V as r = Some r' \<Longrightarrow> reach start (relay_steps V) r \<Longrightarrow> reach start (relay_steps V) r'"
proof (induction "as" arbitrary: r)
  case (Cons a as)
  then obtain r1 where "relay_exec V a r = Some r1" "relay_run V as r1 = Some r'"
    by (auto split: bind_splits)
  moreover from this have "relay_steps V r r1" by (auto simp: relay_steps_def)
  ultimately show ?case using Cons.IH [of r1] reach_step [OF Cons.prems(2), of r1] by blast
qed simp

lemma Work_subscribe:
  assumes "is_peer_id i"
  shows "\<exists>e. Work_iteration p rate_ok (subscribe_frame i) s l = Some e \<and>
    eff_listener e = AddInterestedPeers [i] l"
proof -
  let ?f = "[1, MsgTypeSubscribePeerState] @ concat [i]"
  have head: "ValidateVersion ?f = Some (Inr 1)"
    "DetermineClientMessageType ?f = Some (Inr MsgTypeSubscribePeerState)"
    by (simp_all add: ValidateVersion_def DetermineClientMessageType_def idx_def size_defs)
  have ids: "unmarshalPeerIDs ?f = Some (Inr [i])" using assms by (intro unmarshalPeerIDs_layout) simp
  have send: "\<exists>ws. sendPeersOnline [i] = Some ws"
    using marshal_loop_layout [of "[i]" MsgTypePeersOnline 0] assms
    by (simp add: sendPeersOnline_def MarshalPeersOnline_def marshalPeerIDs_def)
  have "\<exists>ws. handleSubscribePeerState ?f s l = Some (AddInterestedPeers [i] l, ws)"
    using ids send by (auto simp: handleSubscribePeerState_def UnmarshalSubPeerStateMsg_def Let_def
        GetOnlinePeersAndRegisterInterest_def simp del: append.simps concat.simps AddInterestedPeers.simps)
  moreover have "MsgTypeSubscribePeerState \<notin> {MsgTypeHealthCheck, MsgTypeTransport, MsgTypeTransportChannel,
    MsgTypeClose}" by (simp add: type_defs)
  ultimately show ?thesis unfolding subscribe_frame_def using head
    by (auto simp: Work_iteration_def handleMsgType_def no_effects_def
        simp del: append.simps concat.simps AddInterestedPeers.simps)
qed

lemma recv_subscribe:
  assumes "is_peer_id i" and "gget (rconns r) k = Some (p, Working)" and "gget (rnotifier r) k = Some l"
  shows "relay_exec V (ARecv k rate_ok (subscribe_frame i)) r =
    Some (r\<lparr> rnotifier := gput k (AddInterestedPeers [i] l) (rnotifier r) \<rparr>)"
  using Work_subscribe [OF assms(1), of p rate_ok "rstore r" l] assms(2,3)
  by (auto simp: at_pc_def simp del: AddInterestedPeers.simps)

lemma relay_run_append: "relay_run V (xs @ ys) r = Option.bind (relay_run V xs r) (relay_run V ys)"
  by (induction xs arbitrary: r) (auto split: bind_splits)

lemma exec_check:
  "is_peer_id i \<Longrightarrow> gget (rconns r) k = None \<Longrightarrow>
   relay_exec admit_all (ACheck k (auth_frame i c)) r =
     Some (goto r \<lparr> ptr = k, ID = i, ChannelID = c \<rparr> (Checked (HasPeer (rstore r) i)))"
  by (simp add: handshake_auth_frame admit_all_def NewPeer_def)

text \<open>The message and the credential that the validators accepted for an identifier and a channel.\<close>

definition credential_accepted :: "validators \<Rightarrow> bytes \<Rightarrow> peer_id \<Rightarrow> u32 \<Rightarrow> bool" where
  "credential_accepted V buf i c \<longleftrightarrow>
     (\<exists>t. DetermineClientMessageType buf = Some (Inr t) \<and>
       (t = MsgTypeAuthChannel \<and> (\<exists>token. UnmarshalAuthChannelMsg buf = Some (Inr (i, c, token)) \<and> validateAuth V token) \<or>
        t = MsgTypeAuth \<and> c = 0 \<and> (\<exists>token. UnmarshalAuthMsg buf = Some (Inr (i, token)) \<and> validateAuth V token) \<or>
        t = MsgTypeHello \<and> c = 0 \<and> (\<exists>additions token. UnmarshalHelloMsg buf = Some (Inr (i, additions)) \<and>
          decodeAuthMsg V additions = Some token \<and> validateHello V token)))"

lemma handshake_credential:
  "handshakeReceive V buf = Some (Inr h) \<Longrightarrow> credential_accepted V buf (hsPeerID h) (relayChannelID h)"
  unfolding handshakeReceive_def credential_accepted_def handleHelloMsg_def handleAuthMsg_def handleAuthChannelMsg_def
  by (fastforce split: bind_splits sum.splits if_splits option.splits prod.splits)


definition one_client :: relay where
  "one_client = \<lparr> rstore = [(peer_a, [(0, \<lparr> ptr = 1, ID = peer_a, ChannelID = 0 \<rparr>)])], rnotifier = [],
     rconns = [(1, (\<lparr> ptr = 1, ID = peer_a, ChannelID = 0 \<rparr>, Added False))] \<rparr>"

lemma one_client_run: "relay_run admit_all [ACheck 1 (auth_frame peer_a 0), AAdd 1] NewRelay = Some one_client"
  using exec_check [OF peer_ids(1), of NewRelay 1 0]
  by (simp add: NewRelay_def NewStore_def goto_def at_pc_def AddPeer_def peerChannelID_def one_client_def
      HasPeer_def del: relay_exec.simps(1))


text \<open>
  The interleaving: client \<open>peer_a\<close> and then \<open>peer_x\<close> connect, \<open>peer_a\<close> subscribes to \<open>peer_x\<close>; a second
  channel of \<open>peer_x\<close> passes the \<open>HasPeer\<close> check; the first channel then ends completely; the second
  channel is added.
\<close>

abbreviation conn_a :: rpeer where "conn_a \<equiv> \<lparr> ptr = 1, ID = peer_a, ChannelID = 0 \<rparr>"
abbreviation conn_x :: rpeer where "conn_x \<equiv> \<lparr> ptr = 2, ID = peer_x, ChannelID = 0 \<rparr>"
abbreviation conn_y :: rpeer where "conn_y \<equiv> \<lparr> ptr = 3, ID = peer_x, ChannelID = 1 \<rparr>"

definition both_online :: relay where
  "both_online = \<lparr> rstore = [(peer_a, [(0, conn_a)]), (peer_x, [(0, conn_x)])],
     rnotifier = [(1, newListener), (2, newListener)],
     rconns = [(1, (conn_a, Working)), (2, (conn_x, Working))] \<rparr>"

lemma both_online_run:
  "relay_run admit_all (connect 1 peer_a 0 [] @ connect 2 peer_x 0 [1]) NewRelay = Some both_online"
  by (simp add: connect_def exec_check peer_ids NewRelay_def NewStore_def goto_def at_pc_def AddPeer_def
      peerChannelID_def HasPeer_def both_online_def PeerCameOnline_def listener_peerComeOnline_def
      newListener_def NewListener_def del: relay_exec.simps(1))

definition late_second_channel :: "action list" where
  "late_second_channel =
     [ARecv 1 True (subscribe_frame peer_x), ACheck 3 (auth_frame peer_x 1), ALeave 2, ADelete 2,
      ANotifyOffline 2 [1] False, AAdd 3, ANotifyOnline 3 [] False, AWork 3]"

definition missed_online :: relay where
  "missed_online = \<lparr> rstore = [(peer_a, [(0, conn_a)]), (peer_x, [(1, conn_y)])],
     rnotifier = [(1, \<lparr> ctx_done = False, eventChan = [\<lparr> ev_peer = peer_x, ev_online = False \<rparr>],
       interestedPeersForOffline = {peer_x}, interestedPeersForOnline = {peer_x} \<rparr>), (3, newListener)],
     rconns = [(1, (conn_a, Working)), (3, (conn_y, Working))] \<rparr>"

lemma missed_online_run: "relay_run admit_all late_second_channel both_online = Some missed_online"
  by (simp add: late_second_channel_def recv_subscribe [of _ _ _ conn_a newListener] exec_check peer_ids
      both_online_def goto_def at_pc_def AddPeer_def DeletePeer_def peerChannelID_def HasPeer_def
      RemoveListener_def PeerWentOffline_def listener_peerWentOffline_def select_send_def eventChanCap_def
      newListener_def NewListener_def missed_online_def del: relay_exec.simps(1,5))

text \<open>
  Presence can go wrong across channels: \<open>Accept\<close> reads \<open>HasPeer\<close> and calls \<open>AddPeer\<close> under
  separate locks, and there is a reachable state in which all connections have settled into their
  work loops, a subscriber's only pending event says that a peer went offline, no online event for
  the peer was or will be sent, and yet the peer is connected on its second channel.
\<close>

theorem presence_race:
  "\<exists>r l. reach (\<lambda>r. r = NewRelay) (relay_steps admit_all) r \<and>
    list_all (\<lambda>(k, p, w). w = Working) (rconns r) \<and>
    gget (rnotifier r) 1 = Some l \<and> eventChan l = [\<lparr> ev_peer = peer_x, ev_online = False \<rparr>] \<and>
    peer_x \<in> interestedPeersForOnline l \<and> HasPeer (rstore r) peer_x"
proof -
  have "reach (\<lambda>r. r = NewRelay) (relay_steps admit_all) both_online"
    by (rule run_reach [OF both_online_run]) (rule reach_start, rule refl)
  then have "reach (\<lambda>r. r = NewRelay) (relay_steps admit_all) missed_online"
    by (rule run_reach [OF missed_online_run])
  then show ?thesis
    by (intro exI [of _ missed_online]) (simp add: missed_online_def HasPeer_def peer_ids)
qed

end
