(* ===== verification/Spec2Isabelle.thy ===== *)
theory Spec2Isabelle
  imports UspFlows DnsInterceptor ClientConfig AnonRuntime I2PSam Multipath RelayServer ConntrackTCP ConntrackUDP ConntrackICMP
begin

text \<open>
  \<^bold>\<open>AnonBird: verification of the client's data plane, its anonymity policy and the relay\<close>

  \<^bold>\<open>The program.\<close> AnonBird (a fork of NetBird, in Go) connects peers by WireGuard over anonymous networks.
  A client keeps a configuration and, in anonymous mode, talks to the management, signal and relay servers
  only through Tor or I2P. It starts and supervises the Tor or I2P daemon, spreads overlay flows over several
  relay channels, filters and translates overlay packets in user space, and installs routes for the addresses
  that DNS names resolve to. The relay passes packets between peers that have authenticated with credentials
  issued by the management server. The parts and how they call each other:

  \<^item> the configuration is made and enforced against the anonymity policy; the same policy validates the
    network configuration that the management server sends and the relay URLs that are dialled;
  \<^item> the runtime resolves the daemon's program, writes its configuration and waits for its proxy; datagrams
    and streams over I2P go through the SAM bridge;
  \<^item> packets to and from WireGuard pass the userspace firewall: decoding, translation, connection tracking,
    peer rules, route rules, forwarder;
  \<^item> the DNS interceptor counts routes and allowed addresses in counters that it shares with the other route
    handlers, takes fake addresses from a shared pool, and installs their translations in the firewall;
  \<^item> the relay reads a handshake, checks its credential, files the connection in its store, and forwards
    frames between the connections stored there.

  \<^bold>\<open>Conventions.\<close> A Go function that can panic returns an \<open>option\<close>, in which \<open>None\<close> is the panic; an error is
  \<open>Inl\<close> of a datatype with a constructor per error. A struct is a record, a constant of an enumeration a
  constructor, an integer whose width matters a word. A Go map is an association list with distinct keys
  (\<open>gmap\<close>), with \<open>None\<close> for nil where it can be nil. What the language leaves open (the iteration order of
  maps, the ready case of a select) and what comes from outside (clock, random values, operating system,
  upstream servers) is an argument of the definition that uses it, and the theorems hold for all of them.
  State is passed explicitly; a method under a lock is one function; a component with a history is a step
  relation whose reachable states are \<open>reach\<close>, and its invariants come from the locale \<open>invariant_system\<close>.

  \<^bold>\<open>Foundations.\<close>

  \<^item> \<open>Prelude\<close>: checked slices and indices, byte order, Go maps, \<open>netip\<close> addresses (a \<open>linorder\<close> by the order
    of \<open>Addr.Compare\<close>) and prefixes, step systems.
  \<^item> \<open>GoStrings\<close>: the functions of \<open>strings\<close>, \<open>strconv\<close>, \<open>net\<close>, \<open>netip\<close> and \<open>net/url\<close> that the sources use, on
    strings of bytes. Case mapping and white space are those of ASCII.

  \<^bold>\<open>Anonymity policy, configuration and runtime.\<close>

  \<^item> \<open>AnonymousPolicy\<close>: \<open>client/internal/anonymous/anonymous.go\<close>, \<open>shared/anonymous/endpoint.go\<close>, the scrubbing
    in \<open>client/system/info.go\<close>, and \<open>prepareURL\<close> of \<open>shared/relay/client/dialer/ws/ws.go\<close>. Shown: the exact
    condition under which a network configuration is accepted, and that the host that is dialled is the host
    that was validated. The gaps of the classification (endpoints without a host, zoned IPv6 addresses)
    are lemmas.
  \<^item> \<open>ClientConfig\<close>: \<open>client/internal/profilemanager/config.go\<close>, with \<open>Config\<close>, \<open>ConfigInput\<close>, all of \<open>apply\<close>,
    the enforcement of anonymous mode, and the operations that create, read and update the stored file,
    atomically or in place (where a failed write can leave a torn file), or convert it from and to JSON. The
    store is a map from paths to configurations. Shown: no operation hands out or stores a configuration in
    which anonymous mode is on and one of its restrictions is off; and a panic on old files.
  \<^item> \<open>AnonRuntime\<close>: \<open>dependency.go\<close>, \<open>tor.go\<close>, \<open>i2pd.go\<close> and \<open>runtime.go\<close> of \<open>client/internal/anonymous\<close>, over a
    record \<open>os\<close> of operating-system operations on an arbitrary world. Shown: the Tor configuration opens one
    listener, on the loopback interface; a runtime that is handed out has a proxy that answers.
  \<^item> \<open>I2PSam\<close>: \<open>sam.go\<close> and \<open>datagram.go\<close> of \<open>shared/anonymous/i2psam\<close>. Shown: datagrams announced by the bridge
    are received byte for byte.
  \<^item> \<open>Multipath\<close>: \<open>client/internal/anonymous/multipath/flow.go\<close>. Shown: rendezvous selection by the locale
    \<open>first_max\<close> moves a flow only off a channel that leaves or onto one that joins.

  \<^bold>\<open>Relay.\<close>

  \<^item> \<open>RelayMessages\<close>: \<open>shared/relay/messages\<close>. Every encoder and decoder. Shown: decoders never panic, peer lists
    round trip within the frame limit, the locale \<open>frame_codec\<close> for both transport frames, and the misaligned
    additions of the deprecated hello.
  \<^item> \<open>RelayAuth\<close>: \<open>shared/relay/auth\<close> (both generations of tokens, the client's token store) and the credentials
    of \<open>management/internals/shared/grpc/token_mgr.go\<close>. Keyed hashes, digests and base64 are arguments, used
    through the length of a digest and the inverse of the codec. Shown: the exact set of tokens a relay
    accepts, and that issued credentials are accepted exactly until they expire.
  \<^item> \<open>RelayStore\<close>: \<open>store.go\<close>, \<open>listener.go\<close>, \<open>notifier.go\<close> of \<open>relay/server/store\<close>. Shown: the two-level map refines
    a table indexed by identifier and channel (locale \<open>peer_table\<close>), and a replaced connection cannot delete
    its successor.
  \<^item> \<open>RelayServer\<close>: \<open>handshake.go\<close>, \<open>peer.go\<close>, \<open>relay.go\<close> of \<open>relay/server\<close>. \<open>Accept\<close> is cut at its calls into the
    store and the notifier, so that the steps of several connections interleave. Shown: only authenticated
    connections in progress are in the store, and forwarded frames carry the sender's identifier.

  \<^bold>\<open>Userspace firewall.\<close> All under \<open>client/firewall\<close>.

  \<^item> \<open>FirewallTypes\<close>: \<open>manager\<close> and the key of \<open>client/internal/acl/id\<close>. \<open>Checksum\<close>: the checksums of
    \<open>uspfilter/nat.go\<close>, equal to RFC 1071 and RFC 1624 on the sizes that occur.
  \<^item> \<open>Conntrack\<close>, \<open>ConntrackTCP\<close>, \<open>ConntrackUDP\<close>, \<open>ConntrackICMP\<close>: \<open>uspfilter/conntrack\<close>. The locale
    \<open>evicting_table\<close> is what the trackers require of their eviction. Shown: only solicited packets are
    accepted, each flow starts and ends at most once, tables stay within their cap, nothing panics.
  \<^item> \<open>UspPacket\<close>: the pooled decoder, packet hooks and local addresses; the parser (\<open>gopacket\<close>) is an argument.
  \<^item> \<open>UspNat\<close>: the rest of \<open>uspfilter/nat.go\<close> and MSS clamping. Shown: rewriting changes the address and the
    checksums only and keeps the checksums valid, clamping rewrites one option in place; and a lost checksum.
  \<^item> \<open>UspFilter\<close>: \<open>uspfilter/filter.go\<close> and \<open>rule.go\<close>, with the state \<open>Manager\<close>, its creation, all operations on
    rules and routing, and the two filters. \<open>UspRules\<close>: the invariant of the rule tables and what the two
    access decisions compute. \<open>UspInbound\<close>: the firewall as a step system of control calls and packets, and the
    exact inbound decision. \<open>UspFlows\<close>: the firewall with its trackers: default deny, answers come back, the
    overlay is not routed into; and the faults in set updates and in stateless mode.

  \<^bold>\<open>Dynamic routes.\<close> All under \<open>client/internal/routemanager\<close>.

  \<^item> \<open>RefCounter\<close>: \<open>refcounter\<close> and \<open>ipfwdstate\<close>, with the functions of a counter as arguments that may answer
    anything. Shown: the counter mirrors what the calls left in the system; grouped references are exact.
  \<^item> \<open>FakeIP\<close>: \<open>fakeip/fakeip.go\<close>. Shown: allocation returns and is exact, translations are a bijection.
  \<^item> \<open>DnsInterceptor\<close>: \<open>dnsinterceptor/handler.go\<close>. Its histories interleave the interceptor with the steps of
    other handlers on the shared counters, fake addresses and firewall. Shown: routes, allowed addresses and
    translations are those of the answers on record, and no operation panics; and the ways in which
    addresses are lost.

  \<^bold>\<open>Loops and bounds.\<close> Recursion over packets, options and carries is by \<open>function\<close> with a termination proof.
  The search for a fake address is a \<open>partial_function\<close>; it is shown to return on every reachable pool. The
  loops that wait for a daemon take fuel, a unit per tick of the code's timer; \<open>wait_returns\<close> shows that more
  fuel than there are ticks before the time-out is enough, for every behaviour of the daemon. The checksum
  lemmas hold for packets below 128 KiB, more than an IP packet can hold.

  \<^bold>\<open>Not modelled.\<close>

  \<^item> Concurrency inside one call: the trackers' atomic fields and the locks of the firewall and of the
    interceptor are taken to make a call one step. The relay's \<open>Accept\<close>, whose calls are locked one by one,
    does interleave.
  \<^item> Sockets, deadlines, write errors and health checks of the relay and of the SAM client; the relay's
    graceful shutdown; metrics, logs, packet capture and tracing.
  \<^item> The forwarder's TCP/IP stack: a packet handed to it is recorded. The kernel firewalls.
  \<^item> \<open>UpdateOldManagementURL\<close>, which probes a server, the profile directories, and the byte format of JSON.
  \<^item> Unicode beyond ASCII in case mapping and white space.
  \<^item> The engine, the peer connections (ICE), the DNS server, the other route handlers (except for what they
    do to the shared state), WireGuard devices, the relay's clients and listeners, the management server
    (except for relay and TURN credentials), the signal server, the reverse proxy, the command line and the
    user interfaces: they consist of goroutines, remote procedure calls, databases and system calls around
    third-party libraries. Generated protocol buffers are records of the fields that are read.
\<close>

end
